(* ===== verification/Prelude.thy ===== *)
theory Prelude
  imports Main "HOL-Library.Word" "HOL-Library.Char_ord" "HOL-Library.List_Lexorder"
begin

text \<open>
  What every component shares: the machine integers and byte strings of the Rust
  sources, the result type that carries errors and panics, folding a fallible step over
  a list (a \<open>for\<close> loop whose body uses \<open>?\<close>), a loop with \<open>skip\<close> and
  \<open>limit\<close> counters, and the big- and little-endian byte encodings of
  integers.
\<close>

named_theorems key_simps \<open>facts about the composite keys of the index tables\<close>
named_theorems frame_simps \<open>which tables an operation leaves alone\<close>

section \<open>Machine integers and faults\<close>

type_synonym u8 = "8 word"
type_synonym u32 = "32 word"
type_synonym u64 = "64 word"
type_synonym bytes = "u8 list"

text \<open>
  \<open>StoreError\<close> is the error enum of \<open>store.rs\<close>; a fault is either such an error, on
  its way out through \<open>?\<close>, or a panic (a string slice that is not on a character
  boundary).
\<close>

datatype StoreError = Db string | Decode string

datatype fault = Panic | Err StoreError

type_synonym 'a res = "fault + 'a"

lemma case_option_Inr:
  "(case x of None \<Rightarrow> r | Some y \<Rightarrow> f y) = Inr z \<longleftrightarrow>
     (x = None \<and> r = Inr z) \<or> (\<exists>y. x = Some y \<and> f y = Inr z)"
  by (cases x) simp_all

lemma if_Inr: "(if c then r else s) = Inr z \<longleftrightarrow> (c \<and> r = Inr z) \<or> (\<not> c \<and> s = Inr z)"
  by simp

lemmas branch_Inr = case_option_Inr if_Inr

section \<open>Fallible loops\<close>

text \<open>\<open>?\<close> on a result: the error leaves the function, a value goes on.\<close>

definition bind_res :: "'a res \<Rightarrow> ('a \<Rightarrow> 'b res) \<Rightarrow> 'b res" where
  "bind_res r f = (case r of Inl e \<Rightarrow> Inl e | Inr x \<Rightarrow> f x)"

lemma bind_res_simps [simp]: "bind_res (Inl e) f = Inl e" "bind_res (Inr x) f = f x"
  by (simp_all add: bind_res_def)

lemma bind_res_Inr [simp]: "bind_res r f = Inr y \<longleftrightarrow> (\<exists>x. r = Inr x \<and> f x = Inr y)"
  by (cases r) simp_all

primrec fold_res :: "('a \<Rightarrow> 's \<Rightarrow> 's res) \<Rightarrow> 'a list \<Rightarrow> 's \<Rightarrow> 's res" where
  "fold_res f [] s = Inr s"
| "fold_res f (x # xs) s = (case f x s of Inl e \<Rightarrow> Inl e | Inr s' \<Rightarrow> fold_res f xs s')"

lemma fold_res_append:
  "fold_res f (xs @ ys) s =
     (case fold_res f xs s of Inl e \<Rightarrow> Inl e | Inr s' \<Rightarrow> fold_res f ys s')"
  by (induction xs arbitrary: s) (auto split: sum.splits)

lemma fold_res_invariant:
  assumes "fold_res f xs s = Inr s'" and "P s"
    and "\<And>x s s'. x \<in> set xs \<Longrightarrow> P s \<Longrightarrow> f x s = Inr s' \<Longrightarrow> P s'"
  shows "P s'"
  using assms
proof (induction xs arbitrary: s)
  case Nil
  then show ?case by simp
next
  case (Cons x xs)
  from Cons.prems(1) obtain t where t: "f x s = Inr t" "fold_res f xs t = Inr s'"
    by (auto split: sum.splits)
  from Cons.prems(2) t(1) have "P t" by (rule Cons.prems(3) [rotated]) simp
  from t(2) this show ?case
    by (rule Cons.IH) (rule Cons.prems(3), auto)
qed

lemma fold_res_no_fault:
  assumes "P s"
    and "\<And>x s. x \<in> set xs \<Longrightarrow> P s \<Longrightarrow> \<exists>s'. f x s = Inr s' \<and> P s'"
  shows "\<exists>s'. fold_res f xs s = Inr s' \<and> P s'"
  using assms
proof (induction xs arbitrary: s)
  case Nil
  then show ?case by simp
next
  case (Cons x xs)
  then obtain t where "f x s = Inr t" "P t" by force
  moreover have "\<exists>s'. fold_res f xs t = Inr s' \<and> P s'"
    using Cons.IH Cons.prems(2) \<open>P t\<close> by simp
  ultimately show ?case by simp
qed

text \<open>
  The loop that reads a page: the first
  \<open>offset\<close> rows are counted and skipped, and the loop stops once \<open>limit\<close> rows are out.
\<close>

fun page_loop :: "nat \<Rightarrow> nat \<Rightarrow> nat \<Rightarrow> 'a list \<Rightarrow> 'a list \<Rightarrow> 'a list" where
  "page_loop limit offset skipped out [] = out"
| "page_loop limit offset skipped out (x # xs) =
     (if skipped < offset then page_loop limit offset (Suc skipped) out xs
      else if limit \<le> length out then out
      else page_loop limit offset skipped (out @ [x]) xs)"

lemma page_loop_take_drop:
  assumes "skipped \<le> offset" and "length out \<le> limit"
  shows "page_loop limit offset skipped out xs =
    out @ take (limit - length out) (drop (offset - skipped) xs)"
  using assms
proof (induction limit offset skipped out xs rule: page_loop.induct)
  case (1 limit offset skipped out)
  then show ?case by simp
next
  case (2 limit offset skipped out x xs)
  show ?case
  proof (cases "skipped < offset")
    case True
    then obtain d where "offset - skipped = Suc d" "offset - Suc skipped = d"
      by (metis Suc_diff_Suc)
    with 2 True show ?thesis by simp
  next
    case False
    show ?thesis
    proof (cases "limit \<le> length out")
      case True
      with False show ?thesis by simp
    next
      case lim: False
      then obtain d where "limit - length out = Suc d" "limit - Suc (length out) = d"
        by (metis Suc_diff_Suc not_le)
      with 2 False lim show ?thesis by simp
    qed
  qed
qed

section \<open>Byte encodings of integers\<close>

text \<open>
  \<open>be_nat k x\<close> is the big-endian encoding of \<open>x\<close> in \<open>k\<close> bytes, as \<open>to_be_bytes\<close> of a
  \<open>8 * k\<close>-bit integer gives it, and \<open>nat_of_be\<close> reads one back.
\<close>

primrec be_nat :: "nat \<Rightarrow> nat \<Rightarrow> bytes" where
  "be_nat 0 x = []"
| "be_nat (Suc k) x = word_of_nat (x div 256 ^ k) # be_nat k x"

definition nat_of_be :: "bytes \<Rightarrow> nat" where
  "nat_of_be bs = foldl (\<lambda>a b. a * 256 + unat b) 0 bs"

lemma length_be_nat [simp]: "length (be_nat k x) = k"
  by (induction k) auto

lemma be_nat_mod: "be_nat k (x mod 256 ^ k) = be_nat k x"
proof -
  have "j \<le> k \<Longrightarrow> be_nat j (x mod 256 ^ k) = be_nat j x" for j
  proof (induction j)
    case 0
    then show ?case by simp
  next
    case (Suc j)
    have "(256::nat) ^ k = 256 ^ j * 256 ^ (k - j)"
      using Suc.prems by (simp flip: power_add)
    then have "x mod 256 ^ k div 256 ^ j = x div 256 ^ j mod 256 ^ (k - j)"
      by (simp add: mod_mult2_eq)
    moreover have "(256::nat) ^ (k - j) = 256 * 256 ^ (k - Suc j)"
      using Suc.prems by (simp flip: power_Suc add: Suc_diff_Suc)
    ultimately have "x mod 256 ^ k div 256 ^ j mod 256 = x div 256 ^ j mod 256"
      by (simp add: mod_mult2_eq)
    then have "(word_of_nat (x mod 256 ^ k div 256 ^ j) :: u8) = word_of_nat (x div 256 ^ j)"
      by (simp add: word_of_nat_eq_iff take_bit_eq_mod)
    with Suc show ?case by simp
  qed
  then show ?thesis by simp
qed

lemma foldl_be: "foldl (\<lambda>a b. a * 256 + unat b) a bs = a * 256 ^ length bs + nat_of_be bs"
  for bs :: bytes
  unfolding nat_of_be_def
proof (induction bs arbitrary: a)
  case Nil
  then show ?case by simp
next
  case (Cons b bs)
  show ?case
    using Cons [of "a * 256 + unat b"] Cons [of "unat b"] by (simp add: algebra_simps)
qed

lemma nat_of_be_Nil [simp]: "nat_of_be [] = 0"
  by (simp add: nat_of_be_def)

lemma nat_of_be_Cons [simp]: "nat_of_be (b # bs) = unat b * 256 ^ length bs + nat_of_be bs"
  using foldl_be [of "unat b" bs] by (simp add: nat_of_be_def [of "b # bs"])

lemma nat_of_be_bound: "nat_of_be bs < 256 ^ length bs"
proof (induction bs)
  case Nil
  then show ?case by simp
next
  case (Cons b bs)
  have "unat b + 1 \<le> 256" using unsigned_less [of b, where ?'a = nat] by simp
  then have "(unat b + 1) * 256 ^ length bs \<le> 256 * 256 ^ length bs" by (rule mult_le_mono1)
  then have "unat b * 256 ^ length bs + 256 ^ length bs \<le> 256 ^ length (b # bs)"
    unfolding add_mult_distrib by simp
  with Cons show ?case unfolding nat_of_be_Cons by linarith
qed

lemma nat_of_be_be_nat [simp]: "nat_of_be (be_nat k x) = x mod 256 ^ k"
proof (induction k)
  case 0
  then show ?case by simp
next
  case (Suc k)
  have "x mod 256 ^ Suc k = x div 256 ^ k mod 256 * 256 ^ k + x mod 256 ^ k"
    using mod_mult2_eq [of x "256 ^ k" 256] by (simp add: mult.commute)
  then show ?case
    using Suc by (simp add: unat_of_nat take_bit_eq_mod)
qed

lemma be_nat_inject:
  assumes "be_nat k x = be_nat k y" "x < 256 ^ k" "y < 256 ^ k"
  shows "x = y"
proof -
  have "nat_of_be (be_nat k x) = nat_of_be (be_nat k y)" using assms(1) by simp
  with assms(2,3) show ?thesis by simp
qed

lemma nat_of_be_less:
  assumes "length xs = length ys"
  shows "xs < ys \<longleftrightarrow> nat_of_be xs < nat_of_be ys"
  using assms
proof (induction xs ys rule: list_induct2)
  case Nil
  then show ?case by simp
next
  case (Cons x xs y ys)
  let ?p = "256 ^ length xs :: nat"
  have bx: "nat_of_be xs < ?p" and by': "nat_of_be ys < ?p"
    using nat_of_be_bound [of xs] nat_of_be_bound [of ys] Cons.hyps by simp_all
  have step: "a * ?p + nat_of_be us < b * ?p + nat_of_be vs"
    if "a < b" "nat_of_be us < ?p" for a b :: nat and us vs
  proof -
    have "(a + 1) * ?p \<le> b * ?p" using that(1) by (intro mult_le_mono1) simp
    with that(2) show ?thesis by simp
  qed
  show ?case
  proof (cases "unat x" "unat y" rule: linorder_cases)
    case less
    then show ?thesis using Cons.hyps step [OF less bx] by (simp add: word_less_nat_alt)
  next
    case equal
    then have "x = y" by (rule unsigned_word_eqI)
    then show ?thesis using Cons by simp
  next
    case greater
    then show ?thesis
      using Cons.hyps step [OF greater by', of xs] by (auto simp: word_less_nat_alt)
  qed
qed

lemma be_nat_less:
  assumes "x < 256 ^ k" "y < 256 ^ k"
  shows "be_nat k x < be_nat k y \<longleftrightarrow> x < y"
  using nat_of_be_less [of "be_nat k x" "be_nat k y"] assms by simp

definition be64 :: "u64 \<Rightarrow> bytes" where
  "be64 w = be_nat 8 (unat w)"

definition be32 :: "u32 \<Rightarrow> bytes" where
  "be32 w = be_nat 4 (unat w)"

definition u64_of_be :: "bytes \<Rightarrow> u64" where
  "u64_of_be bs = word_of_nat (nat_of_be bs)"

definition le32 :: "u32 \<Rightarrow> bytes" where
  "le32 w = rev (be_nat 4 (unat w))"

definition le64 :: "u64 \<Rightarrow> bytes" where
  "le64 w = rev (be_nat 8 (unat w))"

definition u32_of_le :: "bytes \<Rightarrow> u32" where
  "u32_of_le bs = word_of_nat (nat_of_be (rev bs))"

definition u64_of_le :: "bytes \<Rightarrow> u64" where
  "u64_of_le bs = word_of_nat (nat_of_be (rev bs))"

lemma u64_bound: "unat (w :: u64) < 256 ^ 8"
  using unsigned_less [of w, where ?'a = nat] by simp

lemma u32_bound: "unat (w :: u32) < 256 ^ 4"
  using unsigned_less [of w, where ?'a = nat] by simp

lemma length_be64 [simp]: "length (be64 w) = 8"
  by (simp add: be64_def)

lemma length_be32 [simp]: "length (be32 w) = 4"
  by (simp add: be32_def)

lemma length_le32 [simp]: "length (le32 w) = 4"
  by (simp add: le32_def)

lemma length_le64 [simp]: "length (le64 w) = 8"
  by (simp add: le64_def)

lemma be64_inject [simp]: "be64 v = be64 w \<longleftrightarrow> v = w"
  using be_nat_inject [OF _ u64_bound u64_bound] by (auto simp: be64_def intro: unsigned_word_eqI)

lemma be32_inject [simp]: "be32 v = be32 w \<longleftrightarrow> v = w"
  using be_nat_inject [OF _ u32_bound u32_bound] by (auto simp: be32_def intro: unsigned_word_eqI)

lemma be64_less [simp]: "be64 v < be64 w \<longleftrightarrow> v < w"
  unfolding be64_def word_less_nat_alt by (rule be_nat_less [OF u64_bound u64_bound])

lemma u64_of_be_be64 [simp]: "u64_of_be (be64 w) = w"
  using u64_bound [of w] by (simp add: u64_of_be_def be64_def)

lemma u32_of_le_le32 [simp]: "u32_of_le (le32 w) = w"
  using u32_bound [of w] by (simp add: u32_of_le_def le32_def)

lemma u64_of_le_le64 [simp]: "u64_of_le (le64 w) = w"
  using u64_bound [of w] by (simp add: u64_of_le_def le64_def)

section \<open>Systems that keep an invariant\<close>

text \<open>
  A component whose operations are steps on its state: what holds at the start and is kept
  by every step holds in every state a sequence of operations reaches.
\<close>

locale invariant_system =
  fixes init :: "'s \<Rightarrow> bool"
    and step :: "'s \<Rightarrow> 's \<Rightarrow> bool"
    and inv :: "'s \<Rightarrow> bool"
  assumes init_inv: "init s \<Longrightarrow> inv s"
    and step_inv: "inv s \<Longrightarrow> step s s' \<Longrightarrow> inv s'"
begin

lemma reach_inv: "step\<^sup>*\<^sup>* s s' \<Longrightarrow> init s \<Longrightarrow> inv s'"
  by (induction rule: rtranclp_induct) (auto intro: init_inv step_inv)

end

section \<open>Functional refinement\<close>

text \<open>A sequence of operations each of which is admissible where it runs.\<close>

fun admissible :: "('o \<Rightarrow> 's \<Rightarrow> bool) \<Rightarrow> ('o \<Rightarrow> 's \<Rightarrow> 's) \<Rightarrow> 'o list \<Rightarrow> 's \<Rightarrow> bool" where
  "admissible pre step [] s = True"
| "admissible pre step (a # acts) s = (pre a s \<and> admissible pre step acts (step a s))"

text \<open>
  An abstraction that commutes with every operation commutes with every sequence of
  operations: the detailed component does what its specification does.
\<close>

locale functional_refinement =
  fixes step :: "'o \<Rightarrow> 's \<Rightarrow> 's"
    and spec :: "'o \<Rightarrow> 'a \<Rightarrow> 'a"
    and view :: "'s \<Rightarrow> 'a"
    and ok :: "'s \<Rightarrow> bool"
    and pre :: "'o \<Rightarrow> 's \<Rightarrow> bool"
  assumes step_ok: "ok s \<Longrightarrow> pre a s \<Longrightarrow> ok (step a s)"
    and step_view: "ok s \<Longrightarrow> pre a s \<Longrightarrow> view (step a s) = spec a (view s)"
begin

lemma run_refines:
  "ok s \<Longrightarrow> admissible pre step acts s \<Longrightarrow>
     ok (fold step acts s) \<and> view (fold step acts s) = fold spec acts (view s)"
  by (induction acts arbitrary: s) (simp_all add: step_ok step_view)

end

end
