(* ===== verification/Tables.thy ===== *)
theory Tables
  imports Prelude
begin

text \<open>
  The tables of the index database. A redb table is an ordered map; the model keeps it as
  an association list in ascending key order, which is what a scan of the table visits.
  The locale \<open>ordered_table\<close> is the contract the store relies on, and the
  association lists are shown to meet it.
\<close>

section \<open>Tables as sorted association lists\<close>

type_synonym ('k, 'v) tab = "('k \<times> 'v) list"

definition tab_get :: "('k, 'v) tab \<Rightarrow> 'k \<Rightarrow> 'v option" where
  "tab_get t k = map_of t k"

fun tab_insert :: "'k::linorder \<Rightarrow> 'v \<Rightarrow> ('k, 'v) tab \<Rightarrow> ('k, 'v) tab" where
  "tab_insert k v [] = [(k, v)]"
| "tab_insert k v ((k', v') # t) =
     (if k < k' then (k, v) # (k', v') # t
      else if k = k' then (k, v) # t
      else (k', v') # tab_insert k v t)"

definition tab_remove :: "'k \<Rightarrow> ('k, 'v) tab \<Rightarrow> ('k, 'v) tab" where
  "tab_remove k t = filter (\<lambda>p. fst p \<noteq> k) t"

definition tab_range :: "'k::linorder \<Rightarrow> 'k \<Rightarrow> ('k, 'v) tab \<Rightarrow> ('k, 'v) tab" where
  "tab_range lo hi t = filter (\<lambda>p. lo \<le> fst p \<and> fst p \<le> hi) t"

definition tab_ok :: "('k::linorder, 'v) tab \<Rightarrow> bool" where
  "tab_ok t = sorted_wrt (<) (map fst t)"

section \<open>The contract of a table\<close>

locale ordered_table =
  fixes empty :: "'t"
    and get :: "'t \<Rightarrow> 'k::linorder \<Rightarrow> 'v option"
    and put :: "'k \<Rightarrow> 'v \<Rightarrow> 't \<Rightarrow> 't"
    and del :: "'k \<Rightarrow> 't \<Rightarrow> 't"
    and scan :: "'t \<Rightarrow> ('k \<times> 'v) list"
    and ok :: "'t \<Rightarrow> bool"
  assumes get_empty: "get empty k = None"
    and get_put: "get (put k v t) k' = (if k' = k then Some v else get t k')"
    and get_del: "get (del k t) k' = (if k' = k then None else get t k')"
    and scan_sorted: "ok t \<Longrightarrow> sorted_wrt (<) (map fst (scan t))"
    and scan_get: "ok t \<Longrightarrow> (k, v) \<in> set (scan t) \<longleftrightarrow> get t k = Some v"
    and scan_inj: "ok t \<Longrightarrow> ok u \<Longrightarrow> scan t = scan u \<Longrightarrow> t = u"
    and ok_empty: "ok empty"
    and ok_put: "ok t \<Longrightarrow> ok (put k v t)"
    and ok_del: "ok t \<Longrightarrow> ok (del k t)"
begin

lemma strict_sorted_unique:
  assumes "sorted_wrt (<) (map fst xs)" "sorted_wrt (<) (map fst ys)" "set xs = set ys"
  shows "xs = (ys :: ('k \<times> 'v) list)"
proof (rule map_sorted_distinct_set_unique [where f = fst])
  show "inj_on fst (set xs \<union> set ys)"
    using assms by (simp add: strict_sorted_iff distinct_map)
qed (use assms in \<open>simp_all add: strict_sorted_iff\<close>)

text \<open>Two tables with the same contents are the same table: a scan determines it.\<close>

lemma get_ext:
  assumes "ok t" "ok u" "\<And>k. get t k = get u k"
  shows "t = u"
proof -
  have "set (scan t) = set (scan u)"
    using assms by (auto simp: scan_get)
  with scan_sorted [OF assms(1)] scan_sorted [OF assms(2)] have "scan t = scan u"
    by (rule strict_sorted_unique)
  with assms(1,2) show ?thesis by (rule scan_inj)
qed

lemma put_same:
  assumes "ok t" "get t k = Some v"
  shows "put k v t = t"
  using assms by (intro get_ext) (auto simp: ok_put get_put)

lemma del_absent:
  assumes "ok t" "get t k = None"
  shows "del k t = t"
  using assms by (intro get_ext) (auto simp: ok_del get_del)

lemma del_put:
  assumes "ok t" "get t k = None"
  shows "del k (put k v t) = t"
  using assms by (intro get_ext) (auto simp: ok_del ok_put get_del get_put)

lemma scan_distinct: "ok t \<Longrightarrow> distinct (map fst (scan t))"
  using scan_sorted by (auto simp: strict_sorted_iff)

end

section \<open>The association lists meet it\<close>

lemma tab_get_Nil [simp]: "tab_get [] k = None"
  by (simp add: tab_get_def)

lemma tab_get_insert [simp]:
  "tab_get (tab_insert k v t) k' = (if k' = k then Some v else tab_get t k')"
  unfolding tab_get_def by (induction k v t rule: tab_insert.induct) auto

lemma tab_get_remove [simp]:
  "tab_get (tab_remove k t) k' = (if k' = k then None else tab_get t k')"
  unfolding tab_get_def tab_remove_def by (induction t) auto

lemma set_tab_insert:
  "fst ` set (tab_insert k v t) = insert k (fst ` set t)"
  by (induction k v t rule: tab_insert.induct) auto

lemma tab_ok_Nil [simp]: "tab_ok []"
  by (simp add: tab_ok_def)

lemma tab_ok_insert [simp]: "tab_ok t \<Longrightarrow> tab_ok (tab_insert k v t)"
proof (induction k v t rule: tab_insert.induct)
  case (1 k v)
  then show ?case by (simp add: tab_ok_def)
next
  case (2 k v k' v' t)
  from "2.prems" have t: "tab_ok t" and below: "\<forall>x\<in>fst ` set t. k' < x"
    by (auto simp: tab_ok_def)
  show ?case
  proof (cases k k' rule: linorder_cases)
    case less
    then show ?thesis using "2.prems" by (auto simp: tab_ok_def)
  next
    case equal
    then show ?thesis using "2.prems" by (simp add: tab_ok_def)
  next
    case greater
    then have "tab_ok (tab_insert k v t)" using "2.IH" t by simp
    moreover have "\<forall>x\<in>fst ` set (tab_insert k v t). k' < x"
      using greater below by (simp add: set_tab_insert)
    ultimately show ?thesis using greater by (auto simp: tab_ok_def)
  qed
qed

lemma tab_ok_filter: "tab_ok t \<Longrightarrow> tab_ok (filter P t)"
  by (induction t) (auto simp: tab_ok_def)

lemma tab_ok_remove [simp]: "tab_ok t \<Longrightarrow> tab_ok (tab_remove k t)"
  by (simp add: tab_remove_def tab_ok_filter)

lemma tab_ok_range [simp]: "tab_ok t \<Longrightarrow> tab_ok (tab_range lo hi t)"
  by (simp add: tab_range_def tab_ok_filter)

lemma tab_ok_distinct: "tab_ok t \<Longrightarrow> distinct (map fst t)"
  by (simp add: tab_ok_def strict_sorted_iff)

lemma tab_get_set: "tab_ok t \<Longrightarrow> (k, v) \<in> set t \<longleftrightarrow> tab_get t k = Some v"
  by (simp add: tab_get_def tab_ok_distinct)

lemma tab_get_in_set: "tab_get t k = Some v \<Longrightarrow> (k, v) \<in> set t"
  by (simp add: tab_get_def map_of_SomeD)

interpretation redb: ordered_table "[]" tab_get tab_insert tab_remove "\<lambda>t. t" tab_ok
  by unfold_locales (auto simp: tab_get_set, auto simp: tab_ok_def)

lemmas tab_insert_same = redb.put_same
lemmas tab_remove_absent [simp] = redb.del_absent
lemmas tab_remove_insert = redb.del_put
lemmas tab_ext = redb.get_ext

section \<open>Removing many keys\<close>

definition tab_remove_all :: "'k list \<Rightarrow> ('k, 'v) tab \<Rightarrow> ('k, 'v) tab" where
  "tab_remove_all ks t = fold tab_remove ks t"

lemma tab_remove_all_Nil [simp]: "tab_remove_all [] t = t"
  by (simp add: tab_remove_all_def)

lemma tab_remove_all_Cons [simp]:
  "tab_remove_all (k # ks) t = tab_remove_all ks (tab_remove k t)"
  by (simp add: tab_remove_all_def)

lemma tab_get_remove_all [simp]:
  "tab_get (tab_remove_all ks t) k = (if k \<in> set ks then None else tab_get t k)"
  by (induction ks arbitrary: t) auto

lemma tab_ok_remove_all [simp]: "tab_ok t \<Longrightarrow> tab_ok (tab_remove_all ks t)"
  by (induction ks arbitrary: t) auto

lemma tab_remove_all_filter:
  "tab_remove_all ks t = filter (\<lambda>p. fst p \<notin> set ks) t"
  by (induction ks arbitrary: t) (auto simp: tab_remove_def conj_commute)

lemma tab_remove_all_append:
  "tab_remove_all (ks @ ls) t = tab_remove_all ls (tab_remove_all ks t)"
  by (simp add: tab_remove_all_def)

section \<open>Sweeping a table\<close>

text \<open>
  A sweep collects the keys of the rows that satisfy a condition and then deletes them:
  what is left are exactly the other rows.
\<close>

definition tab_sweep :: "('k \<Rightarrow> 'v \<Rightarrow> bool) \<Rightarrow> ('k, 'v) tab \<Rightarrow> ('k, 'v) tab" where
  "tab_sweep P t = tab_remove_all (map fst (filter (\<lambda>(k, v). P k v) t)) t"

lemma tab_get_sweep:
  assumes "tab_ok t"
  shows "tab_get (tab_sweep P t) k =
    (case tab_get t k of None \<Rightarrow> None | Some v \<Rightarrow> if P k v then None else Some v)"
proof (cases "tab_get t k")
  case None
  then show ?thesis by (simp add: tab_sweep_def)
next
  case (Some v)
  then have "(k, u) \<in> set t \<longleftrightarrow> u = v" for u
    using assms by (auto simp: tab_get_set)
  then have "k \<in> set (map fst (filter (\<lambda>(k, v). P k v) t)) \<longleftrightarrow> P k v"
    by force
  with Some show ?thesis by (simp add: tab_sweep_def)
qed

lemma tab_ok_sweep [simp]: "tab_ok t \<Longrightarrow> tab_ok (tab_sweep P t)"
  by (simp add: tab_sweep_def)

section \<open>Inserting and removing along a list\<close>

lemma tab_get_fold_const [simp]:
  "tab_get (fold (\<lambda>x. tab_insert (f x) v) xs t) k = (if k \<in> f ` set xs then Some v else tab_get t k)"
  by (induction xs arbitrary: t) auto

lemma tab_get_fold_other:
  "k \<notin> f ` set xs \<Longrightarrow> tab_get (fold (\<lambda>x. tab_insert (f x) (g x)) xs t) k = tab_get t k"
  by (induction xs arbitrary: t) auto

lemma tab_get_fold_in:
  "distinct (map f xs) \<Longrightarrow> x \<in> set xs \<Longrightarrow>
     tab_get (fold (\<lambda>x. tab_insert (f x) (g x)) xs t) (f x) = Some (g x)"
proof (induction xs arbitrary: t)
  case (Cons y xs)
  then show ?case by (cases "x = y") (auto simp: tab_get_fold_other)
qed simp

lemma tab_get_fold_remove [simp]:
  "tab_get (fold (\<lambda>x. tab_remove (f x)) xs t) k = (if k \<in> f ` set xs then None else tab_get t k)"
  by (induction xs arbitrary: t) auto

lemma tab_ok_fold_insert [simp]: "tab_ok t \<Longrightarrow> tab_ok (fold (\<lambda>x. tab_insert (f x) (g x)) xs t)"
  by (induction xs arbitrary: t) auto

lemma tab_ok_fold_remove [simp]: "tab_ok t \<Longrightarrow> tab_ok (fold (\<lambda>x. tab_remove (f x)) xs t)"
  by (induction xs arbitrary: t) auto

section \<open>Counting rows\<close>

lemma tab_insert_fresh_length:
  "tab_get t k = None \<Longrightarrow>
     length (filter P (tab_insert k v t)) = length (filter P t) + (if P (k, v) then 1 else 0)"
  unfolding tab_get_def by (induction k v t rule: tab_insert.induct) (auto split: if_splits)

lemma tab_remove_length:
  assumes "tab_ok t" "tab_get t k = Some v"
  shows "length (filter P t) = length (filter P (tab_remove k t)) + (if P (k, v) then 1 else 0)"
  using assms(2) tab_ok_distinct [OF assms(1)]
proof (induction t)
  case Nil
  then show ?case by simp
next
  case (Cons p t)
  show ?case
  proof (cases "fst p = k")
    case True
    then have "p = (k, v)" "tab_remove k t = t"
      using Cons.prems by (auto simp: tab_get_def tab_remove_def filter_id_conv image_iff)
    then show ?thesis by (simp add: tab_remove_def)
  next
    case False
    then have "tab_get t k = Some v" "distinct (map fst t)"
      using Cons.prems by (cases p, simp_all add: tab_get_def)
    then show ?thesis using Cons.IH False by (auto simp: tab_remove_def)
  qed
qed

end
