(* ===== verification/RustText.thy ===== *)
theory RustText
  imports Tables
begin

text \<open>
  The parts of Rust's string library the sources use. A Rust \<open>String\<close> is a sequence of
  UTF-8 bytes; a HOL \<open>char\<close> is one byte, so a \<open>string\<close> holds exactly the bytes
  and \<open>length\<close> is \<open>str::len\<close>. The two hexadecimal codecs of the repository
  (\<open>to_hex\<close> and \<open>from_hex\<close> in \<open>inference.rs\<close>, \<open>hex_to_bytes\<close> in
  \<open>address.rs\<close>) are at the end.
\<close>

section \<open>Strings and bytes\<close>

definition u8_of_char :: "char \<Rightarrow> u8" where
  "u8_of_char c = word_of_nat (of_char c)"

definition char_of_u8 :: "u8 \<Rightarrow> char" where
  "char_of_u8 b = char_of (unat b)"

definition as_bytes :: "string \<Rightarrow> bytes" where
  "as_bytes s = map u8_of_char s"

definition string_of_bytes :: "bytes \<Rightarrow> string" where
  "string_of_bytes bs = map char_of_u8 bs"

lemma char_of_u8_of_char [simp]: "char_of_u8 (u8_of_char c) = c"
proof -
  have "(of_char c :: nat) < 256" by (rule nat_of_char_less_256)
  then show ?thesis by (simp add: char_of_u8_def u8_of_char_def unat_of_nat take_bit_eq_mod)
qed

lemma u8_of_char_of_u8 [simp]: "u8_of_char (char_of_u8 b) = b"
  using unsigned_less [of b, where ?'a = nat] by (simp add: char_of_u8_def u8_of_char_def)

lemma u8_of_char_inject [simp]: "u8_of_char c = u8_of_char d \<longleftrightarrow> c = d"
  by (metis char_of_u8_of_char)

lemma length_as_bytes [simp]: "length (as_bytes s) = length s"
  by (simp add: as_bytes_def)

lemma length_string_of_bytes [simp]: "length (string_of_bytes bs) = length bs"
  by (simp add: string_of_bytes_def)

lemma string_of_as_bytes [simp]: "string_of_bytes (as_bytes s) = s"
  by (simp add: string_of_bytes_def as_bytes_def o_def)

lemma as_bytes_string_of [simp]: "as_bytes (string_of_bytes bs) = bs"
  by (simp add: string_of_bytes_def as_bytes_def o_def)

lemma as_bytes_inject [simp]: "as_bytes s = as_bytes t \<longleftrightarrow> s = t"
  by (metis string_of_as_bytes)

lemma as_bytes_append [simp]: "as_bytes (s @ t) = as_bytes s @ as_bytes t"
  by (simp add: as_bytes_def)

lemma as_bytes_Nil [simp]: "as_bytes [] = []"
  by (simp add: as_bytes_def)

lemma as_bytes_Cons [simp]: "as_bytes (c # s) = u8_of_char c # as_bytes s"
  by (simp add: as_bytes_def)

section \<open>UTF-8\<close>

text \<open>
  \<open>utf8_head\<close> looks at the front of a byte sequence: whether a well-formed character
  starts there, and how many bytes belong to it, or to the ill-formed piece that is
  replaced as one unit (the maximal prefix of a character). Reading past the end gives 0,
  which continues no character. \<open>from_utf8_lossy\<close> replaces each ill-formed piece by
  U+FFFD.
\<close>

definition byte_at :: "bytes \<Rightarrow> nat \<Rightarrow> u8" where
  "byte_at bs i = (if i < length bs then bs ! i else 0)"

definition is_cont :: "u8 \<Rightarrow> bool" where
  "is_cont b = (0x80 \<le> b \<and> b \<le> 0xBF)"

definition second_of_3 :: "u8 \<Rightarrow> u8 \<Rightarrow> bool" where
  "second_of_3 b c =
     (if b = 0xE0 then 0xA0 \<le> c \<and> c \<le> 0xBF
      else if b = 0xED then 0x80 \<le> c \<and> c \<le> 0x9F
      else is_cont c)"

definition second_of_4 :: "u8 \<Rightarrow> u8 \<Rightarrow> bool" where
  "second_of_4 b c =
     (if b = 0xF0 then 0x90 \<le> c \<and> c \<le> 0xBF
      else if b = 0xF4 then 0x80 \<le> c \<and> c \<le> 0x8F
      else is_cont c)"

definition utf8_head :: "u8 \<Rightarrow> bytes \<Rightarrow> bool \<times> nat" where
  "utf8_head b bs =
     (if b < 0x80 then (True, 1)
      else if 0xC2 \<le> b \<and> b \<le> 0xDF then
        (if is_cont (byte_at bs 0) then (True, 2) else (False, 1))
      else if 0xE0 \<le> b \<and> b \<le> 0xEF then
        (if second_of_3 b (byte_at bs 0)
         then (if is_cont (byte_at bs 1) then (True, 3) else (False, 2))
         else (False, 1))
      else if 0xF0 \<le> b \<and> b \<le> 0xF4 then
        (if second_of_4 b (byte_at bs 0)
         then (if is_cont (byte_at bs 1)
               then (if is_cont (byte_at bs 2) then (True, 4) else (False, 3))
               else (False, 2))
         else (False, 1))
      else (False, 1))"

function utf8_valid :: "bytes \<Rightarrow> bool" where
  "utf8_valid [] = True"
| "utf8_valid (b # bs) =
     (fst (utf8_head b bs) \<and> utf8_valid (drop (snd (utf8_head b bs) - 1) bs))"
  by pat_completeness auto
termination
  by (relation "measure length") auto

function lossy :: "bytes \<Rightarrow> bytes" where
  "lossy [] = []"
| "lossy (b # bs) =
     (let (good, n) = utf8_head b bs; rest = lossy (drop (n - 1) bs)
      in if good then take n (b # bs) @ rest else [0xEF, 0xBF, 0xBD] @ rest)"
  by pat_completeness auto
termination
  by (relation "measure length") auto

definition from_utf8_lossy :: "bytes \<Rightarrow> string" where
  "from_utf8_lossy bs = string_of_bytes (lossy bs)"

definition from_utf8 :: "bytes \<Rightarrow> string option" where
  "from_utf8 bs = (if utf8_valid bs then Some (string_of_bytes bs) else None)"

lemma utf8_head_pos: "0 < snd (utf8_head b bs)"
  by (simp add: utf8_head_def)

lemma lossy_valid: "utf8_valid bs \<Longrightarrow> lossy bs = bs"
proof (induction bs rule: lossy.induct)
  case 1
  then show ?case by simp
next
  case (2 b bs)
  obtain g n where h: "utf8_head b bs = (g, n)" by force
  with utf8_head_pos [of b bs] obtain m where n: "n = Suc m" by (cases n) auto
  from 2 h n show ?case by simp
qed

text \<open>No byte of a well-formed sequence is \<open>0xFF\<close>: the separator of the composite keys.\<close>

lemma is_cont_not_FF: "is_cont b \<Longrightarrow> b \<noteq> 0xFF"
  by (auto simp: is_cont_def)

lemma utf8_head_good_no_FF:
  assumes "fst (utf8_head b bs)"
  shows "0xFF \<notin> set (take (snd (utf8_head b bs)) (b # bs))"
proof -
  have sub: "set (take n bs) \<subseteq> byte_at bs ` {..<n}" for n
    by (auto simp: set_conv_nth byte_at_def)
  have FF: "\<not> second_of_3 x 0xFF" "\<not> second_of_4 x 0xFF" "\<not> is_cont 0xFF" for x
    by (auto simp: second_of_3_def second_of_4_def is_cont_def)
  have b: "b \<noteq> 0xFF" using assms by (auto simp: utf8_head_def)
  have "c \<noteq> 0xFF" if "c \<in> byte_at bs ` {..< snd (utf8_head b bs) - 1}" for c
    using that assms
    by (auto simp: utf8_head_def FF lessThan_Suc numeral_eq_Suc split: if_splits)
  with b sub [of "snd (utf8_head b bs) - 1"] utf8_head_pos [of b bs] show ?thesis
    by (cases "snd (utf8_head b bs)") auto
qed

lemma utf8_no_FF: "utf8_valid bs \<Longrightarrow> 0xFF \<notin> set bs"
proof (induction bs rule: utf8_valid.induct)
  case 1
  then show ?case by simp
next
  case (2 b bs)
  let ?n = "snd (utf8_head b bs)"
  from "2.prems" have "0xFF \<notin> set (take ?n (b # bs))"
    by (intro utf8_head_good_no_FF) simp
  moreover have "0xFF \<notin> set (drop (?n - 1) bs)"
    using 2 by simp
  moreover have "b # bs = take ?n (b # bs) @ drop (?n - 1) bs"
    using utf8_head_pos [of b bs] by (cases ?n) auto
  ultimately show ?case by (metis Un_iff set_append)
qed

lemma utf8_valid_ascii: "\<forall>b\<in>set bs. b < 0x80 \<Longrightarrow> utf8_valid bs"
  by (induction bs) (auto simp: utf8_head_def)

section \<open>ASCII helpers\<close>

definition to_ascii_lowercase :: "string \<Rightarrow> string" where
  "to_ascii_lowercase s =
     map (\<lambda>c. if CHR ''A'' \<le> c \<and> c \<le> CHR ''Z'' then char_of (of_char c + 32 :: nat) else c) s"

definition eq_ignore_ascii_case :: "string \<Rightarrow> string \<Rightarrow> bool" where
  "eq_ignore_ascii_case s t = (to_ascii_lowercase s = to_ascii_lowercase t)"

definition is_ascii_digit :: "char \<Rightarrow> bool" where
  "is_ascii_digit c = (CHR ''0'' \<le> c \<and> c \<le> CHR ''9'')"

definition is_ascii_hexdigit :: "char \<Rightarrow> bool" where
  "is_ascii_hexdigit c =
     (is_ascii_digit c \<or> (CHR ''a'' \<le> c \<and> c \<le> CHR ''f'') \<or> (CHR ''A'' \<le> c \<and> c \<le> CHR ''F''))"

lemma length_to_ascii_lowercase [simp]: "length (to_ascii_lowercase s) = length s"
  by (simp add: to_ascii_lowercase_def)

section \<open>Searching, splitting, trimming\<close>

fun find_sub :: "'a list \<Rightarrow> 'a list \<Rightarrow> nat option" where
  "find_sub [] needle = (if needle = [] then Some 0 else None)"
| "find_sub (x # xs) needle =
     (if take (length needle) (x # xs) = needle then Some 0
      else map_option Suc (find_sub xs needle))"

definition contains_str :: "string \<Rightarrow> string \<Rightarrow> bool" where
  "contains_str s needle = (find_sub s needle \<noteq> None)"

lemma find_sub_Some:
  "find_sub xs needle = Some i \<Longrightarrow>
     take (length needle) (drop i xs) = needle \<and> i + length needle \<le> length xs"
proof (induction xs needle arbitrary: i rule: find_sub.induct)
  case (1 needle)
  then show ?case by (auto split: if_splits)
next
  case (2 x xs needle)
  show ?case
  proof (cases "take (length needle) (x # xs) = needle")
    case True
    then have "length needle \<le> length (x # xs)"
      by (metis length_take min.cobounded1 min_def)
    with True 2 show ?thesis by simp
  next
    case False
    with 2 show ?thesis by auto
  qed
qed

fun split_on :: "char \<Rightarrow> string \<Rightarrow> string list" where
  "split_on sep [] = [[]]"
| "split_on sep (c # s) =
     (if c = sep then [] # split_on sep s
      else (case split_on sep s of [] \<Rightarrow> [[c]] | w # ws \<Rightarrow> (c # w) # ws))"

fun split_once :: "char \<Rightarrow> string \<Rightarrow> (string \<times> string) option" where
  "split_once sep [] = None"
| "split_once sep (c # s) =
     (if c = sep then Some ([], s)
      else map_option (\<lambda>(a, b). (c # a, b)) (split_once sep s))"

lemma split_once_Some:
  "split_once sep s = Some (a, b) \<Longrightarrow> s = a @ sep # b \<and> sep \<notin> set a"
  by (induction s arbitrary: a b) (auto split: if_splits)

lemma split_once_None: "split_once sep s = None \<longleftrightarrow> sep \<notin> set s"
  by (induction s) auto

text \<open>\<open>str::trim\<close> removes Unicode white space: the encodings of those characters.\<close>

definition white_space :: "string list" where
  "white_space =
     [[CHR 0x09], [CHR 0x0A], [CHR 0x0B], [CHR 0x0C], [CHR 0x0D], [CHR 0x20],
      [CHR 0xC2, CHR 0x85], [CHR 0xC2, CHR 0xA0], [CHR 0xE1, CHR 0x9A, CHR 0x80]]
     @ map (\<lambda>n. [CHR 0xE2, CHR 0x80, char_of (0x80 + n :: nat)]) [0..<11]
     @ [[CHR 0xE2, CHR 0x80, CHR 0xA8], [CHR 0xE2, CHR 0x80, CHR 0xA9],
        [CHR 0xE2, CHR 0x80, CHR 0xAF], [CHR 0xE2, CHR 0x81, CHR 0x9F],
        [CHR 0xE3, CHR 0x80, CHR 0x80]]"

function strip_front :: "string list \<Rightarrow> string \<Rightarrow> string" where
  "strip_front ws s =
     (case find (\<lambda>w. w \<noteq> [] \<and> take (length w) s = w) ws of
        None \<Rightarrow> s | Some w \<Rightarrow> strip_front ws (drop (length w) s))"
  by pat_completeness auto
termination
proof (relation "measure (\<lambda>(ws, s). length s)")
  fix ws s w
  assume "find (\<lambda>w. w \<noteq> [] \<and> take (length w) s = w) ws = Some w"
  then have "w \<noteq> []" "take (length w) s = w" by (auto simp: find_Some_iff)
  then have "0 < length w" "length s \<noteq> 0" by auto
  then show "((ws, drop (length w) s), ws, s) \<in> measure (\<lambda>(ws, s). length s)" by simp
qed simp

declare strip_front.simps [simp del]

definition trim :: "string \<Rightarrow> string" where
  "trim s = rev (strip_front (map rev white_space) (rev (strip_front white_space s)))"

section \<open>Decimal numbers\<close>

definition digit_val :: "char \<Rightarrow> nat" where
  "digit_val c = of_char c - 48"

definition nat_of_digits :: "string \<Rightarrow> nat" where
  "nat_of_digits s = foldl (\<lambda>a c. 10 * a + digit_val c) 0 s"

text \<open>\<open>str::parse::<u64>\<close>: an optional plus sign, then digits only, within 64 bits.\<close>

definition parse_u64 :: "string \<Rightarrow> u64 option" where
  "parse_u64 s =
     (let ds = (case s of [] \<Rightarrow> [] | c # r \<Rightarrow> if c = CHR ''+'' then r else s)
      in if ds \<noteq> [] \<and> list_all is_ascii_digit ds \<and> nat_of_digits ds < 2 ^ 64
         then Some (word_of_nat (nat_of_digits ds)) else None)"

section \<open>Hexadecimal\<close>

definition hex_digit :: "nat \<Rightarrow> char" where
  "hex_digit n = (''0123456789abcdef'' ! n)"

definition to_hex :: "bytes \<Rightarrow> string" where
  "to_hex bs = concat (map (\<lambda>b. [hex_digit (unat b div 16), hex_digit (unat b mod 16)]) bs)"

definition hex_val :: "char \<Rightarrow> nat option" where
  "hex_val c =
     (if is_ascii_digit c then Some (of_char c - 48)
      else if CHR ''a'' \<le> c \<and> c \<le> CHR ''f'' then Some (of_char c - 87)
      else if CHR ''A'' \<le> c \<and> c \<le> CHR ''F'' then Some (of_char c - 55)
      else None)"

text \<open>
  \<open>u8::from_str_radix(_, 16)\<close> on a two-byte slice. Like every \<open>from_str_radix\<close> it
  takes a leading plus sign, so \<open>+f\<close> reads as 15.
\<close>

definition parse_hex2 :: "char \<Rightarrow> char \<Rightarrow> u8 option" where
  "parse_hex2 c d =
     (if c = CHR ''+'' then map_option word_of_nat (hex_val d)
      else (case (hex_val c, hex_val d) of
              (Some x, Some y) \<Rightarrow> Some (word_of_nat (16 * x + y))
            | _ \<Rightarrow> None))"

text \<open>
  The decoding loop walks the string two bytes at a time. The slice \<open>&s[i..i + 2]\<close>
  panics when its end is not a character boundary, that is, when a continuation byte
  follows it; a pair that does not parse ends the loop with \<open>None\<close>.
\<close>

definition starts_mid_char :: "string \<Rightarrow> bool" where
  "starts_mid_char s = (case s of [] \<Rightarrow> False | c # _ \<Rightarrow> is_cont (u8_of_char c))"

fun hex_pairs :: "string \<Rightarrow> bytes option res" where
  "hex_pairs (c # d # rest) =
     (if starts_mid_char rest then Inl Panic
      else (case parse_hex2 c d of
              None \<Rightarrow> Inr None
            | Some b \<Rightarrow> (case hex_pairs rest of
                          Inl e \<Rightarrow> Inl e
                        | Inr r \<Rightarrow> Inr (map_option ((#) b) r))))"
| "hex_pairs _ = Inr (Some [])"

definition from_hex :: "string \<Rightarrow> bytes option res" where
  "from_hex s = (if length s mod 2 \<noteq> 0 then Inr None else hex_pairs s)"

definition hex_to_bytes :: "string \<Rightarrow> bytes option res" where
  "hex_to_bytes s = (if length s mod 2 \<noteq> 0 then Inr None else hex_pairs s)"

definition is_ascii_str :: "string \<Rightarrow> bool" where
  "is_ascii_str s = list_all (\<lambda>c. u8_of_char c < 0x80) s"

lemma all_less_16: "(\<forall>n<16. P n) \<longleftrightarrow> list_all P [0..<16]" for P :: "nat \<Rightarrow> bool"
  by (auto simp: list_all_iff)

lemma hex_val_hex_digit: "n < 16 \<Longrightarrow> hex_val (hex_digit n) = Some n"
proof -
  have "\<forall>n<16. hex_val (hex_digit n) = Some n"
    unfolding all_less_16 by code_simp
  then show "n < 16 \<Longrightarrow> hex_val (hex_digit n) = Some n" by blast
qed

lemma hex_digit_props:
  "n < 16 \<Longrightarrow> hex_digit n \<noteq> CHR ''+'' \<and> \<not> is_cont (u8_of_char (hex_digit n)) \<and>
     is_ascii_hexdigit (hex_digit n) \<and> u8_of_char (hex_digit n) < 0x80"
proof -
  have "\<forall>n<16. hex_digit n \<noteq> CHR ''+'' \<and> \<not> is_cont (u8_of_char (hex_digit n)) \<and>
     is_ascii_hexdigit (hex_digit n) \<and> u8_of_char (hex_digit n) < 0x80"
    unfolding all_less_16 by code_simp
  then show "n < 16 \<Longrightarrow> ?thesis" by blast
qed

lemma unat_u8_bound: "unat (b :: u8) < 256"
  using unsigned_less [of b, where ?'a = nat] by simp

lemma parse_hex2_digits:
  "parse_hex2 (hex_digit (unat b div 16)) (hex_digit (unat b mod 16)) = Some b"
proof -
  have "unat b div 16 < 16" "unat b mod 16 < 16" using unat_u8_bound [of b] by auto
  then show ?thesis by (simp add: parse_hex2_def hex_digit_props hex_val_hex_digit)
qed

lemma to_hex_Nil [simp]: "to_hex [] = []"
  by (simp add: to_hex_def)

lemma to_hex_Cons [simp]:
  "to_hex (b # bs) = hex_digit (unat b div 16) # hex_digit (unat b mod 16) # to_hex bs"
  by (simp add: to_hex_def)

lemma length_to_hex [simp]: "length (to_hex bs) = 2 * length bs"
  by (induction bs) auto

lemma to_hex_not_mid: "\<not> starts_mid_char (to_hex bs)"
proof (cases bs)
  case (Cons b cs)
  have "unat b div 16 < 16" using unat_u8_bound [of b] by auto
  then show ?thesis using Cons by (simp add: starts_mid_char_def hex_digit_props)
qed (simp add: starts_mid_char_def)

lemma hex_pairs_to_hex: "hex_pairs (to_hex bs) = Inr (Some bs)"
  by (induction bs) (simp_all add: to_hex_not_mid parse_hex2_digits)

lemma from_hex_to_hex [simp]: "from_hex (to_hex bs) = Inr (Some bs)"
  by (simp add: from_hex_def hex_pairs_to_hex)

lemma to_hex_inject [simp]: "to_hex bs = to_hex cs \<longleftrightarrow> bs = cs"
  by (metis from_hex_to_hex option.inject sum.inject(2))

lemma to_hex_hexdigits: "list_all is_ascii_hexdigit (to_hex bs)"
proof (induction bs)
  case (Cons b bs)
  have "unat b div 16 < 16" "unat b mod 16 < 16" using unat_u8_bound [of b] by auto
  then show ?case using Cons by (simp add: hex_digit_props)
qed simp

lemma to_hex_ascii: "is_ascii_str (to_hex bs)"
proof (induction bs)
  case (Cons b bs)
  have "unat b div 16 < 16" "unat b mod 16 < 16" using unat_u8_bound [of b] by auto
  then show ?case using Cons by (simp add: hex_digit_props is_ascii_str_def)
qed (simp add: is_ascii_str_def)

lemma ascii_not_mid: "is_ascii_str s \<Longrightarrow> \<not> starts_mid_char s"
  by (cases s) (auto simp: starts_mid_char_def is_ascii_str_def is_cont_def)

lemma hex_pairs_no_panic: "is_ascii_str s \<Longrightarrow> \<exists>r. hex_pairs s = Inr r"
proof (induction s rule: hex_pairs.induct)
  case (1 c d rest)
  then have "is_ascii_str rest" by (simp add: is_ascii_str_def)
  with 1 show ?case
    by (cases "parse_hex2 c d") (auto simp: ascii_not_mid)
qed auto

lemma from_hex_no_panic: "is_ascii_str s \<Longrightarrow> \<exists>r. from_hex s = Inr r"
  by (auto simp: from_hex_def dest: hex_pairs_no_panic)

lemma hex_to_bytes_no_panic: "is_ascii_str s \<Longrightarrow> \<exists>r. hex_to_bytes s = Inr r"
  by (auto simp: hex_to_bytes_def dest: hex_pairs_no_panic)

lemma hex_pairs_length:
  "hex_pairs s = Inr (Some bs) \<Longrightarrow> even (length s) \<Longrightarrow> length s = 2 * length bs"
  by (induction s arbitrary: bs rule: hex_pairs.induct)
    (auto split: if_splits option.splits sum.splits)

lemma hex_to_bytes_from_hex: "hex_to_bytes = from_hex"
  by (simp add: fun_eq_iff hex_to_bytes_def from_hex_def)

end
