(* ===== verification/Address.thy ===== *)
theory Address
  imports RustText
begin

text \<open>
  \<open>src/indexer/address.rs\<close>: the cashaddr-style address codec. \<open>to_words\<close> regroups
  bytes into 5-bit words, \<open>polymod\<close> is the 40-bit BCH checksum, \<open>encode_address\<close>
  assembles prefix, data and checksum, and \<open>script_to_address\<close> recognises the
  standard scripts. The lemmas read the words of \<open>to_words\<close> as the base-32 digits of the
  padded byte string, and show that the checksum step is linear over XOR.
\<close>

unbundle bit_operations_syntax

section \<open>The codec\<close>

definition CHARSET :: string where
  "CHARSET = ''qpzry9x8gf2tvdw0s3jn54khce6mua7l''"

definition prefix_for_network :: "string \<Rightarrow> string" where
  "prefix_for_network network_name =
     (let n = to_ascii_lowercase network_name
      in if contains_str n ''mainnet'' then ''keryx''
         else if contains_str n ''testnet'' then ''keryxtest''
         else if contains_str n ''devnet'' then ''keryxdev''
         else ''keryxsim'')"

text \<open>The inner \<open>while bits >= 5\<close> loop of \<open>to_words\<close>: the words pushed and the bits left.\<close>

fun drain :: "u32 \<Rightarrow> nat \<Rightarrow> bytes \<times> nat" where
  "drain acc bits =
     (if 5 \<le> bits
      then (let bits = bits - 5; (ws, left) = drain acc bits
            in (ucast (drop_bit bits acc AND 31) # ws, left))
      else ([], bits))"

declare drain.simps [simp del]

fun to_words_loop :: "u32 \<Rightarrow> nat \<Rightarrow> bytes \<Rightarrow> bytes" where
  "to_words_loop acc bits [] =
     (if 0 < bits then [ucast (push_bit (5 - bits) acc AND 31)] else [])"
| "to_words_loop acc bits (b # bs) =
     (let acc = push_bit 8 acc OR ucast b; (ws, left) = drain acc (bits + 8)
      in ws @ to_words_loop acc left bs)"

definition to_words :: "bytes \<Rightarrow> bytes" where
  "to_words bs = to_words_loop 0 0 bs"

definition GEN :: "u64 list" where
  "GEN = [0x98f2bc8e61, 0x79b76d99e2, 0xf33e5fb3c4, 0xae2eabe2a8, 0x1e4f43e470]"

definition polymod_step :: "u64 \<Rightarrow> u8 \<Rightarrow> u64" where
  "polymod_step c v =
     (let top = drop_bit 35 c;
          c = push_bit 5 (c AND 0x07ffffffff) XOR ucast v
      in foldl (\<lambda>c (i, g). if drop_bit i top AND 1 = 1 then c XOR g else c) c (enumerate 0 GEN))"

definition polymod :: "bytes \<Rightarrow> u64" where
  "polymod values = foldl polymod_step 1 values XOR 1"

text \<open>The bytes of the checksum are written from the last to the first, shifting right.\<close>

fun low_bytes :: "nat \<Rightarrow> u64 \<Rightarrow> bytes" where
  "low_bytes 0 m = []"
| "low_bytes (Suc n) m = low_bytes n (drop_bit 8 m) @ [ucast (m AND 255)]"

definition checksum_words :: "bytes \<Rightarrow> string \<Rightarrow> bytes" where
  "checksum_words data_words prefix =
     (let input = map (\<lambda>c. c AND 31) (as_bytes prefix) @ [0] @ data_words @ replicate 8 0;
          m = polymod input
      in take 8 (to_words (low_bytes 5 m)))"

definition charset_at :: "u8 \<Rightarrow> char" where
  "charset_at w = CHARSET ! unat w"

definition encode_address :: "u8 \<Rightarrow> bytes \<Rightarrow> string \<Rightarrow> string" where
  "encode_address version payload prefix =
     (let data = to_words (version # payload);
          check = checksum_words data prefix
      in prefix @ '':'' @ map charset_at data @ map charset_at check)"

text \<open>The slice pattern \<open>[p, rest @ .., q]\<close>: the part between a fixed front and back.\<close>

definition between :: "bytes \<Rightarrow> bytes \<Rightarrow> bytes \<Rightarrow> bytes option" where
  "between p q bs =
     (if length p + length q \<le> length bs \<and> take (length p) bs = p
         \<and> drop (length bs - length q) bs = q
      then Some (take (length bs - length p - length q) (drop (length p) bs)) else None)"

definition match_script :: "bytes \<Rightarrow> bytes \<Rightarrow> nat \<Rightarrow> bytes \<Rightarrow> bytes option" where
  "match_script p q n bs =
     (case between p q bs of
        Some rest \<Rightarrow> if length rest = n then Some rest else None
      | None \<Rightarrow> None)"

definition script_address :: "bytes \<Rightarrow> string \<Rightarrow> string option" where
  "script_address script prefix =
     (case match_script [0x20] [0xac] 32 script of
        Some rest \<Rightarrow> Some (encode_address 0 rest prefix)
      | None \<Rightarrow>
          (case match_script [0x21] [0xab] 33 script of
             Some rest \<Rightarrow> Some (encode_address 1 rest prefix)
           | None \<Rightarrow>
               (case match_script [0xaa, 0x20] [0x87] 32 script of
                  Some rest \<Rightarrow> Some (encode_address 8 rest prefix)
                | None \<Rightarrow> None)))"

definition script_to_address :: "string \<Rightarrow> string \<Rightarrow> string option res" where
  "script_to_address script_hex prefix =
     (case hex_to_bytes script_hex of
        Inl e \<Rightarrow> Inl e
      | Inr None \<Rightarrow> Inr None
      | Inr (Some script) \<Rightarrow> Inr (script_address script prefix))"

section \<open>Words as base-32 digits\<close>

definition val32 :: "bytes \<Rightarrow> nat" where
  "val32 ws = foldl (\<lambda>a w. a * 32 + unat w) 0 ws"

lemma foldl_val32:
  "foldl (\<lambda>a w. a * 32 + unat w) a ws = a * 32 ^ length ws + val32 ws" for ws :: bytes
  unfolding val32_def
proof (induction ws arbitrary: a)
  case Nil
  then show ?case by simp
next
  case (Cons w ws)
  show ?case
    using Cons [of "a * 32 + unat w"] Cons [of "unat w"] by (simp add: algebra_simps)
qed

lemma val32_Nil [simp]: "val32 [] = 0"
  by (simp add: val32_def)

lemma val32_append: "val32 (us @ vs) = val32 us * 32 ^ length vs + val32 vs"
  using foldl_val32 [of "val32 us" vs] by (simp add: val32_def)

lemma val32_Cons: "val32 (w # ws) = unat w * 32 ^ length ws + val32 ws"
  using val32_append [of "[w]" ws] by (simp add: val32_def)

lemma and_31: "w AND 31 = take_bit 5 w" for w :: "'a::len word"
  by (simp add: take_bit_eq_mask mask_eq_exp_minus_1)

lemma unat_low5: "unat (ucast (w AND 31) :: u8) = unat w mod 32" for w :: u32
proof -
  have "unat w mod 32 < 2 ^ 8" by (rule less_trans [of _ 32]) simp_all
  then show ?thesis
    unfolding and_31 unsigned_ucast_eq unsigned_take_bit_eq by (simp add: take_bit_eq_mod mod_mod_cancel)
qed

lemma unat_drop: "unat (drop_bit n w) = unat w div 2 ^ n" for w :: "'a::len word"
  unfolding unat_drop_bit_eq by (simp add: drop_bit_eq_div)

lemma drain_spec:
  assumes "drain acc bits = (ws, left)"
  shows "left = bits mod 5 \<and> length ws = bits div 5
    \<and> val32 ws * 2 ^ left + unat acc mod 2 ^ left = unat acc mod 2 ^ bits
    \<and> (\<forall>w\<in>set ws. unat w < 32)"
  using assms
proof (induction acc bits arbitrary: ws left rule: drain.induct)
  case (1 acc bits)
  show ?case
  proof (cases "5 \<le> bits")
    case False
    with "1.prems" show ?thesis by (subst (asm) drain.simps) auto
  next
    case True
    define k where "k = bits - 5"
    obtain vs l where vs: "drain acc k = (vs, l)" by force
    with True "1.prems" have ws: "ws = ucast (drop_bit k acc AND 31) # vs" "left = l"
      by (subst (asm) drain.simps, simp add: k_def)+
    have IH: "l = k mod 5" "length vs = k div 5"
      "val32 vs * 2 ^ l + unat acc mod 2 ^ l = unat acc mod 2 ^ k" "\<forall>w\<in>set vs. unat w < 32"
      using "1.IH" [OF True refl vs [unfolded k_def]] unfolding k_def by blast+
    have bits: "bits = k + 5" using True by (simp add: k_def)
    have "(2::nat) ^ (5 * (k div 5) + k mod 5) = 32 ^ length vs * 2 ^ l"
      unfolding IH(1,2) power_add power_mult by simp
    then have p: "32 ^ length vs * 2 ^ l = (2::nat) ^ k" by simp
    have "unat acc mod 2 ^ bits = unat acc div 2 ^ k mod 32 * 2 ^ k + unat acc mod 2 ^ k"
      using mod_mult2_eq [of "unat acc" "2 ^ k" 32] by (simp add: bits power_add mult.commute)
    also have "\<dots> = unat acc div 2 ^ k mod 32 * (32 ^ length vs * 2 ^ l)
        + (val32 vs * 2 ^ l + unat acc mod 2 ^ l)"
      by (simp add: p IH(3))
    finally show ?thesis
      using IH(1,2,4) unfolding ws bits
      by (simp add: val32_Cons unat_low5 unat_drop algebra_simps)
  qed
qed

lemma unat_shift_in:
  assumes "bits \<le> 24"
  shows "unat (push_bit 8 acc OR ucast b :: u32) mod 2 ^ (bits + 8)
    = unat acc mod 2 ^ bits * 256 + unat (b :: u8)"
proof -
  have bit_b: "\<not> bit b n" if "8 \<le> n" for n
    using that bit_imp_le_length [of b n] by auto
  have "push_bit 8 acc AND ucast b = (0 :: u32)"
    using bit_b by (intro bit_eqI) (auto simp: bit_simps)
  then have "push_bit 8 acc OR ucast b = (push_bit 8 acc + ucast b :: u32)"
    by (simp add: disjunctive_add_eq_or)
  then have "unat (push_bit 8 acc OR ucast b :: u32)
      = (unat acc * 256 + unat b) mod 2 ^ 32"
    by (simp add: unat_word_ariths push_bit_eq_mult unsigned_ucast_eq take_bit_eq_mod
        mod_simps unsigned_push_bit_eq)
  moreover have "(2::nat) ^ (bits + 8) dvd 2 ^ 32"
    using assms by (intro le_imp_power_dvd) simp
  ultimately have "unat (push_bit 8 acc OR ucast b :: u32) mod 2 ^ (bits + 8)
      = (unat acc * 256 + unat b) mod 2 ^ (bits + 8)"
    by (simp add: mod_mod_cancel)
  also have "\<dots> = unat acc mod 2 ^ bits * 256 + unat b"
  proof -
    have "unat b < 256" by (rule unat_u8_bound)
    then have "(unat acc * 256 + unat b) div 256 = unat acc"
      "(unat acc * 256 + unat b) mod 256 = unat b" by simp_all
    then show ?thesis
      using mod_mult2_eq [of "unat acc * 256 + unat b" 256 "2 ^ bits"]
      by (simp add: power_add mult.commute)
  qed
  finally show ?thesis .
qed

lemma round_up_5: "(x + 4) div 5 * 5 = x + (5 - x mod 5) mod 5" for x :: nat
proof -
  define q r where "q = x div 5" and "r = x mod 5"
  have x: "x = 5 * q + r" and r: "r < 5" by (simp_all add: q_def r_def)
  from r have "r = 0 \<or> r = 1 \<or> r = 2 \<or> r = 3 \<or> r = 4" by linarith
  then show ?thesis unfolding x by auto
qed

lemma groups_of_5_mono: "m < n \<Longrightarrow> (8 * m + 4) div 5 < (8 * n + 4) div 5" for m n :: nat
proof -
  assume "m < n"
  then have "(8 * m + 4 + 5) div 5 \<le> (8 * n + 4) div 5" by (intro div_le_mono) simp
  then show ?thesis by simp
qed

lemma to_words_loop_spec:
  assumes "bits < 5"
  shows "val32 (to_words_loop acc bits bs)
      = (unat acc mod 2 ^ bits * 256 ^ length bs + nat_of_be bs)
        * 2 ^ ((5 - (bits + 8 * length bs) mod 5) mod 5)
    \<and> length (to_words_loop acc bits bs) = (bits + 8 * length bs + 4) div 5
    \<and> (\<forall>w\<in>set (to_words_loop acc bits bs). unat w < 32)"
  using assms
proof (induction acc bits bs rule: to_words_loop.induct)
  case (1 acc bits)
  show ?case
  proof (cases "0 < bits")
    case True
    have "unat (push_bit (5 - bits) acc) mod 32 = unat acc * 2 ^ (5 - bits) mod 32"
    proof -
      have "(32::nat) dvd 2 ^ 32" by simp
      then show ?thesis
        unfolding unsigned_push_bit_eq
        by (simp add: push_bit_eq_mult take_bit_eq_mod mod_mod_cancel)
    qed
    also have "\<dots> = unat acc mod 2 ^ bits * 2 ^ (5 - bits)"
    proof -
      have "(32::nat) = 2 ^ bits * 2 ^ (5 - bits)"
        using "1.prems" by (simp flip: power_add)
      then show ?thesis by (simp only: mod_mult_mult2)
    qed
    finally show ?thesis
      using True "1.prems" by (auto simp: val32_Cons unat_low5)
  next
    case False
    then show ?thesis by simp
  qed
next
  case (2 acc bits b bs)
  define a where "a = (push_bit 8 acc OR ucast b :: u32)"
  obtain ws left where d: "drain a (bits + 8) = (ws, left)" by force
  have D: "left = (bits + 8) mod 5" "length ws = (bits + 8) div 5"
    "val32 ws * 2 ^ left + unat a mod 2 ^ left = unat a mod 2 ^ (bits + 8)"
    "\<forall>w\<in>set ws. unat w < 32"
    using drain_spec [OF d] by blast+
  have a_val: "unat a mod 2 ^ (bits + 8) = unat acc mod 2 ^ bits * 256 + unat b"
    unfolding a_def by (rule unat_shift_in) (use "2.prems" in simp)
  have left: "left < 5" using D(1) by simp
  let ?n = "length bs" and ?rest = "to_words_loop a left bs"
  have IH: "val32 ?rest = (unat a mod 2 ^ left * 256 ^ ?n + nat_of_be bs)
        * 2 ^ ((5 - (left + 8 * ?n) mod 5) mod 5)"
    "length ?rest = (left + 8 * ?n + 4) div 5" "\<forall>w\<in>set ?rest. unat w < 32"
    using "2.IH" [OF refl, of "drain a (bits + 8)" ws left, folded a_def] d left
    by (auto simp: a_def)
  have loop: "to_words_loop acc bits (b # bs) = ws @ ?rest"
    using d by (simp add: a_def)
  define pad where "pad = (5 - (left + 8 * ?n) mod 5) mod 5"
  have pad': "(5 - (bits + 8 * length (b # bs)) mod 5) mod 5 = pad"
    unfolding pad_def D(1) by (simp add: mod_simps algebra_simps)
  have len: "length ?rest * 5 = left + 8 * ?n + pad"
    unfolding IH(2) pad_def by (rule round_up_5)
  have "32 ^ length ?rest = (2::nat) ^ (length ?rest * 5)"
    by (simp add: mult.commute [of _ 5] power_mult)
  then have p32: "32 ^ length ?rest = (2::nat) ^ left * 256 ^ ?n * 2 ^ pad"
    unfolding len by (simp add: power_add power_mult)
  have "val32 (ws @ ?rest)
      = ((val32 ws * 2 ^ left + unat a mod 2 ^ left) * 256 ^ ?n + nat_of_be bs) * 2 ^ pad"
    unfolding val32_append p32 IH(1) pad_def [symmetric] by (simp add: algebra_simps)
  also have "\<dots> = (unat acc mod 2 ^ bits * 256 ^ length (b # bs) + nat_of_be (b # bs)) * 2 ^ pad"
    unfolding D(3) a_val by (simp add: algebra_simps)
  finally have v: "val32 (ws @ ?rest) =
      (unat acc mod 2 ^ bits * 256 ^ length (b # bs) + nat_of_be (b # bs)) * 2 ^ pad" .
  have l: "length (ws @ ?rest) = (bits + 8 * length (b # bs) + 4) div 5"
  proof -
    have "bits + 8 * length (b # bs) + 4 = (left + 8 * ?n + 4) + 5 * ((bits + 8) div 5)"
      using mult_div_mod_eq [of 5 "bits + 8"] unfolding D(1) by simp
    then show ?thesis using D(2) IH(2) by simp
  qed
  show ?case
    unfolding loop pad' using v l D(4) IH(3) by auto
qed

lemma to_words_val:
  "val32 (to_words bs) = nat_of_be bs * 2 ^ ((5 - 8 * length bs mod 5) mod 5)"
  using to_words_loop_spec [of 0 0 bs] by (simp add: to_words_def)

lemma length_to_words: "length (to_words bs) = (8 * length bs + 4) div 5"
  using to_words_loop_spec [of 0 0 bs] by (simp add: to_words_def)

lemma to_words_small: "w \<in> set (to_words bs) \<Longrightarrow> unat w < 32"
  using to_words_loop_spec [of 0 0 bs] by (simp add: to_words_def)

lemma nat_of_be_inject:
  "length xs = length ys \<Longrightarrow> nat_of_be xs = nat_of_be ys \<Longrightarrow> xs = ys"
  using nat_of_be_less [of xs ys] nat_of_be_less [of ys xs]
  by (cases xs ys rule: linorder_cases) simp_all

lemma to_words_inject [simp]: "to_words xs = to_words ys \<longleftrightarrow> xs = ys"
proof
  assume eq: "to_words xs = to_words ys"
  have "(8 * length xs + 4) div 5 = (8 * length ys + 4) div 5"
    using arg_cong [OF eq, of length] by (simp add: length_to_words)
  then have len: "length xs = length ys"
    using groups_of_5_mono by (metis less_irrefl linorder_neqE_nat)
  moreover have "nat_of_be xs = nat_of_be ys"
    using to_words_val [of xs] to_words_val [of ys] eq len by simp
  ultimately show "xs = ys" by (rule nat_of_be_inject)
qed simp

section \<open>The checksum\<close>

text \<open>
  One step of the checksum, as a sum of three parts: the shifted low bits, the new word
  and the generators selected by the five top bits. Each part is linear over XOR.
\<close>

definition gen_sum :: "u64 \<Rightarrow> u64" where
  "gen_sum c =
     (if bit c 35 then 0x98f2bc8e61 else 0) XOR (if bit c 36 then 0x79b76d99e2 else 0)
     XOR (if bit c 37 then 0xf33e5fb3c4 else 0) XOR (if bit c 38 then 0xae2eabe2a8 else 0)
     XOR (if bit c 39 then 0x1e4f43e470 else 0)"

lemma drop_bit_and_1: "drop_bit i w AND 1 = 1 \<longleftrightarrow> bit w i" for w :: u64
  by (simp add: and_one_eq bit_iff_odd_drop_bit odd_iff_mod_2_eq_one)

lemma foldl_selected:
  "foldl (\<lambda>c (i, g). if P i then c XOR g else c) c [(0, g0), (1, g1), (2, g2), (3, g3), (4, g4)] =
     c XOR (if P 0 then g0 else 0) XOR (if P 1 then g1 else 0) XOR (if P 2 then g2 else 0)
     XOR (if P 3 then g3 else 0) XOR (if P (4::nat) then g4 else 0)" for c :: u64
  by (simp add: xor.assoc)

lemma polymod_step_eq:
  "polymod_step c v = push_bit 5 (c AND 0x07ffffffff) XOR ucast v XOR gen_sum c"
proof -
  have "enumerate 0 GEN = [(0, 0x98f2bc8e61), (1, 0x79b76d99e2), (2, 0xf33e5fb3c4),
      (3, 0xae2eabe2a8), (4, 0x1e4f43e470)]"
    by (simp add: GEN_def)
  then show ?thesis
    unfolding polymod_step_def Let_def drop_bit_and_1 gen_sum_def
    by (simp only: foldl_selected bit_drop_bit_eq o_apply) (simp add: xor.assoc)
qed

lemma gen_sum_xor: "gen_sum (a XOR b) = gen_sum a XOR gen_sum b"
  by (simp add: gen_sum_def bit_xor_iff xor.assoc xor.left_commute xor.commute)

lemma polymod_step_xor:
  "polymod_step (a XOR b) (v XOR w) = polymod_step a v XOR polymod_step b w"
proof -
  have "push_bit 5 ((a XOR b) AND 0x07ffffffff)
      = push_bit 5 (a AND 0x07ffffffff) XOR push_bit 5 (b AND 0x07ffffffff)"
    by (simp add: bit_eq_iff bit_simps) blast
  moreover have "ucast (v XOR w) = (ucast v XOR ucast w :: u64)"
    by (simp add: unsigned_xor_eq)
  ultimately show ?thesis
    unfolding polymod_step_eq gen_sum_xor
    by (simp add: xor.assoc xor.left_commute xor.commute)
qed

lemma polymod_foldl_zeros:
  "foldl polymod_step c (replicate (length ws) 0) XOR foldl polymod_step d ws
     = foldl polymod_step (c XOR d) ws"
proof (induction ws arbitrary: c d)
  case Nil
  then show ?case by simp
next
  case (Cons w ws)
  have "polymod_step c 0 XOR polymod_step d w = polymod_step (c XOR d) w"
    using polymod_step_xor [of c d 0 w] by simp
  with Cons [of "polymod_step c 0" "polymod_step d w"] show ?case by simp
qed

text \<open>Started at 0, at most eight 5-bit words are only shifted in.\<close>

lemma take_bit_small: "unat w < 2 ^ n \<Longrightarrow> take_bit n w = w" for w :: "'a::len word"
proof -
  assume "unat w < 2 ^ n"
  then have "unat (take_bit n w) = unat w"
    unfolding unsigned_take_bit_eq by (simp add: take_bit_nat_eq_self)
  then show ?thesis by (rule unsigned_word_eqI)
qed

lemma gen_sum_small: "unat c < 2 ^ 35 \<Longrightarrow> gen_sum c = 0"
proof -
  assume "unat c < 2 ^ 35"
  then have "take_bit 35 c = c" by (rule take_bit_small)
  then have "\<not> bit c n" if "35 \<le> n" for n
    using that bit_take_bit_iff [of 35 c n] by simp
  then show ?thesis by (simp add: gen_sum_def)
qed

lemma polymod_step_small:
  assumes "unat c < 2 ^ 35" "unat v < 32"
  shows "unat (polymod_step c v) = unat c * 32 + unat v"
proof -
  have m: "c AND 0x07ffffffff = c"
  proof -
    have "c AND 0x07ffffffff = take_bit 35 c"
      by (simp add: take_bit_eq_mask mask_eq_exp_minus_1)
    also have "\<dots> = c" using assms(1) by (rule take_bit_small)
    finally show ?thesis .
  qed
  have v5: "take_bit 5 v = v"
    using assms(2) by (intro take_bit_small) simp
  have bit_v: "\<not> bit v n" if "5 \<le> n" for n
    using that bit_take_bit_iff [of 5 v n] v5 by simp
  have disj: "push_bit 5 c AND ucast v = 0"
    using bit_v by (intro bit_eqI) (auto simp: bit_simps)
  have "push_bit 5 c XOR ucast v = (push_bit 5 c OR ucast v)"
    using bit_v by (intro bit_eqI) (auto simp: bit_simps)
  also have "\<dots> = push_bit 5 c + ucast v"
    using disj by (simp add: disjunctive_add_eq_or)
  finally have "polymod_step c v = push_bit 5 c + ucast v"
    using assms(1) by (simp add: polymod_step_eq m gen_sum_small)
  moreover have "unat (push_bit 5 c) = unat c * 32"
    unfolding unsigned_push_bit_eq using assms(1) by (simp add: push_bit_eq_mult take_bit_eq_mod)
  moreover have "unat (ucast v :: u64) = unat v"
    using assms(2) by (simp add: unsigned_ucast_eq take_bit_eq_mod)
  moreover have "unat c * 32 + unat v < 2 ^ 64" using assms by simp
  ultimately show ?thesis by (simp add: unat_word_ariths)
qed

lemma polymod_shift_in:
  assumes "\<forall>w\<in>set ws. unat w < 32" "length ws \<le> k" "k \<le> 8" "unat c < 32 ^ (k - length ws)"
  shows "unat (foldl polymod_step c ws) = unat c * 32 ^ length ws + val32 ws"
  using assms
proof (induction ws arbitrary: c)
  case Nil
  then show ?case by simp
next
  case (Cons w ws)
  have le: "(32::nat) ^ (k - length (w # ws)) \<le> 32 ^ 7"
    using Cons.prems(3) by (intro power_increasing) auto
  then have c: "unat c < 2 ^ 35" using Cons.prems(4) by simp
  have w: "unat w < 32" using Cons.prems(1) by simp
  have s: "unat (polymod_step c w) = unat c * 32 + unat w"
    by (rule polymod_step_small [OF c w])
  have "unat c + 1 \<le> 32 ^ (k - length (w # ws))" using Cons.prems(4) by simp
  then have "(unat c + 1) * 32 \<le> 32 ^ (k - length (w # ws)) * 32" by (rule mult_le_mono1)
  also have "\<dots> = 32 ^ (k - length ws)"
    using Cons.prems(2) by (simp flip: power_Suc2 add: Suc_diff_Suc)
  finally have "unat (polymod_step c w) < 32 ^ (k - length ws)"
    unfolding s using w by simp
  with Cons.IH [of "polymod_step c w"] Cons.prems show ?case
    by (simp add: s val32_Cons algebra_simps)
qed

text \<open>The checksum stays within 40 bits.\<close>

lemma polymod_step_40: "take_bit 40 (polymod_step c v) = polymod_step c v"
proof -
  have low: "c AND 0x07ffffffff = take_bit 35 c"
    by (simp add: take_bit_eq_mask mask_eq_exp_minus_1)
  have 1: "take_bit 40 (push_bit 5 (take_bit 35 c)) = push_bit 5 (take_bit 35 c)"
    by (intro bit_eqI) (auto simp: bit_simps)
  have "n < 8" if "bit v n" for n
    using that bit_imp_le_length [of v n] by simp
  then have 2: "take_bit 40 (ucast v :: u64) = ucast v"
    by (intro bit_eqI) (force simp: bit_simps)
  have 3: "take_bit 40 (gen_sum c) = gen_sum c"
    by (simp add: gen_sum_def take_bit_xor)
  show ?thesis
    unfolding polymod_step_eq low take_bit_xor 1 2 3 ..
qed

lemma polymod_foldl_40: "take_bit 40 c = c \<Longrightarrow> take_bit 40 (foldl polymod_step c vs) = foldl polymod_step c vs"
  by (induction vs arbitrary: c) (simp_all add: polymod_step_40)

lemma polymod_40: "unat (polymod vs) < 2 ^ 40"
proof -
  have "take_bit 40 (polymod vs) = polymod vs"
    unfolding polymod_def take_bit_xor by (simp add: polymod_foldl_40)
  then have "unat (polymod vs) = unat (polymod vs) mod 2 ^ 40"
    by (metis take_bit_eq_mod unsigned_take_bit_eq)
  then show ?thesis by (metis mod_less_divisor zero_less_power zero_less_numeral)
qed

lemma low_bytes_val:
  "nat_of_be (low_bytes n m) = unat m mod 256 ^ n \<and> length (low_bytes n m) = n"
proof (induction n arbitrary: m)
  case 0
  then show ?case by simp
next
  case (Suc n)
  have app: "nat_of_be (xs @ [b]) = nat_of_be xs * 256 + unat b" for xs b
    by (simp add: nat_of_be_def)
  have "m AND 255 = take_bit 8 m"
    by (simp add: take_bit_eq_mask mask_eq_exp_minus_1)
  then have "unat (ucast (m AND 255) :: u8) = unat m mod 256"
    unfolding unsigned_ucast_eq by (simp only: unsigned_take_bit_eq) (simp add: take_bit_eq_mod)
  moreover have "unat m mod 256 ^ Suc n = unat m div 256 mod 256 ^ n * 256 + unat m mod 256"
    using mod_mult2_eq [of "unat m" 256 "256 ^ n"] by (simp add: mult.commute)
  moreover have "unat (drop_bit 8 m) = unat m div 256"
    using unat_drop [of 8 m] by simp
  ultimately show ?case using Suc [of "drop_bit 8 m"] by (simp add: app)
qed

lemma checksum_words_eq:
  "checksum_words ws prefix =
     to_words (low_bytes 5 (polymod (map (\<lambda>c. c AND 31) (as_bytes prefix) @ [0] @ ws @ replicate 8 0)))"
  by (simp add: checksum_words_def low_bytes_val length_to_words)

lemma length_checksum_words [simp]: "length (checksum_words ws prefix) = 8"
  by (simp add: checksum_words_eq low_bytes_val length_to_words)

lemma polymod_checksum:
  "polymod (map (\<lambda>c. c AND 31) (as_bytes prefix) @ [0] @ ws @ checksum_words ws prefix) = 0"
proof -
  define hd_words where "hd_words = map (\<lambda>c. c AND 31) (as_bytes prefix) @ [0] @ ws"
  define c where "c = foldl polymod_step 1 hd_words"
  define m where "m = polymod (hd_words @ replicate 8 0)"
  have check: "checksum_words ws prefix = to_words (low_bytes 5 m)"
    by (simp add: checksum_words_eq m_def hd_words_def)
  have m: "foldl polymod_step c (replicate 8 0) = m XOR 1"
    by (simp add: m_def polymod_def c_def xor.assoc)
  have "val32 (to_words (low_bytes 5 m)) = unat m"
    using polymod_40 [of "hd_words @ replicate 8 0"]
    by (simp add: to_words_val low_bytes_val m_def)
  moreover have "unat (foldl polymod_step 0 (to_words (low_bytes 5 m)))
      = val32 (to_words (low_bytes 5 m))"
    using polymod_shift_in [of "to_words (low_bytes 5 m)" 8 0] to_words_small
    by (simp add: length_to_words low_bytes_val)
  ultimately have zero: "foldl polymod_step 0 (to_words (low_bytes 5 m)) = m"
    by (intro unsigned_word_eqI) simp
  have "foldl polymod_step c (to_words (low_bytes 5 m)) = (m XOR 1) XOR m"
    using polymod_foldl_zeros [of c "to_words (low_bytes 5 m)" 0]
    by (simp add: length_to_words low_bytes_val m zero)
  then have "polymod (hd_words @ checksum_words ws prefix) = 0"
    by (simp add: polymod_def check c_def xor.assoc xor.commute xor.left_commute)
  then show ?thesis by (simp add: hd_words_def)
qed

section \<open>Addresses and scripts\<close>

lemma charset_distinct: "distinct CHARSET"
  by code_simp

lemma length_CHARSET [simp]: "length CHARSET = 32"
  by (simp add: CHARSET_def)

lemma charset_at_inject:
  "unat v < 32 \<Longrightarrow> unat w < 32 \<Longrightarrow> charset_at v = charset_at w \<longleftrightarrow> v = w"
  using nth_eq_iff_index_eq [OF charset_distinct, of "unat v" "unat w"]
  by (auto simp: charset_at_def intro: unsigned_word_eqI)

lemma charset_at_in: "unat w < 32 \<Longrightarrow> charset_at w \<in> set CHARSET"
  by (simp add: charset_at_def)

lemma map_charset_inject:
  assumes "\<forall>v\<in>set vs. unat v < 32" "\<forall>w\<in>set ws. unat w < 32"
    and "map charset_at vs = map charset_at ws"
  shows "vs = ws"
proof -
  have "inj_on charset_at (set vs \<union> set ws)"
    using assms(1,2) by (auto simp: inj_on_def charset_at_inject)
  with assms(3) show ?thesis by (simp add: inj_on_map_eq_map)
qed

lemma encode_address_inject:
  assumes "encode_address v p prefix = encode_address v' p' prefix"
  shows "v = v' \<and> p = p'"
proof -
  have len: "length (to_words (v # p)) = length (to_words (v' # p'))"
    using arg_cong [OF assms, of length] by (simp add: encode_address_def Let_def)
  have "map charset_at (to_words (v # p)) = map charset_at (to_words (v' # p'))"
    using assms len by (simp add: encode_address_def Let_def)
  then have "to_words (v # p) = to_words (v' # p')"
    by (intro map_charset_inject) (auto dest: to_words_small)
  then show ?thesis by simp
qed

lemma encode_address_chars:
  "\<exists>body. encode_address v p prefix = prefix @ CHR '':'' # body \<and> body \<noteq> []
     \<and> set body \<subseteq> set CHARSET"
proof -
  have "set (map charset_at (to_words bs)) \<subseteq> set CHARSET" for bs
    by (auto dest: to_words_small charset_at_in)
  then have "set (map charset_at (to_words (v # p)) @
      map charset_at (checksum_words (to_words (v # p)) prefix)) \<subseteq> set CHARSET"
    by (auto simp: checksum_words_eq)
  moreover have "map charset_at (checksum_words (to_words (v # p)) prefix) \<noteq> []"
    using length_checksum_words [of "to_words (v # p)" prefix] by (metis length_map list.size(3) zero_neq_numeral)
  ultimately show ?thesis
    by (auto simp: encode_address_def Let_def)
qed

lemma between_Some: "between p q bs = Some rest \<Longrightarrow> bs = p @ rest @ q"
proof -
  assume "between p q bs = Some rest"
  then have h: "length p + length q \<le> length bs" "take (length p) bs = p"
    "drop (length bs - length q) bs = q"
    "rest = take (length bs - length p - length q) (drop (length p) bs)"
    by (auto simp: between_def split: if_splits)
  have "drop (length p) bs = rest @ drop (length bs - length p - length q) (drop (length p) bs)"
    by (simp only: h(4) append_take_drop_id)
  also have "drop (length bs - length p - length q) (drop (length p) bs) = q"
    using h(1,3) by (simp add: add.commute)
  finally show ?thesis using h(2) by (metis append_take_drop_id)
qed

lemma between_append [simp]: "between p q (p @ rest @ q) = Some rest"
  by (simp add: between_def)

lemma match_script_Some:
  "match_script p q n bs = Some rest \<longleftrightarrow> bs = p @ rest @ q \<and> length rest = n"
  by (auto simp: match_script_def dest: between_Some split: option.splits)

text \<open>The three standard forms, each with the version byte its address carries.\<close>

definition script_form :: "bytes \<Rightarrow> u8 \<Rightarrow> bytes \<Rightarrow> bool" where
  "script_form script version payload =
     (version = 0 \<and> length payload = 32 \<and> script = [0x20] @ payload @ [0xac]
      \<or> version = 1 \<and> length payload = 33 \<and> script = [0x21] @ payload @ [0xab]
      \<or> version = 8 \<and> length payload = 32 \<and> script = [0xaa, 0x20] @ payload @ [0x87])"

lemma script_address_Some:
  "script_address script prefix = Some a \<Longrightarrow>
     \<exists>version payload. script_form script version payload \<and> a = encode_address version payload prefix"
  unfolding script_address_def script_form_def
  by (auto simp: match_script_Some split: option.splits)

lemma match_script_head:
  "p \<noteq> b \<Longrightarrow> match_script (p # ps) q n (b # bs) = None"
  by (simp add: match_script_def between_def)

lemma match_script_exact:
  "length rest = n \<Longrightarrow> match_script p q n (p @ rest @ q) = Some rest"
  by (simp add: match_script_Some)

lemma script_form_address:
  assumes "script_form script version payload"
  shows "script_address script prefix = Some (encode_address version payload prefix)"
  using assms unfolding script_form_def
proof (elim disjE conjE)
  assume "version = 0" "length payload = 32" "script = [0x20] @ payload @ [0xac]"
  then show ?thesis by (simp only: script_address_def match_script_exact option.case)
next
  assume "version = 1" "length payload = 33" "script = [0x21] @ payload @ [0xab]"
  moreover from this have "match_script [0x20] [0xac] 32 script = None"
    by (simp add: match_script_head)
  ultimately show ?thesis by (simp only: script_address_def match_script_exact option.case)
next
  assume "version = 8" "length payload = 32" "script = [0xaa, 0x20] @ payload @ [0x87]"
  moreover from this have "match_script [0x20] [0xac] 32 script = None"
    "match_script [0x21] [0xab] 33 script = None"
    by (simp_all add: match_script_head)
  ultimately show ?thesis by (simp only: script_address_def match_script_exact option.case)
qed

lemma script_form_unique:
  "script_form s v p \<Longrightarrow> script_form t v p \<Longrightarrow> s = t"
  by (auto simp: script_form_def)

section \<open>Properties\<close>

text \<open>
  The regrouping loop of \<open>to_words\<close> computes the base-32 digits of the byte
  string padded with zero bits on the right: the digits have the value of the bytes times
  the padding, there are as many as the bits need, and each fits five bits. So no bit is
  lost in the 32-bit accumulator, and different byte strings give different words.
\<close>

theorem to_words_digits:
  "val32 (to_words bs) = nat_of_be bs * 2 ^ ((5 - 8 * length bs mod 5) mod 5)
   \<and> length (to_words bs) = (8 * length bs + 4) div 5
   \<and> list_all (\<lambda>w. unat w < 32) (to_words bs)
   \<and> (to_words bs = to_words cs \<longleftrightarrow> bs = cs)"
  by (simp add: to_words_val length_to_words to_words_small list_all_iff)

text \<open>
  Property C13. Every address \<open>encode_address\<close> builds is the prefix, a colon, the data
  words and an 8-word checksum over the alphabet, and the checksum verifies: the polymod of
  prefix, separator, data and checksum is 0.
\<close>

theorem encode_address_checksum:
  "\<exists>check. length check = 8
     \<and> encode_address version payload prefix
         = prefix @ '':'' @ map charset_at (to_words (version # payload) @ check)
     \<and> polymod (map (\<lambda>c. c AND 31) (as_bytes prefix) @ [0]
         @ to_words (version # payload) @ check) = 0"
  by (intro exI [of _ "checksum_words (to_words (version # payload)) prefix"])
    (simp add: encode_address_def Let_def polymod_checksum [simplified])

text \<open>
  Property C11. \<open>script_to_address\<close> attributes exactly the three standard scripts
  (Schnorr P2PK with version 0, ECDSA P2PK with version 1, P2SH with version 8), each under
  the address of its payload; a string that is not hexadecimal or a script of another form
  gets no address.
\<close>

theorem script_to_address_standard:
  "script_to_address script_hex prefix = Inr (Some a) \<longleftrightarrow>
     (\<exists>script version payload. hex_to_bytes script_hex = Inr (Some script)
        \<and> script_form script version payload \<and> a = encode_address version payload prefix)"
  by (auto simp: script_to_address_def script_form_address dest: script_address_Some
      split: sum.splits option.splits)

text \<open>
  Property C12. Attribution is one to one: two script strings with the same address decode
  to the same script, so no two different locking scripts share a history.
\<close>

theorem script_to_address_injective:
  assumes "script_to_address s prefix = Inr (Some a)"
    and "script_to_address t prefix = Inr (Some a)"
  shows "hex_to_bytes s = hex_to_bytes t"
proof -
  obtain u v p where u: "hex_to_bytes s = Inr (Some u)" "script_form u v p"
      "a = encode_address v p prefix"
    using assms(1) by (auto simp: script_to_address_def dest: script_address_Some
        split: sum.splits option.splits)
  obtain u' v' p' where u': "hex_to_bytes t = Inr (Some u')" "script_form u' v' p'"
      "a = encode_address v' p' prefix"
    using assms(2) by (auto simp: script_to_address_def dest: script_address_Some
        split: sum.splits option.splits)
  have "v = v' \<and> p = p'" using u(3) u'(3) by (metis encode_address_inject)
  with u u' show ?thesis using script_form_unique by metis
qed

theorem script_to_address_injective_witness:
  "script_to_address (''20'' @ to_hex (replicate 32 0x11) @ ''ac'') ''keryxsim''
     = Inr (Some (encode_address 0 (replicate 32 0x11) ''keryxsim''))
   \<and> hex_to_bytes (''20'' @ to_hex (replicate 32 0x11) @ ''ac'')
     = hex_to_bytes (''20'' @ to_hex (replicate 32 0x11) @ ''AC'')"
proof -
  have h: "hex_to_bytes (''20'' @ to_hex (replicate 32 0x11) @ ''ac'')
        = Inr (Some ([0x20] @ replicate 32 0x11 @ [0xac]))"
    "hex_to_bytes (''20'' @ to_hex (replicate 32 0x11) @ ''AC'')
        = Inr (Some ([0x20] @ replicate 32 0x11 @ [0xac]))"
    by code_simp+
  have f: "script_form ([0x20] @ replicate 32 0x11 @ [0xac]) 0 (replicate 32 0x11)"
    by (simp add: script_form_def)
  have a: "script_to_address (''20'' @ to_hex (replicate 32 0x11) @ ''ac'') ''keryxsim''
        = Inr (Some (encode_address 0 (replicate 32 0x11) ''keryxsim''))"
    "script_to_address (''20'' @ to_hex (replicate 32 0x11) @ ''AC'') ''keryxsim''
        = Inr (Some (encode_address 0 (replicate 32 0x11) ''keryxsim''))"
    by (simp_all only: script_to_address_def h script_form_address [OF f] sum.case option.case)
  from a(1) script_to_address_injective [OF a] show ?thesis by blast
qed

text \<open>The wallet's own test vector (payload \<open>0x11\<close> repeated, simnet prefix).\<close>

lemma encode_matches_wallet_vector:
  "encode_address 0 (replicate 32 0x11) ''keryxsim''
     = ''keryxsim:qqg3zyg3zyg3zyg3zyg3zyg3zyg3zyg3zyg3zyg3zyg3zyg3zyg3zs5zp29vm''"
  by code_simp

end
