(* ===== verification/Externals.thy ===== *)
theory Externals
  imports Prelude "HOL-Library.Multiset"
begin

text \<open>
  What the sources call but do not contain: the BLAKE2b-512 digest (\<open>blake2b_simd\<close>),
  base58 (\<open>bs58\<close>), and the iteration order of a \<open>HashMap\<close>, which the standard library
  leaves unspecified. They are the fields of one record, an argument of every definition
  that uses them; \<open>ext_ok\<close> states what is documented of them. A hash map that is iterated is
  built for that one iteration; its order is random per instance, and the two orders are
  arbitrary permutations of the map's entries. As functions they give maps with equal
  entries the same order; no statement rests on that, since the entries have distinct keys
  and what is stated of them does not depend on their order.
\<close>

record ext =
  blake2b :: "bytes \<Rightarrow> bytes"
  bs58_encode :: "bytes \<Rightarrow> string"
  ledger_order :: "(string \<times> u64 \<times> u64) list \<Rightarrow> (string \<times> u64 \<times> u64) list"
  caps_order :: "(string \<times> string list \<times> u64) list \<Rightarrow> (string \<times> string list \<times> u64) list"

definition ext_ok :: "ext \<Rightarrow> bool" where
  "ext_ok e = ((\<forall>bs. length (blake2b e bs) = 64)
     \<and> (\<forall>xs. mset (ledger_order e xs) = mset xs)
     \<and> (\<forall>xs. mset (caps_order e xs) = mset xs))"

text \<open>A concrete instance, for evaluating the model: a padding digest and insertion order.\<close>

definition ext_sample :: ext where
  "ext_sample = \<lparr> blake2b = (\<lambda>bs. take 64 (bs @ replicate 64 0)),
     bs58_encode = (\<lambda>bs. map (\<lambda>b. char_of (unat b)) bs),
     ledger_order = (\<lambda>xs. xs), caps_order = (\<lambda>xs. xs) \<rparr>"

lemma ext_ok_sample: "ext_ok ext_sample"
  by (auto simp: ext_ok_def ext_sample_def min_def)

lemma ext_ok_ledger_set: "ext_ok e \<Longrightarrow> set (ledger_order e xs) = set xs"
  unfolding ext_ok_def by (metis set_mset_mset)

lemma ext_ok_ledger_distinct:
  "ext_ok e \<Longrightarrow> distinct (map fst (ledger_order e xs)) \<longleftrightarrow> distinct (map fst xs)"
proof -
  assume "ext_ok e"
  then have "mset (map fst (ledger_order e xs)) = mset (map fst xs)"
    by (simp add: ext_ok_def)
  then show ?thesis by (rule mset_eq_imp_distinct_iff)
qed

end
