(* ===== verification/Inference.thy ===== *)
theory Inference
  imports Address Externals
begin

text \<open>
  \<open>src/indexer/inference.rs\<close>: the decoders of the AI subnetwork payloads (request 03,
  response 04, challenge 05), the coinbase capability markers and the escrow scripts.
\<close>

unbundle bit_operations_syntax

section \<open>Constants\<close>

definition SUBNET_AI_REQUEST :: string where
  "SUBNET_AI_REQUEST = ''0300000000000000000000000000000000000000''"
definition SUBNET_AI_RESPONSE :: string where
  "SUBNET_AI_RESPONSE = ''0400000000000000000000000000000000000000''"
definition SUBNET_AI_CHALLENGE :: string where
  "SUBNET_AI_CHALLENGE = ''0500000000000000000000000000000000000000''"

definition MIN_REQUEST_LEN :: nat where
  "MIN_REQUEST_LEN = 52"
definition RESPONSE_LEN :: nat where
  "RESPONSE_LEN = 78"
definition RESPONSE_V2_LEN :: nat where
  "RESPONSE_V2_LEN = RESPONSE_LEN + 32 + 64"
definition MIN_CHALLENGE_LEN :: nat where
  "MIN_CHALLENGE_LEN = 74"
definition PRIVATE_MAGIC :: bytes where
  "PRIVATE_MAGIC = [0x00, 0x4B, 0x58, 0x50]"
definition PRIVATE_VERSION :: u8 where
  "PRIVATE_VERSION = 1"
definition MAX_PRIVATE_RECIPIENTS :: nat where
  "MAX_PRIVATE_RECIPIENTS = 128"
definition PRIVATE_REQUEST_HEADER_LEN :: nat where
  "PRIVATE_REQUEST_HEADER_LEN = 4 + 1 + 33 + 12 + 1"
definition PRIVATE_RECIPIENT_ENTRY_LEN :: nat where
  "PRIVATE_RECIPIENT_ENTRY_LEN = 32 + 48"
definition PRIVATE_TAG_LEN :: nat where
  "PRIVATE_TAG_LEN = 16"
definition RESPONSE_EXT_PRIVATE_BODY :: u8 where
  "RESPONSE_EXT_PRIVATE_BODY = 0x80"
definition RESPONSE_EXT_TRACE :: u8 where
  "RESPONSE_EXT_TRACE = 0x81"
definition RESPONSE_TRACE_LEN :: nat where
  "RESPONSE_TRACE_LEN = 32 + 4 + 4 + 1"
definition RESPONSE_TRACE_TOKENS_LEN :: nat where
  "RESPONSE_TRACE_TOKENS_LEN = RESPONSE_TRACE_LEN + 32"
definition RESPONSE_EXT_HEADER_LEN :: nat where
  "RESPONSE_EXT_HEADER_LEN = 1 + 4"
definition MAX_RESPONSE_PRIVATE_BODY_LEN :: nat where
  "MAX_RESPONSE_PRIVATE_BODY_LEN = 48 * 1024"
definition INFERENCE_VAULT_SCRIPT_HEX :: string where
  "INFERENCE_VAULT_SCRIPT_HEX = ''6a0761697661756c74''"

lemmas inference_consts =
  MIN_REQUEST_LEN_def RESPONSE_LEN_def RESPONSE_V2_LEN_def MIN_CHALLENGE_LEN_def
  PRIVATE_MAGIC_def PRIVATE_VERSION_def MAX_PRIVATE_RECIPIENTS_def
  PRIVATE_REQUEST_HEADER_LEN_def PRIVATE_RECIPIENT_ENTRY_LEN_def PRIVATE_TAG_LEN_def
  RESPONSE_EXT_PRIVATE_BODY_def RESPONSE_EXT_TRACE_def RESPONSE_TRACE_LEN_def
  RESPONSE_TRACE_TOKENS_LEN_def RESPONSE_EXT_HEADER_LEN_def MAX_RESPONSE_PRIVATE_BODY_LEN_def

section \<open>Private envelopes\<close>

definition slice :: "nat \<Rightarrow> nat \<Rightarrow> 'a list \<Rightarrow> 'a list" where
  "slice i j xs = take (j - i) (drop i xs)"

definition is_private :: "bytes \<Rightarrow> bool" where
  "is_private bs = (take (length PRIVATE_MAGIC) bs = PRIVATE_MAGIC)"

text \<open>\<open>as_chunks\<close>: the full chunks, a shorter remainder left out.\<close>

function full_chunks :: "nat \<Rightarrow> 'a list \<Rightarrow> 'a list list" where
  "full_chunks n xs =
     (if n = 0 \<or> length xs < n then [] else take n xs # full_chunks n (drop n xs))"
  by pat_completeness auto
termination
  by (relation "measure (\<lambda>(n, xs). length xs)") auto

declare full_chunks.simps [simp del]

definition adjacent_less :: "'a::ord list \<Rightarrow> bool" where
  "adjacent_less xs = list_all (\<lambda>(a, b). a < b) (zip xs (drop 1 xs))"

definition private_recipient_count :: "bytes \<Rightarrow> u32 option" where
  "private_recipient_count prompt =
     (if \<not> is_private prompt \<or> length prompt < PRIVATE_REQUEST_HEADER_LEN
         \<or> prompt ! 4 \<noteq> PRIVATE_VERSION then None
      else
        (let n = unat (prompt ! (PRIVATE_REQUEST_HEADER_LEN - 1))
         in if n = 0 \<or> MAX_PRIVATE_RECIPIENTS < n then None
            else
              (let entries_end = PRIVATE_REQUEST_HEADER_LEN + n * PRIVATE_RECIPIENT_ENTRY_LEN
               in if length prompt < entries_end + PRIVATE_TAG_LEN then None
                  else
                    (let keys = map (take 32) (full_chunks PRIVATE_RECIPIENT_ENTRY_LEN
                                  (slice PRIVATE_REQUEST_HEADER_LEN entries_end prompt))
                     in if adjacent_less keys then Some (word_of_nat n) else None))))"

definition is_inference_vault :: "string \<Rightarrow> bool" where
  "is_inference_vault script_hex = eq_ignore_ascii_case script_hex INFERENCE_VAULT_SCRIPT_HEX"

section \<open>Model registry\<close>

definition MODELS :: "(string \<times> string) list" where
  "MODELS =
    [(''bd34568cd89f5f19c6c3a6e1a61b929bc868709409eaad8e672d85f3c1eb5710'',
      ''qwen3.5-9b-abliterated''),
     (''d42fa6ee00e07d49b046090a56af0e7bd61025937c502e2c574a72874c350d24'',
      ''qwen3-8b-abliterated''),
     (''300a99b3a85b0ab45d1d930bb7b1d4b0f35983d521e79ff21193a6908dc4b810'',
      ''exaone-4.0-1.2b''),
     (''8c2fea600f0eefe7048741a5119cb7be303037f59fc026e48382658f23581e0a'',
      ''mistral-7b-v0.3''),
     (''fa2f13be0850e26c5ce86c7ac79da85e300c1da8b3290f9a18d47105f1f2140a'',
      ''glm-4-9b-0414''),
     (''399984045600f7d58d1b2cf01e6a4bf466fa15c7ac31bd0dd1a71e003b617cc6'',
      ''gemma-4-12b-abliterated''),
     (''73740b443bdc00afda5fa34eb9999d3fea77dcc3f6de238fab701394cdc96fb3'',
      ''qwen3.8-27b''),
     (''b8bdc01fa407eab943e4fefc807483b39f8142785256049e1f559698a5284746'',
      ''qwen3.6-27b''),
     (''3dc09358ad75c6ef0c9c86ee4f47c4d6acda961fecbd0e4f9cf55e8f0fdffddb'',
      ''kimi-linear-48b'')]"

definition model_key :: "string \<Rightarrow> string option" where
  "model_key model_id_hex =
     map_option snd (find (\<lambda>(i, _). eq_ignore_ascii_case i model_id_hex) MODELS)"

section \<open>Request identity\<close>

definition request_hash :: "ext \<Rightarrow> bytes \<Rightarrow> string" where
  "request_hash e payload = to_hex (take 32 (blake2b e payload))"

definition request_identity :: "ext \<Rightarrow> string \<Rightarrow> bytes \<Rightarrow> bool \<Rightarrow> string" where
  "request_identity e tx_id payload routed =
     (if routed then tx_id else request_hash e payload)"

section \<open>AiRequest\<close>

record AiRequest =
  rq_model_id :: string
  rq_max_tokens :: u32
  rq_inference_reward :: u64
  rq_priority_fee :: u64
  rq_prompt :: string
  rq_private :: bool
  rq_recipient_count :: "u32 option"

definition decode_request :: "bytes \<Rightarrow> AiRequest option" where
  "decode_request payload =
     (if length payload < MIN_REQUEST_LEN then None
      else
        (let prompt = drop 52 payload; private = is_private prompt
         in Some \<lparr> rq_model_id = to_hex (slice 0 32 payload),
                   rq_max_tokens = u32_of_le (slice 32 36 payload),
                   rq_inference_reward = u64_of_le (slice 36 44 payload),
                   rq_priority_fee = u64_of_le (slice 44 52 payload),
                   rq_prompt = (if private then [] else from_utf8_lossy prompt),
                   rq_private = private,
                   rq_recipient_count =
                     (if private then private_recipient_count prompt else None) \<rparr>))"

section \<open>AiResponse\<close>

record AiResponse =
  rs_request_hash :: string
  rs_challenge_window_end :: u64
  rs_cid :: string
  rs_response_length :: u32
  rs_responder_pubkey :: "string option"
  rs_private_body :: "bytes option"

definition is_trace_extension :: "bytes \<Rightarrow> bool" where
  "is_trace_extension ext =
     (let n = length ext - RESPONSE_EXT_HEADER_LEN
      in RESPONSE_EXT_HEADER_LEN < length ext
         \<and> ext ! 0 = RESPONSE_EXT_TRACE
         \<and> unat (u32_of_le (slice 1 5 ext)) = n
         \<and> (n = RESPONSE_TRACE_LEN \<or> n = RESPONSE_TRACE_TOKENS_LEN))"

definition private_body_of :: "bytes \<Rightarrow> bytes option" where
  "private_body_of ext =
     (if RESPONSE_EXT_HEADER_LEN < length ext \<and> ext ! 0 = RESPONSE_EXT_PRIVATE_BODY
      then
        (let len = unat (u32_of_le (slice 1 5 ext))
         in if length ext < RESPONSE_EXT_HEADER_LEN + len then None
            else
              (let body = slice RESPONSE_EXT_HEADER_LEN (RESPONSE_EXT_HEADER_LEN + len) ext;
                   rest = drop (RESPONSE_EXT_HEADER_LEN + len) ext
               in if len \<le> MAX_RESPONSE_PRIVATE_BODY_LEN \<and> (rest = [] \<or> is_trace_extension rest)
                  then Some body else None))
      else None)"

definition decode_response :: "ext \<Rightarrow> bytes \<Rightarrow> AiResponse option" where
  "decode_response e payload =
     (if length payload < RESPONSE_LEN then None
      else Some \<lparr> rs_request_hash = to_hex (slice 0 32 payload),
                  rs_challenge_window_end = u64_of_le (slice 32 40 payload),
                  rs_cid = bs58_encode e (slice 40 74 payload),
                  rs_response_length = u32_of_le (slice 74 78 payload),
                  rs_responder_pubkey =
                    (if RESPONSE_V2_LEN \<le> length payload
                     then Some (to_hex (slice 78 110 payload)) else None),
                  rs_private_body =
                    (if RESPONSE_V2_LEN \<le> length payload
                     then private_body_of (drop RESPONSE_V2_LEN payload) else None) \<rparr>)"

section \<open>AiChallenge\<close>

record AiChallenge =
  ch_response_hash :: string
  ch_request_hash :: "string option"

definition decode_challenge :: "bytes \<Rightarrow> AiChallenge option" where
  "decode_challenge payload =
     (if length payload < MIN_CHALLENGE_LEN then None
      else Some \<lparr> ch_response_hash = to_hex (slice 0 32 payload),
                  ch_request_hash =
                    (if MIN_CHALLENGE_LEN + 32 \<le> length payload
                     then Some (to_hex (slice 74 106 payload)) else None) \<rparr>)"

section \<open>Coinbase markers and scripts\<close>

definition find_bytes :: "bytes \<Rightarrow> bytes \<Rightarrow> nat option" where
  "find_bytes haystack needle = find_sub haystack needle"

definition is_hex64 :: "string \<Rightarrow> bool" where
  "is_hex64 s = (length s = 64 \<and> list_all is_ascii_hexdigit s)"

definition parse_ai_caps :: "bytes \<Rightarrow> string list" where
  "parse_ai_caps coinbase_payload =
     (case find_bytes coinbase_payload (as_bytes ''/ai:cap:'') of
        None \<Rightarrow> []
      | Some start \<Rightarrow>
          (case from_utf8 (takeWhile (\<lambda>b. b \<noteq> 0x2F) (drop (start + 8) coinbase_payload)) of
             None \<Rightarrow> []
           | Some list \<Rightarrow>
               filter is_hex64
                 (map (\<lambda>s. to_ascii_lowercase (trim s)) (split_on (CHR '','') list))))"

definition parse_escrow_pubkey :: "bytes \<Rightarrow> string option" where
  "parse_escrow_pubkey coinbase_payload =
     (case find_bytes coinbase_payload (as_bytes ''/escrow:'') of
        None \<Rightarrow> None
      | Some start \<Rightarrow>
          (case from_utf8 (take 64 (drop (start + 8) coinbase_payload)) of
             None \<Rightarrow> None
           | Some s \<Rightarrow>
               (let hex = to_ascii_lowercase s in if is_hex64 hex then Some hex else None)))"

definition p2pk_pubkey :: "string \<Rightarrow> string option res" where
  "p2pk_pubkey script_hex =
     (case from_hex script_hex of
        Inl e \<Rightarrow> Inl e
      | Inr None \<Rightarrow> Inr None
      | Inr (Some bs) \<Rightarrow> Inr (map_option to_hex (match_script [0x20] [0xac] 32 bs)))"

definition csv_key :: "bytes \<Rightarrow> string option" where
  "csv_key b =
     (if length b < 37 then None
      else
        (let seq_len = unat (b ! 0)
         in if \<not> (1 \<le> seq_len \<and> seq_len \<le> 8) \<or> length b \<noteq> seq_len + 36 then None
            else if b ! (seq_len + 1) \<noteq> 0xb1 \<or> b ! (seq_len + 2) \<noteq> 0x20
                    \<or> b ! (length b - 1) \<noteq> 0xac then None
            else Some (to_hex (slice (seq_len + 3) (seq_len + 35) b))))"

definition csv_escrow_pubkey :: "string \<Rightarrow> string option res" where
  "csv_escrow_pubkey script_hex =
     (case from_hex script_hex of
        Inl e \<Rightarrow> Inl e
      | Inr None \<Rightarrow> Inr None
      | Inr (Some b) \<Rightarrow> Inr (csv_key b))"

section \<open>Slices of a concatenation\<close>

lemma word_of_nat_unat: "word_of_nat (unat w) = w" for w :: "'a::len word"
  by simp

lemma slice_append_left: "j \<le> length xs \<Longrightarrow> slice i j (xs @ ys) = slice i j xs"
  by (cases "i \<le> j") (auto simp: slice_def)

lemma slice_append_right:
  "length xs \<le> i \<Longrightarrow> slice i j (xs @ ys) = slice (i - length xs) (j - length xs) ys"
  by (simp add: slice_def)

lemma slice_all: "j = length xs \<Longrightarrow> slice 0 j xs = xs"
  by (simp add: slice_def)

lemmas slice_simps = slice_append_left slice_append_right slice_all

lemma length_slice: "length (slice i j xs) = min (j - i) (length xs - i)"
  by (simp add: slice_def)

lemma slice_Suc: "slice (Suc i) (Suc j) (x # xs) = slice i j xs"
  by (simp add: slice_def)

lemma be_nat_nat_of_be: "be_nat (length bs) (nat_of_be bs) = bs"
proof -
  have "nat_of_be (be_nat (length bs) (nat_of_be bs)) = nat_of_be bs"
    using nat_of_be_bound [of bs] by simp
  then show ?thesis by (intro nat_of_be_inject) simp_all
qed

lemma le32_u32_of_le: "length bs = 4 \<Longrightarrow> le32 (u32_of_le bs) = bs"
proof -
  assume len: "length bs = 4"
  then have "nat_of_be (rev bs) < 2 ^ 32" using nat_of_be_bound [of "rev bs"] by simp
  then have "unat (u32_of_le bs) = nat_of_be (rev bs)"
    by (simp add: u32_of_le_def unat_of_nat take_bit_eq_mod)
  then show ?thesis
    using be_nat_nat_of_be [of "rev bs"] len by (simp add: le32_def)
qed

section \<open>Inline bodies\<close>

lemma trace_extension_iff:
  "is_trace_extension ext \<longleftrightarrow>
     (\<exists>trace. ext = RESPONSE_EXT_TRACE # le32 (word_of_nat (length trace)) @ trace
        \<and> (length trace = RESPONSE_TRACE_LEN \<or> length trace = RESPONSE_TRACE_TOKENS_LEN))"
  (is "?L \<longleftrightarrow> ?R")
proof
  assume L: ?L
  then have len: "5 < length ext" by (simp add: is_trace_extension_def inference_consts Let_def)
  define trace where "trace = drop 5 ext"
  have "ext = ext ! 0 # slice 1 5 ext @ trace"
    using len by (cases ext) (simp_all add: slice_def trace_def)
  moreover have "slice 1 5 ext = le32 (word_of_nat (length trace))"
  proof -
    have "unat (u32_of_le (slice 1 5 ext)) = length trace"
      using L by (simp add: is_trace_extension_def trace_def inference_consts Let_def)
    then have "u32_of_le (slice 1 5 ext) = word_of_nat (length trace)"
      by (metis word_of_nat_unat)
    moreover have "length (slice 1 5 ext) = 4" using len by (simp add: length_slice)
    ultimately show ?thesis by (metis le32_u32_of_le)
  qed
  moreover have "ext ! 0 = RESPONSE_EXT_TRACE"
    "length trace = RESPONSE_TRACE_LEN \<or> length trace = RESPONSE_TRACE_TOKENS_LEN"
    using L by (simp_all add: is_trace_extension_def trace_def Let_def RESPONSE_EXT_HEADER_LEN_def)
  ultimately show ?R by metis
next
  assume ?R
  then obtain trace where ext: "ext = RESPONSE_EXT_TRACE # le32 (word_of_nat (length trace)) @ trace"
    and len: "length trace = RESPONSE_TRACE_LEN \<or> length trace = RESPONSE_TRACE_TOKENS_LEN"
    by blast
  have "slice 1 5 ext = le32 (word_of_nat (length trace))"
    unfolding ext by (simp add: slice_def)
  moreover have "unat (word_of_nat (length trace) :: u32) = length trace"
    using len by (auto simp: unat_of_nat take_bit_eq_mod inference_consts)
  ultimately show ?L
    using len by (auto simp: is_trace_extension_def ext inference_consts Let_def)
qed

lemma private_body_of_iff:
  "private_body_of ext = Some body \<longleftrightarrow>
     (\<exists>rest. ext = RESPONSE_EXT_PRIVATE_BODY # le32 (word_of_nat (length body)) @ body @ rest
        \<and> body @ rest \<noteq> [] \<and> length body \<le> MAX_RESPONSE_PRIVATE_BODY_LEN
        \<and> (rest = [] \<or> is_trace_extension rest))"
  (is "?L \<longleftrightarrow> ?R")
proof
  assume L: ?L
  define len where "len = unat (u32_of_le (slice 1 5 ext))"
  define rest where "rest = drop (5 + len) ext"
  have h: "5 < length ext" "ext ! 0 = RESPONSE_EXT_PRIVATE_BODY" "5 + len \<le> length ext"
    "body = slice 5 (5 + len) ext" "len \<le> MAX_RESPONSE_PRIVATE_BODY_LEN"
    "rest = [] \<or> is_trace_extension rest"
    using L by (auto simp: private_body_of_def len_def rest_def Let_def RESPONSE_EXT_HEADER_LEN_def
        split: if_splits)
  have body: "length body = len" using h(3,4) by (simp add: length_slice)
  have "slice 1 5 ext = le32 (word_of_nat (length body))"
  proof -
    have "u32_of_le (slice 1 5 ext) = word_of_nat (length body)"
      unfolding body len_def by simp
    moreover have "length (slice 1 5 ext) = 4" using h(1) by (simp add: length_slice)
    ultimately show ?thesis by (metis le32_u32_of_le)
  qed
  moreover have "ext = ext ! 0 # slice 1 5 ext @ drop 5 ext"
    using h(1) by (cases ext) (simp_all add: slice_def)
  moreover have "drop 5 ext = body @ rest"
    using h(3,4) by (simp add: slice_def rest_def add.commute [of 5] drop_drop [symmetric] del: drop_drop)
  moreover from this h(1) have "body @ rest \<noteq> []" by (metis drop_eq_Nil not_le)
  ultimately show ?R using h(2,5,6) body by metis
next
  assume ?R
  then obtain rest where
    ext: "ext = RESPONSE_EXT_PRIVATE_BODY # le32 (word_of_nat (length body)) @ body @ rest"
    and r: "body @ rest \<noteq> []" "length body \<le> MAX_RESPONSE_PRIVATE_BODY_LEN"
      "rest = [] \<or> is_trace_extension rest"
    by blast
  have "slice 1 5 ext = le32 (word_of_nat (length body))"
    unfolding ext by (simp add: slice_def)
  moreover have "unat (word_of_nat (length body) :: u32) = length body"
    using r(2) by (simp add: unat_of_nat take_bit_eq_mod inference_consts)
  ultimately have len: "unat (u32_of_le (slice 1 5 ext)) = length body" by simp
  have drops: "drop 5 ext = body @ rest" unfolding ext by simp
  then have "drop (5 + length body) ext = rest"
    by (metis add.commute append_eq_conv_conj drop_drop)
  moreover have "slice 5 (5 + length body) ext = body"
    using drops by (simp add: slice_def)
  ultimately show ?L using len r
    unfolding private_body_of_def Let_def RESPONSE_EXT_HEADER_LEN_def
    by (auto simp: ext)
qed

section \<open>Recipients of an envelope\<close>

lemma full_chunks_append:
  "0 < n \<Longrightarrow> length x = n \<Longrightarrow> full_chunks n (x @ xs) = x # full_chunks n xs"
  by (subst full_chunks.simps) simp

lemma full_chunks_short: "length xs < n \<Longrightarrow> full_chunks n xs = []"
  by (subst full_chunks.simps) simp

lemma full_chunks_concat:
  "0 < n \<Longrightarrow> \<forall>x\<in>set xss. length x = n \<Longrightarrow> full_chunks n (concat xss) = xss"
  by (induction xss) (simp_all add: full_chunks_append full_chunks_short)

lemma adjacent_less_sorted: "adjacent_less xs \<longleftrightarrow> sorted_wrt (<) xs" for xs :: "'a::linorder list"
proof (induction xs)
  case Nil
  then show ?case by (simp add: adjacent_less_def)
next
  case (Cons x xs)
  have "adjacent_less (x # xs) \<longleftrightarrow> (xs \<noteq> [] \<longrightarrow> x < hd xs) \<and> adjacent_less xs"
    by (cases xs) (simp_all add: adjacent_less_def)
  also have "\<dots> \<longleftrightarrow> sorted_wrt (<) (x # xs)"
    unfolding Cons.IH by (cases xs) auto
  finally show ?case .
qed

lemma private_recipient_count_Some:
  assumes "private_recipient_count prompt = Some k"
  shows "is_private prompt \<and> 1 \<le> unat k \<and> unat k \<le> MAX_PRIVATE_RECIPIENTS
    \<and> PRIVATE_REQUEST_HEADER_LEN + unat k * PRIVATE_RECIPIENT_ENTRY_LEN + PRIVATE_TAG_LEN
        \<le> length prompt"
proof -
  define n where "n = unat (prompt ! (PRIVATE_REQUEST_HEADER_LEN - 1))"
  have "is_private prompt" "n \<noteq> 0" "n \<le> MAX_PRIVATE_RECIPIENTS" "k = word_of_nat n"
    "PRIVATE_REQUEST_HEADER_LEN + n * PRIVATE_RECIPIENT_ENTRY_LEN + PRIVATE_TAG_LEN \<le> length prompt"
    using assms by (auto simp: private_recipient_count_def n_def Let_def split: if_splits)
  moreover from this have "unat k = n"
    by (simp add: unat_of_nat take_bit_eq_mod MAX_PRIVATE_RECIPIENTS_def)
  ultimately show ?thesis by simp
qed

section \<open>Pubkeys\<close>

lemma to_hex_is_hex64: "length bs = 32 \<Longrightarrow> is_hex64 (to_hex bs)"
  by (simp add: is_hex64_def to_hex_hexdigits)

lemma csv_key_layout:
  assumes "1 \<le> length seq" "length seq \<le> 8" "length key = 32"
  shows "csv_key (word_of_nat (length seq) # seq @ [0xb1, 0x20] @ key @ [0xac]) = Some (to_hex key)"
proof -
  let ?b = "word_of_nat (length seq) # seq @ [0xb1, 0x20] @ key @ [0xac] :: bytes"
  have s: "unat (word_of_nat (length seq) :: u8) = length seq"
    using assms(2) by (simp add: unat_of_nat take_bit_eq_mod)
  have "slice (length seq + 3) (length seq + 35) ?b = key"
    using assms(3) by (simp add: slice_def numeral_3_eq_3)
  then show ?thesis
    using assms by (auto simp: csv_key_def s Let_def nth_append nth_Cons')
qed

section \<open>The properties\<close>

lemma le64_u64_of_le: "length bs = 8 \<Longrightarrow> le64 (u64_of_le bs) = bs"
proof -
  assume len: "length bs = 8"
  then have "nat_of_be (rev bs) < 2 ^ 64" using nat_of_be_bound [of "rev bs"] by simp
  then have "unat (u64_of_le bs) = nat_of_be (rev bs)"
    by (simp add: u64_of_le_def unat_of_nat take_bit_eq_mod)
  then show ?thesis
    using be_nat_nat_of_be [of "rev bs"] len by (simp add: le64_def)
qed

lemma slice_glue: "i \<le> j \<Longrightarrow> drop i xs = slice i j xs @ drop j xs"
  by (metis add_diff_inverse_nat append_take_drop_id drop_drop not_less slice_def add.commute)

lemma request_slices:
  assumes "length m = 32" "length a = 4" "length b = 8" "length c = 8"
  shows "slice 0 32 (m @ a @ b @ c @ p) = m" "slice 32 36 (m @ a @ b @ c @ p) = a"
    "slice 36 44 (m @ a @ b @ c @ p) = b" "slice 44 52 (m @ a @ b @ c @ p) = c"
    "drop 52 (m @ a @ b @ c @ p) = p"
  using assms by (simp_all add: slice_def)

lemma request_split:
  assumes "52 \<le> length p"
  shows "p = slice 0 32 p @ slice 32 36 p @ slice 36 44 p @ slice 44 52 p @ drop 52 p"
  using slice_glue [of 0 32 p] slice_glue [of 32 36 p] slice_glue [of 36 44 p]
    slice_glue [of 44 52 p] by simp

text \<open>Property C16. An AiRequest decodes to some fields exactly when the payload is those
  fields in the on-chain layout: model id, then three little-endian integers, then the
  prompt; the prompt text is shown only when it is not a sealed envelope.\<close>

theorem decode_request_layout:
  "decode_request payload = Some r \<longleftrightarrow>
     (\<exists>model prompt. length model = 32
        \<and> payload = model @ le32 (rq_max_tokens r) @ le64 (rq_inference_reward r)
                      @ le64 (rq_priority_fee r) @ prompt
        \<and> r = \<lparr> rq_model_id = to_hex model, rq_max_tokens = rq_max_tokens r,
                rq_inference_reward = rq_inference_reward r,
                rq_priority_fee = rq_priority_fee r,
                rq_prompt = (if is_private prompt then [] else from_utf8_lossy prompt),
                rq_private = is_private prompt,
                rq_recipient_count =
                  (if is_private prompt then private_recipient_count prompt else None) \<rparr>)"
  (is "?L \<longleftrightarrow> ?R")
proof
  assume L: ?L
  then have len: "52 \<le> length payload"
    by (auto simp: decode_request_def MIN_REQUEST_LEN_def split: if_splits)
  with L have r: "rq_max_tokens r = u32_of_le (slice 32 36 payload)"
    "rq_inference_reward r = u64_of_le (slice 36 44 payload)"
    "rq_priority_fee r = u64_of_le (slice 44 52 payload)"
    by (auto simp: decode_request_def MIN_REQUEST_LEN_def Let_def)
  show ?R
    using L len request_split [OF len]
    by (intro exI [of _ "slice 0 32 payload"] exI [of _ "drop 52 payload"])
      (auto simp: r le32_u32_of_le le64_u64_of_le length_slice decode_request_def
        MIN_REQUEST_LEN_def Let_def)
next
  assume ?R
  then obtain model prompt where len: "length model = 32"
    and p: "payload = model @ le32 (rq_max_tokens r) @ le64 (rq_inference_reward r)
                      @ le64 (rq_priority_fee r) @ prompt"
    and r: "r = \<lparr> rq_model_id = to_hex model, rq_max_tokens = rq_max_tokens r,
                rq_inference_reward = rq_inference_reward r,
                rq_priority_fee = rq_priority_fee r,
                rq_prompt = (if is_private prompt then [] else from_utf8_lossy prompt),
                rq_private = is_private prompt,
                rq_recipient_count =
                  (if is_private prompt then private_recipient_count prompt else None) \<rparr>"
    by blast
  show ?L
    unfolding decode_request_def p MIN_REQUEST_LEN_def Let_def
    by (subst (2) r) (simp add: request_slices len)
qed

lemma response_slices:
  assumes "RESPONSE_V2_LEN \<le> length payload"
  shows "payload = take RESPONSE_V2_LEN payload @ drop RESPONSE_V2_LEN payload"
    "length (take RESPONSE_V2_LEN payload) = RESPONSE_V2_LEN"
  using assms by simp_all

text \<open>Property C15. An AiResponse surfaces an inline answer exactly when its payload is a full V2
  head followed by one body extension whose length field is right and within the limit,
  and then by nothing or by exactly one trace commitment: every trailing byte is
  accounted for.\<close>

theorem decode_response_private_body:
  "(\<exists>r. decode_response e payload = Some r \<and> rs_private_body r = Some body) \<longleftrightarrow>
     (\<exists>head rest. length head = RESPONSE_V2_LEN
        \<and> payload = head @ [RESPONSE_EXT_PRIVATE_BODY] @ le32 (word_of_nat (length body))
                      @ body @ rest
        \<and> length body \<le> MAX_RESPONSE_PRIVATE_BODY_LEN \<and> body @ rest \<noteq> []
        \<and> (rest = [] \<or>
            (\<exists>trace. rest = RESPONSE_EXT_TRACE # le32 (word_of_nat (length trace)) @ trace
               \<and> (length trace = RESPONSE_TRACE_LEN \<or> length trace = RESPONSE_TRACE_TOKENS_LEN))))"
  (is "?L \<longleftrightarrow> ?R")
proof -
  have "?L \<longleftrightarrow> RESPONSE_V2_LEN \<le> length payload
      \<and> private_body_of (drop RESPONSE_V2_LEN payload) = Some body"
    by (auto simp: decode_response_def RESPONSE_V2_LEN_def RESPONSE_LEN_def)
  also have "\<dots> \<longleftrightarrow> ?R" (is "?M \<longleftrightarrow> _")
  proof
    assume ?M
    then obtain rest where "drop RESPONSE_V2_LEN payload
        = RESPONSE_EXT_PRIVATE_BODY # le32 (word_of_nat (length body)) @ body @ rest"
      "body @ rest \<noteq> []" "length body \<le> MAX_RESPONSE_PRIVATE_BODY_LEN"
      "rest = [] \<or> is_trace_extension rest" "RESPONSE_V2_LEN \<le> length payload"
      unfolding private_body_of_iff by blast
    then show ?R
      using response_slices [of payload]
      by (intro exI [of _ "take RESPONSE_V2_LEN payload"] exI [of _ rest])
        (auto simp: trace_extension_iff)
  next
    assume ?R
    then obtain head rest where h: "length head = RESPONSE_V2_LEN"
        "payload = head @ [RESPONSE_EXT_PRIVATE_BODY] @ le32 (word_of_nat (length body))
                      @ body @ rest"
        "length body \<le> MAX_RESPONSE_PRIVATE_BODY_LEN" "body @ rest \<noteq> []"
        "rest = [] \<or> is_trace_extension rest"
      unfolding trace_extension_iff by metis
    then have "private_body_of (drop RESPONSE_V2_LEN payload) = Some body"
      unfolding private_body_of_iff by (intro exI [of _ rest]) simp
    with h(1,2) show ?M by simp
  qed
  finally show ?thesis .
qed

section \<open>Envelopes\<close>

definition envelope :: "bytes \<Rightarrow> bytes \<Rightarrow> (bytes \<times> bytes) list \<Rightarrow> bytes \<Rightarrow> bytes" where
  "envelope ephemeral nonce entries sealed =
     PRIVATE_MAGIC @ [PRIVATE_VERSION] @ ephemeral @ nonce @ [word_of_nat (length entries)]
       @ concat (map (\<lambda>(key, wrapped). key @ wrapped) entries) @ sealed"

definition envelope_shape :: "bytes \<Rightarrow> bytes \<Rightarrow> (bytes \<times> bytes) list \<Rightarrow> bytes \<Rightarrow> bool" where
  "envelope_shape ephemeral nonce entries sealed =
     (length ephemeral = 33 \<and> length nonce = 12 \<and> 1 \<le> length entries
      \<and> length entries \<le> MAX_PRIVATE_RECIPIENTS
      \<and> list_all (\<lambda>(key, wrapped). length key = 32 \<and> length wrapped = 48) entries
      \<and> PRIVATE_TAG_LEN \<le> length sealed \<and> sorted_wrt (<) (map fst entries))"

lemma entries_length:
  "list_all (\<lambda>(key, wrapped). length key = 32 \<and> length wrapped = 48) entries \<Longrightarrow>
     length (concat (map (\<lambda>(key, wrapped). key @ wrapped) entries)) = length entries * 80"
  by (induction entries) auto

lemma entries_chunks:
  "list_all (\<lambda>(key, wrapped). length key = 32 \<and> length wrapped = 48) entries \<Longrightarrow>
     full_chunks 80 (concat (map (\<lambda>(key, wrapped). key @ wrapped) entries))
       = map (\<lambda>(key, wrapped). key @ wrapped) entries"
  by (rule full_chunks_concat) (auto simp: list_all_iff)

lemma map_take_entries:
  "list_all (\<lambda>(key, wrapped). length key = 32 \<and> length wrapped = 48) entries \<Longrightarrow>
     map (take 32) (map (\<lambda>(key, wrapped). key @ wrapped) entries) = map fst entries"
  by (induction entries) auto

lemma concat_full_chunks:
  "length xs = k * n \<Longrightarrow> 0 < n \<Longrightarrow> concat (full_chunks n xs) = xs
     \<and> length (full_chunks n xs) = k \<and> (\<forall>c\<in>set (full_chunks n xs). length c = n)"
proof (induction k arbitrary: xs)
  case 0
  then show ?case by (simp add: full_chunks_short)
next
  case (Suc k)
  then have "full_chunks n xs = take n xs # full_chunks n (drop n xs)"
    by (subst full_chunks.simps) simp
  moreover have "length (drop n xs) = k * n" using Suc.prems by simp
  ultimately show ?case using Suc.IH [of "drop n xs"] Suc.prems by simp
qed

lemma envelope_slices:
  assumes sh: "envelope_shape eph nonce entries sealed"
  shows "envelope eph nonce entries sealed ! 4 = PRIVATE_VERSION"
    "envelope eph nonce entries sealed ! 50 = word_of_nat (length entries)"
    "slice 51 (51 + length entries * 80) (envelope eph nonce entries sealed)
       = concat (map (\<lambda>(key, wrapped). key @ wrapped) entries)"
    "length (envelope eph nonce entries sealed) = 51 + length entries * 80 + length sealed"
    "is_private (envelope eph nonce entries sealed)"
proof -
  let ?c = "concat (map (\<lambda>(key, wrapped). key @ wrapped) entries)"
  have c: "length ?c = length entries * 80"
    using sh by (simp add: envelope_shape_def entries_length)
  have l: "length eph = 33" "length nonce = 12" using sh by (simp_all add: envelope_shape_def)
  have pre: "envelope eph nonce entries sealed
      = (PRIVATE_MAGIC @ [PRIVATE_VERSION] @ eph @ nonce @ [word_of_nat (length entries)]) @ ?c @ sealed"
    by (simp add: envelope_def)
  show "envelope eph nonce entries sealed ! 4 = PRIVATE_VERSION"
    by (simp add: envelope_def PRIVATE_MAGIC_def)
  show "envelope eph nonce entries sealed ! 50 = word_of_nat (length entries)"
    by (simp add: envelope_def PRIVATE_MAGIC_def nth_append nth_Cons' l)
  show "slice 51 (51 + length entries * 80) (envelope eph nonce entries sealed) = ?c"
    unfolding pre slice_def by (simp add: PRIVATE_MAGIC_def l c)
  show "length (envelope eph nonce entries sealed) = 51 + length entries * 80 + length sealed"
    unfolding pre by (simp add: PRIVATE_MAGIC_def l c)
  show "is_private (envelope eph nonce entries sealed)"
    by (simp add: is_private_def envelope_def)
qed

lemma length_PRIVATE_MAGIC: "length PRIVATE_MAGIC = 4"
  by (simp add: PRIVATE_MAGIC_def)

lemma prompt_split:
  assumes "is_private p" "51 \<le> length p" "p ! 4 = PRIVATE_VERSION" "m = 51 + k * 80" "m \<le> length p"
  shows "p = PRIVATE_MAGIC @ [PRIVATE_VERSION] @ slice 5 38 p @ slice 38 50 p @ [p ! 50]
    @ slice 51 m p @ drop m p"
proof -
  have "p = PRIVATE_MAGIC @ drop 4 p"
    using assms(1) append_take_drop_id [of "length PRIVATE_MAGIC" p]
    unfolding is_private_def by (simp add: length_PRIVATE_MAGIC)
  moreover have "drop 4 p = [p ! 4] @ drop 5 p"
    using assms(2) Cons_nth_drop_Suc [of 4 p] by simp
  moreover have "drop 5 p = slice 5 38 p @ slice 38 50 p @ drop 50 p"
    by (simp flip: slice_glue)
  moreover have "drop 50 p = [p ! 50] @ drop 51 p"
    using assms(2) Cons_nth_drop_Suc [of 50 p] by simp
  moreover have "drop 51 p = slice 51 m p @ drop m p" using assms(4) by (simp flip: slice_glue)
  ultimately show ?thesis using assms(3) by metis
qed

lemma prompt_entries:
  assumes "length xs = k * 80"
  obtains entries where "xs = concat (map (\<lambda>(key, wrapped). key @ wrapped) entries)"
    "length entries = k" "list_all (\<lambda>(key, wrapped). length key = 32 \<and> length wrapped = 48) entries"
    "map fst entries = map (take 32) (full_chunks 80 xs)"
proof
  let ?cs = "full_chunks 80 xs"
  let ?entries = "map (\<lambda>c. (take 32 c, drop 32 c)) ?cs"
  note c = concat_full_chunks [OF assms, simplified]
  show "xs = concat (map (\<lambda>(key, wrapped). key @ wrapped) ?entries)" using c by (simp add: comp_def)
  show "length ?entries = k" using c by simp
  show "list_all (\<lambda>(key, wrapped). length key = 32 \<and> length wrapped = 48) ?entries"
    using c by (auto simp: list_all_iff)
  show "map fst ?entries = map (take 32) ?cs" by (simp add: comp_def)
qed

text \<open>Property C14. A prompt is counted as sealed to k recipients exactly when it is a complete
  version-1 envelope: header, 1 to 128 recipient entries with strictly increasing pubkeys
  (so no recipient twice), k of them, and a ciphertext that has room for its tag.\<close>

theorem private_recipient_count_envelope:
  "private_recipient_count prompt = Some k \<longleftrightarrow>
     (\<exists>ephemeral nonce entries sealed. envelope_shape ephemeral nonce entries sealed
        \<and> prompt = envelope ephemeral nonce entries sealed \<and> k = word_of_nat (length entries))"
  (is "?L \<longleftrightarrow> ?R")
proof
  assume L: ?L
  define n where "n = unat (prompt ! 50)"
  have h: "is_private prompt" "51 \<le> length prompt" "prompt ! 4 = PRIVATE_VERSION" "1 \<le> n" "n \<le> 128"
      "51 + n * 80 + 16 \<le> length prompt" "k = word_of_nat n"
      "adjacent_less (map (take 32) (full_chunks 80 (slice 51 (51 + n * 80) prompt)))"
    using L by (auto simp: private_recipient_count_def n_def Let_def inference_consts split: if_splits)
  have "length (slice 51 (51 + n * 80) prompt) = n * 80" using h(6) by (simp add: length_slice)
  then obtain entries where
    e: "slice 51 (51 + n * 80) prompt = concat (map (\<lambda>(key, wrapped). key @ wrapped) entries)"
    "length entries = n" "list_all (\<lambda>(key, wrapped). length key = 32 \<and> length wrapped = 48) entries"
    "map fst entries = map (take 32) (full_chunks 80 (slice 51 (51 + n * 80) prompt))"
    by (rule prompt_entries)
  have "prompt ! 50 = word_of_nat (length entries)" by (simp add: e(2) n_def)
  then have "prompt = envelope (slice 5 38 prompt) (slice 38 50 prompt) entries (drop (51 + n * 80) prompt)"
    using prompt_split [OF h(1-3) refl, of n] h(6) by (simp add: envelope_def e(1) [symmetric])
  moreover have "envelope_shape (slice 5 38 prompt) (slice 38 50 prompt) entries (drop (51 + n * 80) prompt)"
    using h e by (simp add: envelope_shape_def length_slice inference_consts adjacent_less_sorted)
  ultimately show ?R using h(7) e(2) by blast
next
  assume ?R
  then obtain eph nonce entries sealed where sh: "envelope_shape eph nonce entries sealed"
    and p: "prompt = envelope eph nonce entries sealed" and k: "k = word_of_nat (length entries)"
    by blast
  have n: "unat (word_of_nat (length entries) :: u8) = length entries"
    and rng: "1 \<le> length entries" "length entries \<le> 128" "16 \<le> length sealed"
    and es: "list_all (\<lambda>(key, wrapped). length key = 32 \<and> length wrapped = 48) entries"
    and srt: "sorted_wrt (<) (map fst entries)"
    using sh by (simp_all add: envelope_shape_def inference_consts unat_of_nat take_bit_eq_mod)
  have keys: "map (take 32) (full_chunks 80 (slice 51 (51 + length entries * 80) prompt)) = map fst entries"
    using entries_chunks [OF es] map_take_entries [OF es] by (simp add: p envelope_slices(3) [OF sh])
  have "entries \<noteq> []" using rng(1) by auto
  then show ?L
    using envelope_slices [OF sh, folded p] rng keys srt n k
    unfolding private_recipient_count_def
    by (simp add: inference_consts Let_def adjacent_less_sorted not_less)
qed

section \<open>Scripts\<close>

lemma from_hex_length: "from_hex s = Inr (Some bs) \<Longrightarrow> length s = 2 * length bs"
  unfolding from_hex_def by (auto dest: hex_pairs_length split: if_splits)

lemma vault_length: "is_inference_vault s \<Longrightarrow> length s = 18"
proof -
  assume "is_inference_vault s"
  then have "length (to_ascii_lowercase s) = length (to_ascii_lowercase INFERENCE_VAULT_SCRIPT_HEX)"
    by (simp add: is_inference_vault_def eq_ignore_ascii_case_def)
  then show ?thesis by (simp add: INFERENCE_VAULT_SCRIPT_HEX_def)
qed

lemma match_script_length:
  "match_script pre post n bs = Some k \<Longrightarrow> length bs = length pre + n + length post"
  by (auto simp: match_script_Some)

lemma csv_key_length: "csv_key bs = Some k \<Longrightarrow> 37 \<le> length bs"
  by (auto simp: csv_key_def split: if_splits)

lemma csv_key_head: "csv_key bs = Some k \<Longrightarrow> bs ! 0 \<noteq> 0x20"
  by (auto simp: csv_key_def Let_def split: if_splits)

lemma nth_split3:
  assumes "length b = m + 36" "1 \<le> m"
  shows "b = b ! 0 # slice 1 (m + 1) b @ [b ! (m + 1), b ! (m + 2)] @ slice (m + 3) (m + 35) b
    @ [b ! (length b - 1)]"
proof -
  have "b = b ! 0 # drop 1 b" using assms by (simp add: Cons_nth_drop_Suc)
  moreover have "drop 1 b = slice 1 (m + 1) b @ drop (m + 1) b" by (simp flip: slice_glue)
  moreover have "drop (m + 1) b = b ! (m + 1) # b ! (m + 2) # drop (m + 3) b"
    using assms by (simp add: Cons_nth_drop_Suc numeral_3_eq_3)
  moreover have "drop (m + 3) b = slice (m + 3) (m + 35) b @ drop (m + 35) b"
    by (simp flip: slice_glue)
  moreover have "drop (m + 35) b = [b ! (length b - 1)]"
    using assms Cons_nth_drop_Suc [of "m + 35" b] by (simp add: add.commute)
  ultimately show ?thesis by (metis append_Cons append_Nil)
qed

lemma csv_key_iff:
  "csv_key b = Some h \<longleftrightarrow>
     (\<exists>seq key. 1 \<le> length seq \<and> length seq \<le> 8 \<and> length key = 32 \<and> h = to_hex key
        \<and> b = word_of_nat (length seq) # seq @ [0xb1, 0x20] @ key @ [0xac])"
  (is "?L \<longleftrightarrow> ?R")
proof
  assume L: ?L
  define m where "m = unat (b ! 0)"
  have h: "1 \<le> m" "m \<le> 8" "length b = m + 36" "b ! (m + 1) = 0xb1" "b ! (m + 2) = 0x20"
    "b ! (length b - 1) = 0xac" "h = to_hex (slice (m + 3) (m + 35) b)"
    using L by (auto simp: csv_key_def m_def Let_def split: if_splits)
  have "length (slice 1 (m + 1) b) = m" "length (slice (m + 3) (m + 35) b) = 32"
    using h(3) by (simp_all add: length_slice)
  moreover have "b ! 0 = word_of_nat m" by (simp add: m_def)
  ultimately show ?R
    using nth_split3 [OF h(3,1)] h
    by (intro exI [of _ "slice 1 (m + 1) b"] exI [of _ "slice (m + 3) (m + 35) b"]) simp
next
  assume ?R
  then show ?L using csv_key_layout by auto
qed

text \<open>The miner a pre-H8 request pays is read from a script exactly when the script
  is the CSV escrow form, a sequence of one to eight bytes and a 32-byte key in the
  escrow opcodes; the key found is the key of the script.\<close>

theorem csv_escrow_pubkey_layout:
  "csv_escrow_pubkey script_hex = Inr (Some h) \<longleftrightarrow>
     (\<exists>seq key. 1 \<le> length seq \<and> length seq \<le> 8 \<and> length key = 32 \<and> h = to_hex key
        \<and> from_hex script_hex
            = Inr (Some (word_of_nat (length seq) # seq @ [0xb1, 0x20] @ key @ [0xac])))"
proof -
  have "csv_escrow_pubkey script_hex = Inr (Some h) \<longleftrightarrow>
      (\<exists>b. from_hex script_hex = Inr (Some b) \<and> csv_key b = Some h)"
    by (auto simp: csv_escrow_pubkey_def split: sum.splits option.splits)
  then show ?thesis unfolding csv_key_iff by auto
qed

text \<open>The payee of an output is unambiguous: a script that names the keyless reward
  vault names no miner in either form, and a CSV escrow script is not a plain pubkey
  script.\<close>

theorem payee_forms_exclusive:
  assumes "from_hex script_hex = Inr (Some b)"
  shows "(is_inference_vault script_hex \<longrightarrow>
           csv_escrow_pubkey script_hex = Inr None \<and> p2pk_pubkey script_hex = Inr None)
    \<and> (csv_escrow_pubkey script_hex = Inr None \<or> p2pk_pubkey script_hex = Inr None)"
proof -
  have vals: "csv_escrow_pubkey script_hex = Inr (csv_key b)"
    "p2pk_pubkey script_hex = Inr (map_option to_hex (match_script [0x20] [0xac] 32 b))"
    using assms by (simp_all add: csv_escrow_pubkey_def p2pk_pubkey_def)
  have "csv_key b = None \<and> match_script [0x20] [0xac] 32 b = None" if "is_inference_vault script_hex"
  proof -
    have "length b = 9" using vault_length [OF that] from_hex_length [OF assms] by simp
    then show ?thesis using csv_key_length match_script_length by fastforce
  qed
  moreover have "csv_key b = None \<or> match_script [0x20] [0xac] 32 b = None"
    using csv_key_head by (fastforce simp: match_script_Some)
  ultimately show ?thesis unfolding vals by auto
qed

theorem payee_forms_exclusive_witness:
  "csv_escrow_pubkey INFERENCE_VAULT_SCRIPT_HEX = Inr None
     \<and> p2pk_pubkey INFERENCE_VAULT_SCRIPT_HEX = Inr None"
proof -
  have "from_hex INFERENCE_VAULT_SCRIPT_HEX
      = Inr (Some [0x6a, 0x07, 0x61, 0x69, 0x76, 0x61, 0x75, 0x6c, 0x74])"
    by code_simp
  from payee_forms_exclusive [OF this] show ?thesis
    by (simp add: is_inference_vault_def eq_ignore_ascii_case_def)
qed

section \<open>Markers and models\<close>

lemma parse_ai_caps_hex64: "m \<in> set (parse_ai_caps p) \<Longrightarrow> is_hex64 m"
  by (auto simp: parse_ai_caps_def split: option.splits)

lemma parse_escrow_pubkey_hex64: "parse_escrow_pubkey p = Some h \<Longrightarrow> is_hex64 h"
  by (auto simp: parse_escrow_pubkey_def Let_def split: option.splits if_splits)

lemma map_option_find_case:
  "to_ascii_lowercase s = to_ascii_lowercase t \<Longrightarrow> model_key s = model_key t"
  by (simp add: model_key_def eq_ignore_ascii_case_def)

lemma model_key_registered:
  "distinct (map (\<lambda>(i, _). to_ascii_lowercase i) ms) \<Longrightarrow> (i, k) \<in> set ms \<Longrightarrow>
     map_option snd (find (\<lambda>(j, _). eq_ignore_ascii_case j i) ms) = Some k"
  by (induction ms) (auto simp: eq_ignore_ascii_case_def rev_image_eqI)

lemma models_distinct: "distinct (map (\<lambda>(i, _). to_ascii_lowercase i) MODELS)"
  by code_simp

text \<open>The model registry is unambiguous and ignores the case of the id: a spelling of
  a registered id in any case resolves to that model's key, and anything that resolves
  is a spelling of a registered id.\<close>

theorem model_key_registry:
  "model_key s = Some k \<longleftrightarrow> (\<exists>i. (i, k) \<in> set MODELS \<and> eq_ignore_ascii_case i s)"
  (is "?L \<longleftrightarrow> ?R")
proof
  assume ?L
  then show ?R unfolding model_key_def by (fastforce simp: find_Some_iff in_set_conv_nth)
next
  assume ?R
  then obtain i where i: "(i, k) \<in> set MODELS" "eq_ignore_ascii_case i s" by blast
  then have "model_key i = Some k"
    unfolding model_key_def using models_distinct by (intro model_key_registered)
  with i(2) show ?L using map_option_find_case [of i s] by (simp add: eq_ignore_ascii_case_def)
qed

end
