(* ===== verification/StoreData.thy ===== *)
theory StoreData
  imports Tables Inference
begin

text \<open>
  The data of \<open>src/indexer/store.rs\<close>: the records the indexer hands in and the rows the
  tables hold, the composite keys, the decoding of rows written by an older release, and
  the database as the record of its tables. A table value is kept as the Rust value that
  \<open>bincode\<close> encodes, so \<open>enc\<close> and \<open>dec\<close> do not appear; a row in the layout of release
  0.3.0 is a constructor of its own.
\<close>

section \<open>What the indexer hands in\<close>

record RawIn =
  ri_previous_tx_id :: string
  ri_previous_index :: u32
  ri_signature_script :: string
  ri_sequence :: u64
  ri_sig_op_count :: u32

record RawOut =
  ro_amount :: u64
  ro_script_version :: u32
  ro_script_public_key :: string

record RawTx =
  rt_tx_id :: string
  rt_is_coinbase :: bool
  rt_version :: u32
  rt_lock_time :: u64
  rt_subnetwork_id :: string
  rt_gas :: u64
  rt_payload :: string
  rt_inputs :: "RawIn list"
  rt_outputs :: "RawOut list"

record AcceptedGroup =
  ag_chain_block_hash :: string
  ag_daa_score :: u64
  ag_txs :: "RawTx list"

section \<open>Rows\<close>

record StoredIn =
  si_previous_tx_id :: string
  si_previous_index :: u32
  si_signature_script :: string
  si_sequence :: u64
  si_sig_op_count :: u32

record StoredOut =
  so_amount :: u64
  so_script_version :: u32
  so_script_public_key :: string

record LedgerEntry =
  le_address :: string
  le_credit :: u64
  le_debit :: u64

record IndexedTx =
  it_tx_num :: u64
  it_tx_id :: string
  it_accepting_block_hash :: string
  it_accepting_daa :: u64
  it_is_coinbase :: bool
  it_version :: u32
  it_lock_time :: u64
  it_subnetwork_id :: string
  it_gas :: u64
  it_payload :: string
  it_inputs :: "StoredIn list"
  it_outputs :: "StoredOut list"
  it_ledger :: "LedgerEntry list"

record HistRow =
  hr_tx_id :: string
  hr_amount_sompi :: u64
  hr_is_spend :: bool
  hr_daa_score :: u64
  hr_block_hash :: string

record AiRequestRec =
  qr_tx_id :: string
  qr_model_id :: string
  qr_max_tokens :: u32
  qr_inference_reward :: u64
  qr_priority_fee :: u64
  qr_prompt :: string
  qr_daa_score :: u64
  qr_block_hash :: string
  qr_request_hash :: string
  qr_miner_pubkey :: "string option"
  qr_private :: bool
  qr_recipient_count :: "u32 option"

record AiRequestRecV1 =
  qv_tx_id :: string
  qv_model_id :: string
  qv_max_tokens :: u32
  qv_inference_reward :: u64
  qv_priority_fee :: u64
  qv_prompt :: string
  qv_daa_score :: u64
  qv_block_hash :: string
  qv_request_hash :: string
  qv_miner_pubkey :: "string option"

definition request_of_V1 :: "AiRequestRecV1 \<Rightarrow> AiRequestRec" where
  "request_of_V1 v =
     \<lparr> qr_tx_id = qv_tx_id v, qr_model_id = qv_model_id v, qr_max_tokens = qv_max_tokens v,
       qr_inference_reward = qv_inference_reward v, qr_priority_fee = qv_priority_fee v,
       qr_prompt = qv_prompt v, qr_daa_score = qv_daa_score v, qr_block_hash = qv_block_hash v,
       qr_request_hash = qv_request_hash v, qr_miner_pubkey = qv_miner_pubkey v,
       qr_private = False, qr_recipient_count = None \<rparr>"

record AiResponseRec =
  pr_cid :: string
  pr_result_block_hash :: string
  pr_response_length :: u32
  pr_daa_score :: u64
  pr_tx_id :: "string option"
  pr_responder_pubkey :: "string option"
  pr_inline_body :: bool

record AiResponseRecV1 =
  pv_cid :: string
  pv_result_block_hash :: string
  pv_response_length :: u32
  pv_daa_score :: u64

definition response_of_V1 :: "AiResponseRecV1 \<Rightarrow> AiResponseRec" where
  "response_of_V1 v =
     \<lparr> pr_cid = pv_cid v, pr_result_block_hash = pv_result_block_hash v,
       pr_response_length = pv_response_length v, pr_daa_score = pv_daa_score v,
       pr_tx_id = None, pr_responder_pubkey = None, pr_inline_body = False \<rparr>"

record InferenceDetail =
  id_request :: AiRequestRec
  id_first_response :: "AiResponseRec option"
  id_responses :: "(IndexedTx \<times> AiResponse) list"

record AiChallengeRec =
  cr_tx_id :: string
  cr_request_hash :: string
  cr_daa_score :: u64

record Capability =
  cp_model_id :: string
  cp_miner_pubkeys :: "string list"
  cp_last_seen_daa :: u64

record Checkpoint =
  ck_chain_block_hash :: string
  ck_daa_score :: u64

record ApplyStats =
  as_applied_blocks :: u64
  as_applied_txs :: u64
  as_total_txs :: u64
  as_checkpoint_daa :: u64

text \<open>A row that is the current layout, or the legacy one.\<close>

datatype ('t, 'l) compat = Current 't | Legacy 'l

primrec dec_compat :: "('l \<Rightarrow> 't) \<Rightarrow> ('t, 'l) compat \<Rightarrow> 't" where
  "dec_compat into (Current r) = r"
| "dec_compat into (Legacy v) = into v"

definition dec_request :: "(AiRequestRec, AiRequestRecV1) compat \<Rightarrow> AiRequestRec" where
  "dec_request = dec_compat request_of_V1"

definition dec_response :: "(AiResponseRec, AiResponseRecV1) compat \<Rightarrow> AiResponseRec" where
  "dec_response = dec_compat response_of_V1"

section \<open>Composite keys\<close>

definition outpoint_key :: "string \<Rightarrow> u32 \<Rightarrow> bytes" where
  "outpoint_key txid index = as_bytes txid @ [0xFF] @ be32 index"

definition hist_key :: "string \<Rightarrow> u64 \<Rightarrow> bytes" where
  "hist_key addr tx_num = as_bytes addr @ [0xFF] @ be64 tx_num"

definition hist_bounds :: "string \<Rightarrow> bytes \<times> bytes" where
  "hist_bounds addr =
     (as_bytes addr @ [0xFF] @ replicate 8 0, as_bytes addr @ [0xFF] @ replicate 8 0xFF)"

definition chain_key :: "u64 \<Rightarrow> string \<Rightarrow> bytes" where
  "chain_key daa hash = be64 daa @ as_bytes hash"

definition resp_list_key :: "string \<Rightarrow> u64 \<Rightarrow> bytes" where
  "resp_list_key rhash tx_num = hist_key rhash tx_num"

definition resp_list_bounds :: "string \<Rightarrow> bytes \<times> bytes" where
  "resp_list_bounds rhash = hist_bounds rhash"

definition resp_list_tx_num :: "bytes \<Rightarrow> u64" where
  "resp_list_tx_num key = u64_of_be (drop (length key - 8) key)"

definition caps_key :: "string \<Rightarrow> string \<Rightarrow> bytes" where
  "caps_key model_id pubkey = as_bytes model_id @ [0xFF] @ as_bytes pubkey"

section \<open>The database\<close>

record db =
  TX :: "(u64, IndexedTx) tab"
  TX_BY_ID :: "(string, u64) tab"
  APPLIED :: "(string, u64) tab"
  ADDR_HISTORY :: "(bytes, HistRow) tab"
  OUTPOINT_SPEND :: "(bytes, u64) tab"
  CHAIN_BY_DAA :: "(bytes, string) tab"
  ADDR_TOTALS :: "(string, u64 \<times> u64) tab"
  ACCEPTED_BY :: "(string, u64 list) tab"
  META :: "(string, u64) tab"
  META_STR :: "(string, string) tab"
  AI_REQ :: "(u64, (AiRequestRec, AiRequestRecV1) compat) tab"
  AI_REQ_BY_HASH :: "(string, u64) tab"
  AI_RESP :: "(string, (AiResponseRec, AiResponseRecV1) compat) tab"
  AI_RESP_LIST :: "(bytes, unit) tab"
  AI_RESP_HASH :: "(string, string) tab"
  AI_CHAL :: "(u64, AiChallengeRec) tab"
  AI_CAPS :: "(bytes, u64) tab"

definition SCHEMA_VERSION :: u64 where
  "SCHEMA_VERSION = 1"

definition empty_db :: db where
  "empty_db = \<lparr> TX = [], TX_BY_ID = [], APPLIED = [], ADDR_HISTORY = [], OUTPOINT_SPEND = [],
     CHAIN_BY_DAA = [], ADDR_TOTALS = [], ACCEPTED_BY = [], META = [], META_STR = [],
     AI_REQ = [], AI_REQ_BY_HASH = [], AI_RESP = [], AI_RESP_LIST = [], AI_RESP_HASH = [],
     AI_CHAL = [], AI_CAPS = [] \<rparr>"

definition meta_u64 :: "db \<Rightarrow> string \<Rightarrow> u64" where
  "meta_u64 d k = (case tab_get (META d) k of Some v \<Rightarrow> v | None \<Rightarrow> 0)"

section \<open>The keys keep their parts apart\<close>

lemma append_eq_suffix:
  "length s = length t \<Longrightarrow> xs @ [z] @ s = ys @ [z] @ t \<longleftrightarrow> xs = ys \<and> s = t"
  by (metis append.assoc append_eq_append_conv length_append_singleton same_append_eq append_same_eq)

lemma outpoint_key_inject [simp, key_simps]:
  "outpoint_key a i = outpoint_key b j \<longleftrightarrow> a = b \<and> i = j"
  unfolding outpoint_key_def by (simp add: append_eq_suffix del: append.append_Cons)

lemma hist_key_inject [simp, key_simps]:
  "hist_key a m = hist_key b n \<longleftrightarrow> a = b \<and> m = n"
  unfolding hist_key_def by (simp add: append_eq_suffix del: append.append_Cons)

lemma resp_list_key_inject [simp, key_simps]:
  "resp_list_key a m = resp_list_key b n \<longleftrightarrow> a = b \<and> m = n"
  by (simp add: resp_list_key_def)

lemma resp_list_tx_num_key [simp, key_simps]: "resp_list_tx_num (resp_list_key a n) = n"
  by (simp add: resp_list_tx_num_def resp_list_key_def hist_key_def)

lemma chain_key_inject [simp, key_simps]:
  "chain_key d h = chain_key e g \<longleftrightarrow> d = e \<and> h = g"
  unfolding chain_key_def by (simp add: append_eq_append_conv)

lemma chain_key_daa [simp, key_simps]: "u64_of_be (take 8 (chain_key d h)) = d"
  by (simp add: chain_key_def)

lemma lex_append_left: "xs < ys \<Longrightarrow> length xs = length ys \<Longrightarrow> xs @ us < ys @ vs"
  for xs ys :: "'a::linorder list"
proof (induction xs arbitrary: ys)
  case Nil
  then show ?case by simp
next
  case (Cons x xs)
  then show ?case by (cases ys) auto
qed

lemma chain_key_less: "d < e \<Longrightarrow> chain_key d h < chain_key e g"
  unfolding chain_key_def by (rule lex_append_left) simp_all

lemma chain_key_le_daa: "chain_key d h \<le> chain_key e g \<Longrightarrow> d \<le> e"
  using chain_key_less [of e d g h] by (meson leD leI)

text \<open>No Rust string holds the byte FF: it occurs in no UTF-8 sequence.\<close>

definition utf8_str :: "string \<Rightarrow> bool" where
  "utf8_str s = utf8_valid (as_bytes s)"

lemma utf8_str_no_FF: "utf8_str s \<Longrightarrow> 0xFF \<notin> set (as_bytes s)"
  by (simp add: utf8_str_def utf8_no_FF)

lemma u8_less_FF: "b \<noteq> 0xFF \<Longrightarrow> b < 0xFF" for b :: u8
proof -
  assume "b \<noteq> 0xFF"
  moreover have "b \<le> 0xFF" using unat_u8_bound [of b] by (simp add: word_le_nat_alt)
  ultimately show ?thesis by simp
qed

lemma separated_between:
  assumes "0xFF \<notin> set a" "0xFF \<notin> set b" "length lo = length m" "length hi = length m"
    and "a @ 0xFF # lo \<le> b @ 0xFF # m" "b @ 0xFF # m \<le> a @ 0xFF # hi"
  shows "a = (b :: bytes)"
  using assms
proof (induction a arbitrary: b)
  case Nil
  then show ?case by (cases b) (auto dest: u8_less_FF)
next
  case (Cons x a)
  show ?case
  proof (cases b)
    case Nil
    then show ?thesis using Cons.prems by (auto dest: u8_less_FF)
  next
    case (Cons y b')
    then show ?thesis using Cons.prems Cons.IH [of b'] by (auto dest: less_asym)
  qed
qed

lemma caps_key_inject [key_simps]:
  assumes "utf8_str m" "utf8_str m'"
  shows "caps_key m p = caps_key m' p' \<longleftrightarrow> m = m' \<and> p = p'"
proof
  assume eq: "caps_key m p = caps_key m' p'"
  have nf: "0xFF \<notin> set (as_bytes m)" "0xFF \<notin> set (as_bytes m')"
    using assms by (simp_all add: utf8_str_no_FF)
  have tw: "takeWhile (\<lambda>b. b \<noteq> 0xFF) (caps_key n q) = as_bytes n"
    if "0xFF \<notin> set (as_bytes n)" for n q
    using that by (auto simp: caps_key_def takeWhile_tail)
  have "as_bytes m = as_bytes m'" using tw [OF nf(1)] tw [OF nf(2)] eq by metis
  then show "m = m' \<and> p = p'" using eq by (simp add: caps_key_def)
qed simp

section \<open>Keys that range-scan by owner\<close>

text \<open>
  The contract of a key that joins an owner with a transaction number: a scan between the
  owner's bounds visits the rows of that owner and no other, in the order of the numbers.
\<close>

locale range_key =
  fixes key :: "string \<Rightarrow> u64 \<Rightarrow> bytes"
    and bounds :: "string \<Rightarrow> bytes \<times> bytes"
  assumes key_inj: "key a m = key b n \<longleftrightarrow> a = b \<and> m = n"
    and key_mono: "key a m < key a n \<longleftrightarrow> m < n"
    and key_between: "utf8_str a \<Longrightarrow> utf8_str b \<Longrightarrow>
      fst (bounds a) \<le> key b n \<and> key b n \<le> snd (bounds a) \<longleftrightarrow> a = b"
begin

lemma scan_rows:
  assumes "tab_ok t" "utf8_str a" "\<And>k. k \<in> fst ` set t \<Longrightarrow> \<exists>b n. utf8_str b \<and> k = key b n"
  shows "(k, v) \<in> set (tab_range (fst (bounds a)) (snd (bounds a)) t) \<longleftrightarrow>
    (\<exists>n. k = key a n \<and> tab_get t k = Some v)"
proof -
  have mem: "(k, v) \<in> set t \<longleftrightarrow> tab_get t k = Some v" using assms(1) by (rule tab_get_set)
  show ?thesis
  proof
    assume "(k, v) \<in> set (tab_range (fst (bounds a)) (snd (bounds a)) t)"
    then have k: "(k, v) \<in> set t" "fst (bounds a) \<le> k" "k \<le> snd (bounds a)"
      by (simp_all add: tab_range_def)
    from k(1) assms(3) [of k] obtain b n where b: "utf8_str b" "k = key b n" by force
    then have "a = b" using k(2,3) key_between [OF assms(2) b(1), of n] by simp
    then show "\<exists>n. k = key a n \<and> tab_get t k = Some v" using b(2) k(1) mem by auto
  next
    assume "\<exists>n. k = key a n \<and> tab_get t k = Some v"
    then show "(k, v) \<in> set (tab_range (fst (bounds a)) (snd (bounds a)) t)"
      using mem key_between [OF assms(2,2)] by (auto simp: tab_range_def)
  qed
qed

lemma scan_in_order:
  assumes "tab_ok t" "utf8_str a" "\<And>k. k \<in> fst ` set t \<Longrightarrow> \<exists>b n. utf8_str b \<and> k = key b n"
  shows "\<exists>ns. sorted_wrt (<) ns \<and> set ns = {n. tab_get t (key a n) \<noteq> None}
    \<and> tab_range (fst (bounds a)) (snd (bounds a)) t = map (\<lambda>n. (key a n, the (tab_get t (key a n)))) ns"
proof -
  let ?r = "tab_range (fst (bounds a)) (snd (bounds a)) t"
  define num where "num k = (THE n. k = key a n)" for k
  have num: "num (key a n) = n" for n unfolding num_def by (auto simp: key_inj)
  have row: "\<exists>n. p = (key a n, the (tab_get t (key a n)))" if "p \<in> set ?r" for p
  proof -
    obtain n where "fst p = key a n" "tab_get t (fst p) = Some (snd p)"
      using \<open>p \<in> set ?r\<close> scan_rows [OF assms(1,2,3), of "fst p" "snd p"] by auto
    then show ?thesis by (intro exI [of _ n] prod_eqI) simp_all
  qed
  let ?ns = "map (num \<circ> fst) ?r"
  have r: "?r = map (\<lambda>n. (key a n, the (tab_get t (key a n)))) ?ns"
    unfolding map_map by (rule map_idI [symmetric]) (use row num in fastforce)
  have "sorted_wrt (<) (map fst ?r)" using assms(1) tab_ok_range unfolding tab_ok_def by blast
  then have "sorted_wrt (<) ?ns"
    unfolding sorted_wrt_map comp_def
  proof (rule sorted_wrt_mono_rel [rotated])
    fix p q assume "p \<in> set ?r" "q \<in> set ?r" "fst p < fst q"
    then show "num (fst p) < num (fst q)" using row [of p] row [of q] by (auto simp: num key_mono)
  qed
  moreover have "set ?ns = {n. tab_get t (key a n) \<noteq> None}"
  proof (intro set_eqI iffI)
    fix n assume "n \<in> set ?ns"
    then obtain p where "p \<in> set ?r" "n = num (fst p)" by auto
    then show "n \<in> {n. tab_get t (key a n) \<noteq> None}"
      using scan_rows [OF assms(1,2,3), of "fst p" "snd p"] num by auto
  next
    fix n assume "n \<in> {n. tab_get t (key a n) \<noteq> None}"
    then obtain v where "tab_get t (key a n) = Some v" by auto
    then have "(key a n, v) \<in> set ?r" using scan_rows [OF assms(1,2,3)] by blast
    then show "n \<in> set ?ns" using num [of n] by force
  qed
  ultimately show ?thesis using r by blast
qed

end

lemma hist_key_mono: "hist_key a m < hist_key a n \<longleftrightarrow> m < n"
proof -
  have "xs @ us < xs @ vs \<longleftrightarrow> us < vs" for xs us vs :: bytes by (induction xs) auto
  then show ?thesis by (simp add: hist_key_def)
qed

lemma lex_le_append: "us \<le> vs \<Longrightarrow> xs @ us \<le> xs @ vs" for xs us vs :: bytes
  by (induction xs) auto

lemma lex_zeros: "length ys = k \<Longrightarrow> replicate k 0 \<le> ys" for ys :: bytes
proof (induction ys arbitrary: k)
  case (Cons y ys)
  then show ?case using word_zero_le [of y] by (cases "y = 0") (auto simp: word_neq_0_conv)
qed simp

lemma lex_ones: "length ys = k \<Longrightarrow> ys \<le> replicate k 0xFF" for ys :: bytes
proof (induction ys arbitrary: k)
  case (Cons y ys)
  then show ?case using u8_less_FF [of y] by (cases "y = 0xFF") auto
qed simp

lemma hist_key_between:
  assumes "utf8_str a" "utf8_str b"
  shows "fst (hist_bounds a) \<le> hist_key b n \<and> hist_key b n \<le> snd (hist_bounds a) \<longleftrightarrow> a = b"
proof
  assume "fst (hist_bounds a) \<le> hist_key b n \<and> hist_key b n \<le> snd (hist_bounds a)"
  then have "as_bytes a = as_bytes b"
    using assms [THEN utf8_str_no_FF]
    by (intro separated_between [of "as_bytes a" "as_bytes b" "replicate 8 0" "be64 n" "replicate 8 0xFF"])
      (simp_all add: hist_bounds_def hist_key_def)
  then show "a = b" by simp
next
  assume "a = b"
  then show "fst (hist_bounds a) \<le> hist_key b n \<and> hist_key b n \<le> snd (hist_bounds a)"
    using lex_zeros [of "be64 n" 8] lex_ones [of "be64 n" 8]
    by (auto simp: hist_bounds_def hist_key_def intro!: lex_le_append)
qed

interpretation hist: range_key hist_key hist_bounds
  by unfold_locales (simp_all add: hist_key_mono hist_key_between)

interpretation resp: range_key resp_list_key resp_list_bounds
  by unfold_locales
    (simp_all add: resp_list_key_def resp_list_bounds_def hist_key_mono hist_key_between)

end
