(* ===== verification/StoreWrite.thy ===== *)
theory StoreWrite
  imports StoreData
begin

text \<open>
  The write operations of \<open>src/indexer/store.rs\<close>: opening the database, applying accepted
  groups, unwinding a chain block, moving the checkpoint and the retention sweep. Each is
  one redb write transaction: it returns its result with the database after it, which is
  the database before it when the operation fails. The argument \<open>io\<close> is the storage
  error redb reports during the transaction, if it reports one.
\<close>

section \<open>Opening\<close>

definition store_open :: "StoreError option \<Rightarrow> db \<Rightarrow> unit res \<times> db" where
  "store_open io d =
     (case io of
        Some e \<Rightarrow> (Inl (Err e), d)
      | None \<Rightarrow>
          (Inr (),
           if tab_get (META d) ''schema'' = None
           then d\<lparr> META := tab_insert ''schema'' SCHEMA_VERSION (META d) \<rparr> else d))"

section \<open>Per-address credit and debit\<close>

text \<open>\<open>HashMap::entry(a).or_default()\<close>, updated in place; a new key goes last.\<close>

fun acc_entry ::
  "string \<Rightarrow> (u64 \<times> u64 \<Rightarrow> u64 \<times> u64) \<Rightarrow> (string \<times> u64 \<times> u64) list \<Rightarrow> (string \<times> u64 \<times> u64) list"
where
  "acc_entry a f [] = [(a, f (0, 0))]"
| "acc_entry a f ((b, p) # acc) = (if a = b then (b, f p) # acc else (b, p) # acc_entry a f acc)"

definition credit_output ::
  "string \<Rightarrow> RawOut \<Rightarrow> (string \<times> u64 \<times> u64) list \<Rightarrow> (string \<times> u64 \<times> u64) list res" where
  "credit_output prefix out acc =
     bind_res (script_to_address (ro_script_public_key out) prefix) (\<lambda>addr.
       Inr (case addr of
              None \<Rightarrow> acc
            | Some a \<Rightarrow> acc_entry a (\<lambda>(c, d). (c + ro_amount out, d)) acc))"

definition debit_output ::
  "string \<Rightarrow> StoredOut \<Rightarrow> (string \<times> u64 \<times> u64) list \<Rightarrow> (string \<times> u64 \<times> u64) list res" where
  "debit_output prefix out acc =
     bind_res (script_to_address (so_script_public_key out) prefix) (\<lambda>addr.
       Inr (case addr of
              None \<Rightarrow> acc
            | Some a \<Rightarrow> acc_entry a (\<lambda>(c, d). (c, d + so_amount out)) acc))"

definition nth_opt :: "'a list \<Rightarrow> nat \<Rightarrow> 'a option" where
  "nth_opt xs i = (if i < length xs then Some (xs ! i) else None)"

definition debit_input ::
  "string \<Rightarrow> (string, u64) tab \<Rightarrow> (u64, IndexedTx) tab \<Rightarrow> RawIn
     \<Rightarrow> (string \<times> u64 \<times> u64) list \<Rightarrow> (string \<times> u64 \<times> u64) list res" where
  "debit_input prefix txid_t tx_t inp acc =
     (case tab_get txid_t (ri_previous_tx_id inp) of
        None \<Rightarrow> Inr acc
      | Some tx_num \<Rightarrow>
          (case tab_get tx_t tx_num of
             None \<Rightarrow> Inr acc
           | Some funding \<Rightarrow>
               (case nth_opt (it_outputs funding) (unat (ri_previous_index inp)) of
                  None \<Rightarrow> Inr acc
                | Some out \<Rightarrow> debit_output prefix out acc)))"

definition compute_ledger ::
  "ext \<Rightarrow> RawTx \<Rightarrow> string \<Rightarrow> (string, u64) tab \<Rightarrow> (u64, IndexedTx) tab \<Rightarrow> LedgerEntry list res"
where
  "compute_ledger e raw prefix txid_t tx_t =
     bind_res (fold_res (credit_output prefix) (rt_outputs raw) []) (\<lambda>acc.
     bind_res (if rt_is_coinbase raw then Inr acc
               else fold_res (debit_input prefix txid_t tx_t) (rt_inputs raw) acc) (\<lambda>acc.
       Inr (map (\<lambda>(a, c, d). \<lparr> le_address = a, le_credit = c, le_debit = d \<rparr>)
              (ledger_order e acc))))"

definition build_indexed :: "RawTx \<Rightarrow> u64 \<Rightarrow> AcceptedGroup \<Rightarrow> LedgerEntry list \<Rightarrow> IndexedTx" where
  "build_indexed raw tx_num grp ledger =
     \<lparr> it_tx_num = tx_num, it_tx_id = rt_tx_id raw,
       it_accepting_block_hash = ag_chain_block_hash grp, it_accepting_daa = ag_daa_score grp,
       it_is_coinbase = rt_is_coinbase raw, it_version = rt_version raw,
       it_lock_time = rt_lock_time raw, it_subnetwork_id = rt_subnetwork_id raw,
       it_gas = rt_gas raw, it_payload = rt_payload raw,
       it_inputs = map (\<lambda>i. \<lparr> si_previous_tx_id = ri_previous_tx_id i,
                             si_previous_index = ri_previous_index i,
                             si_signature_script = ri_signature_script i,
                             si_sequence = ri_sequence i,
                             si_sig_op_count = ri_sig_op_count i \<rparr>) (rt_inputs raw),
       it_outputs = map (\<lambda>out. \<lparr> so_amount = ro_amount out,
                                so_script_version = ro_script_version out,
                                so_script_public_key = ro_script_public_key out \<rparr>)
                      (rt_outputs raw),
       it_ledger = ledger \<rparr>"

definition read_totals :: "(string, u64 \<times> u64) tab \<Rightarrow> string \<Rightarrow> u64 \<times> u64" where
  "read_totals t addr = (case tab_get t addr of Some p \<Rightarrow> p | None \<Rightarrow> (0, 0))"

section \<open>Indexing one transaction\<close>

text \<open>The difference of two amounts as an \<open>i64\<close>, and its \<open>unsigned_abs\<close>.\<close>

definition net_i64 :: "u64 \<Rightarrow> u64 \<Rightarrow> int" where
  "net_i64 credit debit = sint (credit - debit)"

definition unsigned_abs :: "int \<Rightarrow> u64" where
  "unsigned_abs n = word_of_int \<bar>n\<bar>"

definition hist_row :: "RawTx \<Rightarrow> AcceptedGroup \<Rightarrow> LedgerEntry \<Rightarrow> HistRow" where
  "hist_row raw grp e =
     (let net = net_i64 (le_credit e) (le_debit e)
      in \<lparr> hr_tx_id = rt_tx_id raw, hr_amount_sompi = unsigned_abs net, hr_is_spend = (net < 0),
           hr_daa_score = ag_daa_score grp, hr_block_hash = ag_chain_block_hash grp \<rparr>)"

definition index_entry :: "RawTx \<Rightarrow> AcceptedGroup \<Rightarrow> u64 \<Rightarrow> LedgerEntry \<Rightarrow> db \<Rightarrow> db" where
  "index_entry raw grp tx_num e d =
     (let (recv, cnt) = read_totals (ADDR_TOTALS d) (le_address e)
      in d\<lparr> ADDR_HISTORY :=
              tab_insert (hist_key (le_address e) tx_num) (hist_row raw grp e) (ADDR_HISTORY d),
            ADDR_TOTALS :=
              tab_insert (le_address e) (recv + le_credit e, cnt + 1) (ADDR_TOTALS d) \<rparr>)"

definition index_spend :: "u64 \<Rightarrow> RawIn \<Rightarrow> db \<Rightarrow> db" where
  "index_spend tx_num inp d =
     d\<lparr> OUTPOINT_SPEND :=
          tab_insert (outpoint_key (ri_previous_tx_id inp) (ri_previous_index inp)) tx_num
            (OUTPOINT_SPEND d) \<rparr>"

definition index_ledger :: "RawTx \<Rightarrow> AcceptedGroup \<Rightarrow> u64 \<Rightarrow> LedgerEntry list \<Rightarrow> db \<Rightarrow> db" where
  "index_ledger raw grp tx_num ledger d =
     (let itx = build_indexed raw tx_num grp ledger;
          d = d\<lparr> TX := tab_insert tx_num itx (TX d),
                 TX_BY_ID := tab_insert (rt_tx_id raw) tx_num (TX_BY_ID d) \<rparr>;
          d = (if rt_is_coinbase raw then d else fold (index_spend tx_num) (rt_inputs raw) d)
      in fold (index_entry raw grp tx_num) (it_ledger itx) d)"

section \<open>The inference tables\<close>

record applying =
  ap_db :: db
  ap_next_tx_num :: u64
  ap_total_txs :: u64
  ap_ai_req_seq :: u64
  ap_ai_chal_seq :: u64
  ap_checkpoint :: "(string \<times> u64) option"
  ap_stats :: ApplyStats

definition request_rec ::
  "RawTx \<Rightarrow> AcceptedGroup \<Rightarrow> AiRequest \<Rightarrow> string \<Rightarrow> string option \<Rightarrow> AiRequestRec" where
  "request_rec raw grp req rhash miner =
     \<lparr> qr_tx_id = rt_tx_id raw, qr_model_id = rq_model_id req,
       qr_max_tokens = rq_max_tokens req, qr_inference_reward = rq_inference_reward req,
       qr_priority_fee = rq_priority_fee req, qr_prompt = rq_prompt req,
       qr_daa_score = ag_daa_score grp, qr_block_hash = ag_chain_block_hash grp,
       qr_request_hash = rhash, qr_miner_pubkey = miner, qr_private = rq_private req,
       qr_recipient_count = rq_recipient_count req \<rparr>"

definition request_routed :: "RawTx \<Rightarrow> bool" where
  "request_routed raw =
     (case nth_opt (rt_outputs raw) 1 of
        None \<Rightarrow> False
      | Some out \<Rightarrow> ro_script_version out = 0 \<and> is_inference_vault (ro_script_public_key out))"

definition request_miner :: "RawTx \<Rightarrow> string option res" where
  "request_miner raw =
     (case nth_opt (rt_outputs raw) 1 of
        None \<Rightarrow> Inr None
      | Some out \<Rightarrow>
          if request_routed raw then Inr None else csv_escrow_pubkey (ro_script_public_key out))"

definition index_request :: "ext \<Rightarrow> AcceptedGroup \<Rightarrow> RawTx \<Rightarrow> applying \<Rightarrow> applying res" where
  "index_request e grp raw st =
     bind_res (from_hex (rt_payload raw)) (\<lambda>bs.
       (case bs of
          None \<Rightarrow> Inr st
        | Some bytes \<Rightarrow>
            (case decode_request bytes of
               None \<Rightarrow> Inr st
             | Some req \<Rightarrow>
                 bind_res (request_miner raw) (\<lambda>miner.
                   (let rhash = request_identity e (rt_tx_id raw) bytes (request_routed raw);
                        d = ap_db st; seq = ap_ai_req_seq st
                    in if tab_get (AI_REQ_BY_HASH d) rhash \<noteq> None then Inr st
                       else Inr (st\<lparr> ap_db :=
                              d\<lparr> AI_REQ := tab_insert seq
                                   (Current (request_rec raw grp req rhash miner)) (AI_REQ d),
                                 AI_REQ_BY_HASH := tab_insert (rt_tx_id raw) seq
                                   (tab_insert rhash seq (AI_REQ_BY_HASH d)) \<rparr>,
                              ap_ai_req_seq := seq + 1 \<rparr>))))))"

definition response_rec :: "RawTx \<Rightarrow> AcceptedGroup \<Rightarrow> AiResponse \<Rightarrow> AiResponseRec" where
  "response_rec raw grp resp =
     \<lparr> pr_cid = rs_cid resp, pr_result_block_hash = ag_chain_block_hash grp,
       pr_response_length = rs_response_length resp, pr_daa_score = ag_daa_score grp,
       pr_tx_id = Some (rt_tx_id raw), pr_responder_pubkey = rs_responder_pubkey resp,
       pr_inline_body = (rs_private_body resp \<noteq> None) \<rparr>"

definition index_response ::
  "ext \<Rightarrow> AcceptedGroup \<Rightarrow> RawTx \<Rightarrow> u64 \<Rightarrow> applying \<Rightarrow> applying res" where
  "index_response e grp raw tx_num st =
     bind_res (from_hex (rt_payload raw)) (\<lambda>bs.
       (case bs of
          None \<Rightarrow> Inr st
        | Some bytes \<Rightarrow>
            (case decode_response e bytes of
               None \<Rightarrow> Inr st
             | Some resp \<Rightarrow>
                 (let resp_hash = request_hash e bytes; rhash = rs_request_hash resp; d = ap_db st;
                      d = d\<lparr> AI_RESP_LIST :=
                               tab_insert (resp_list_key rhash tx_num) () (AI_RESP_LIST d) \<rparr>;
                      d = (if tab_get (AI_RESP d) rhash = None
                           then d\<lparr> AI_RESP := tab_insert rhash (Current (response_rec raw grp resp))
                                    (AI_RESP d) \<rparr>
                           else d)
                  in Inr (st\<lparr> ap_db :=
                       d\<lparr> AI_RESP_HASH := tab_insert resp_hash rhash (AI_RESP_HASH d) \<rparr> \<rparr>)))))"

text \<open>
  The lookup of a challenge's response hash (\<open>.ok().flatten()\<close>) takes a storage error for a
  missing entry; storage errors inside a write are the one argument \<open>io\<close> of the whole
  transaction, so only the missing entry is a branch here.
\<close>

definition index_challenge :: "AcceptedGroup \<Rightarrow> RawTx \<Rightarrow> applying \<Rightarrow> applying res" where
  "index_challenge grp raw st =
     bind_res (from_hex (rt_payload raw)) (\<lambda>bs.
       (case bs of
          None \<Rightarrow> Inr st
        | Some bytes \<Rightarrow>
            (case decode_challenge bytes of
               None \<Rightarrow> Inr st
             | Some chal \<Rightarrow>
                 (let d = ap_db st; seq = ap_ai_chal_seq st;
                      rhash = (case ch_request_hash chal of
                                 Some h \<Rightarrow> h
                               | None \<Rightarrow>
                                   (case tab_get (AI_RESP_HASH d) (ch_response_hash chal) of
                                      Some h \<Rightarrow> h | None \<Rightarrow> []));
                      rec = \<lparr> cr_tx_id = rt_tx_id raw, cr_request_hash = rhash,
                              cr_daa_score = ag_daa_score grp \<rparr>
                  in Inr (st\<lparr> ap_db := d\<lparr> AI_CHAL := tab_insert seq rec (AI_CHAL d) \<rparr>,
                              ap_ai_chal_seq := seq + 1 \<rparr>)))))"

definition index_subnetwork ::
  "ext \<Rightarrow> AcceptedGroup \<Rightarrow> RawTx \<Rightarrow> u64 \<Rightarrow> applying \<Rightarrow> applying res" where
  "index_subnetwork e grp raw tx_num st =
     (if rt_subnetwork_id raw = SUBNET_AI_REQUEST then index_request e grp raw st
      else if rt_subnetwork_id raw = SUBNET_AI_RESPONSE then index_response e grp raw tx_num st
      else if rt_subnetwork_id raw = SUBNET_AI_CHALLENGE then index_challenge grp raw st
      else Inr st)"

definition caps_pubkey :: "RawTx \<Rightarrow> bytes \<Rightarrow> string option res" where
  "caps_pubkey raw bytes =
     (case parse_escrow_pubkey bytes of
        Some pk \<Rightarrow> Inr (Some pk)
      | None \<Rightarrow>
          (case rt_outputs raw of
             [] \<Rightarrow> Inr None
           | out # _ \<Rightarrow> p2pk_pubkey (ro_script_public_key out)))"

definition index_caps :: "AcceptedGroup \<Rightarrow> RawTx \<Rightarrow> applying \<Rightarrow> applying res" where
  "index_caps grp raw st =
     (if \<not> rt_is_coinbase raw then Inr st
      else
        bind_res (from_hex (rt_payload raw)) (\<lambda>bs.
          (case bs of
             None \<Rightarrow> Inr st
           | Some bytes \<Rightarrow>
               (let models = parse_ai_caps bytes
                in if models = [] then Inr st
                   else
                     bind_res (caps_pubkey raw bytes) (\<lambda>pubkey.
                       (case pubkey of
                          None \<Rightarrow> Inr st
                        | Some pk \<Rightarrow>
                            Inr (st\<lparr> ap_db := (ap_db st)\<lparr> AI_CAPS :=
                              fold (\<lambda>m. tab_insert (caps_key m pk) (ag_daa_score grp)) models
                                (AI_CAPS (ap_db st)) \<rparr> \<rparr>)))))))"

section \<open>Applying groups\<close>

definition apply_tx ::
  "ext \<Rightarrow> string \<Rightarrow> AcceptedGroup \<Rightarrow> RawTx \<Rightarrow> u64 list \<times> applying \<Rightarrow> (u64 list \<times> applying) res" where
  "apply_tx e prefix grp raw ns_st =
     (let (tx_nums, st) = ns_st; tx_num = ap_next_tx_num st;
          st = st\<lparr> ap_next_tx_num := tx_num + 1 \<rparr>
      in
        bind_res (compute_ledger e raw prefix (TX_BY_ID (ap_db st)) (TX (ap_db st))) (\<lambda>ledger.
        bind_res (index_subnetwork e grp raw tx_num
                   (st\<lparr> ap_db := index_ledger raw grp tx_num ledger (ap_db st) \<rparr>)) (\<lambda>st.
        bind_res (index_caps grp raw st) (\<lambda>st.
          Inr (tx_nums @ [tx_num],
               st\<lparr> ap_total_txs := ap_total_txs st + 1,
                   ap_stats := (ap_stats st)\<lparr> as_applied_txs := as_applied_txs (ap_stats st) + 1 \<rparr> \<rparr>)))))"

definition close_group :: "AcceptedGroup \<Rightarrow> u64 list \<Rightarrow> applying \<Rightarrow> applying" where
  "close_group grp tx_nums st =
     (let d = ap_db st; h = ag_chain_block_hash grp; daa = ag_daa_score grp
      in st\<lparr> ap_db := d\<lparr> ACCEPTED_BY := tab_insert h tx_nums (ACCEPTED_BY d),
                         APPLIED := tab_insert h daa (APPLIED d),
                         CHAIN_BY_DAA := tab_insert (chain_key daa h) h (CHAIN_BY_DAA d) \<rparr>,
             ap_checkpoint := Some (h, daa),
             ap_stats := (ap_stats st)\<lparr> as_applied_blocks := as_applied_blocks (ap_stats st) + 1 \<rparr> \<rparr>)"

definition apply_group :: "ext \<Rightarrow> string \<Rightarrow> AcceptedGroup \<Rightarrow> applying \<Rightarrow> applying res" where
  "apply_group e prefix grp st =
     (if tab_get (APPLIED (ap_db st)) (ag_chain_block_hash grp) \<noteq> None then Inr st
      else
        bind_res (fold_res (apply_tx e prefix grp) (ag_txs grp) ([], st)) (\<lambda>(tx_nums, st).
          Inr (close_group grp tx_nums st)))"

definition begin_apply :: "db \<Rightarrow> applying" where
  "begin_apply d =
     \<lparr> ap_db = d, ap_next_tx_num = meta_u64 d ''next_tx_num'',
       ap_total_txs = meta_u64 d ''total_txs'', ap_ai_req_seq = meta_u64 d ''ai_req_seq'',
       ap_ai_chal_seq = meta_u64 d ''ai_chal_seq'', ap_checkpoint = None,
       ap_stats = \<lparr> as_applied_blocks = 0, as_applied_txs = 0, as_total_txs = 0,
                    as_checkpoint_daa = 0 \<rparr> \<rparr>"

definition finish_apply :: "applying \<Rightarrow> ApplyStats \<times> db" where
  "finish_apply st =
     (let d = ap_db st;
          d = d\<lparr> META := tab_insert ''ai_chal_seq'' (ap_ai_chal_seq st)
                   (tab_insert ''ai_req_seq'' (ap_ai_req_seq st)
                   (tab_insert ''total_txs'' (ap_total_txs st)
                   (tab_insert ''next_tx_num'' (ap_next_tx_num st) (META d)))) \<rparr>;
          stats = ap_stats st;
          (stats, d) =
            (case ap_checkpoint st of
               None \<Rightarrow> (stats, d)
             | Some (hash, daa) \<Rightarrow>
                 (stats\<lparr> as_checkpoint_daa := daa \<rparr>,
                  d\<lparr> META_STR := tab_insert ''checkpoint_hash'' hash (META_STR d),
                     META := tab_insert ''checkpoint_daa'' daa (META d) \<rparr>))
      in (stats\<lparr> as_total_txs := ap_total_txs st \<rparr>, d))"

definition store_apply ::
  "StoreError option \<Rightarrow> ext \<Rightarrow> string \<Rightarrow> AcceptedGroup list \<Rightarrow> db \<Rightarrow> ApplyStats res \<times> db" where
  "store_apply io e prefix groups d =
     (case io of
        Some err \<Rightarrow> (Inl (Err err), d)
      | None \<Rightarrow>
          (case fold_res (apply_group e prefix) groups (begin_apply d) of
             Inl f \<Rightarrow> (Inl f, d)
           | Inr st \<Rightarrow> (let (stats, d') = finish_apply st in (Inr stats, d'))))"

section \<open>Unwinding a chain block\<close>

definition saturating_sub :: "'a::len word \<Rightarrow> 'a word \<Rightarrow> 'a word" where
  "saturating_sub a b = (if b \<le> a then a - b else 0)"

definition unwind_entry :: "u64 \<Rightarrow> LedgerEntry \<Rightarrow> db \<Rightarrow> db" where
  "unwind_entry tx_num e d =
     (let (recv, cnt) = read_totals (ADDR_TOTALS d) (le_address e);
          recv = saturating_sub recv (le_credit e);
          cnt = saturating_sub cnt 1
      in d\<lparr> ADDR_HISTORY := tab_remove (hist_key (le_address e) tx_num) (ADDR_HISTORY d),
            ADDR_TOTALS :=
              (if recv = 0 \<and> cnt = 0 then tab_remove (le_address e) (ADDR_TOTALS d)
               else tab_insert (le_address e) (recv, cnt) (ADDR_TOTALS d)) \<rparr>)"

definition remove_spend :: "StoredIn \<Rightarrow> db \<Rightarrow> db" where
  "remove_spend inp d =
     d\<lparr> OUTPOINT_SPEND :=
          tab_remove (outpoint_key (si_previous_tx_id inp) (si_previous_index inp))
            (OUTPOINT_SPEND d) \<rparr>"

definition unwind_row :: "u64 \<Rightarrow> IndexedTx \<Rightarrow> db \<Rightarrow> db" where
  "unwind_row tx_num itx d =
     (let d = fold (unwind_entry tx_num) (it_ledger itx) d;
          d = (if it_is_coinbase itx then d else fold remove_spend (it_inputs itx) d)
      in d\<lparr> TX := tab_remove tx_num (TX d), TX_BY_ID := tab_remove (it_tx_id itx) (TX_BY_ID d) \<rparr>)"

definition unwind_tx :: "u64 \<Rightarrow> db \<times> u64 \<times> u64 \<Rightarrow> db \<times> u64 \<times> u64" where
  "unwind_tx tx_num st =
     (let (d, total_txs, removed) = st
      in case tab_get (TX d) tx_num of
           None \<Rightarrow> st
         | Some itx \<Rightarrow> (unwind_row tx_num itx d, saturating_sub total_txs 1, removed + 1))"

definition unwind_chain_block :: "StoreError option \<Rightarrow> string \<Rightarrow> db \<Rightarrow> u64 res \<times> db" where
  "unwind_chain_block io hash d =
     (case io of
        Some err \<Rightarrow> (Inl (Err err), d)
      | None \<Rightarrow>
          (case tab_get (ACCEPTED_BY d) hash of
             None \<Rightarrow> (Inr 0, d)
           | Some tx_nums \<Rightarrow>
               (let daa = tab_get (APPLIED d) hash;
                    (d, total_txs, removed) =
                      fold unwind_tx (rev tx_nums) (d, meta_u64 d ''total_txs'', 0)
                in (Inr removed,
                    d\<lparr> ACCEPTED_BY := tab_remove hash (ACCEPTED_BY d),
                       APPLIED := tab_remove hash (APPLIED d),
                       CHAIN_BY_DAA :=
                         (case daa of
                            None \<Rightarrow> CHAIN_BY_DAA d
                          | Some daa \<Rightarrow> tab_remove (chain_key daa hash) (CHAIN_BY_DAA d)),
                       META := tab_insert ''total_txs'' total_txs (META d) \<rparr>))))"

section \<open>The checkpoint\<close>

definition set_checkpoint :: "StoreError option \<Rightarrow> string \<Rightarrow> u64 \<Rightarrow> db \<Rightarrow> unit res \<times> db" where
  "set_checkpoint io hash daa d =
     (case io of
        Some err \<Rightarrow> (Inl (Err err), d)
      | None \<Rightarrow>
          (Inr (), d\<lparr> META_STR := tab_insert ''checkpoint_hash'' hash (META_STR d),
                      META := tab_insert ''checkpoint_daa'' daa (META d) \<rparr>))"

section \<open>The retention sweep\<close>

definition expire_row :: "u64 \<times> IndexedTx \<Rightarrow> db \<times> u64 \<Rightarrow> db \<times> u64" where
  "expire_row row st =
     (let (tx_num, itx) = row; (d, removed) = st;
          d = d\<lparr> ADDR_HISTORY :=
                   fold (\<lambda>e. tab_remove (hist_key (le_address e) tx_num)) (it_ledger itx)
                     (ADDR_HISTORY d) \<rparr>;
          d = (if it_is_coinbase itx then d else fold remove_spend (it_inputs itx) d)
      in (d\<lparr> TX := tab_remove tx_num (TX d), TX_BY_ID := tab_remove (it_tx_id itx) (TX_BY_ID d) \<rparr>,
          removed + 1))"

definition expire_txs :: "u64 \<Rightarrow> db \<Rightarrow> db \<times> u64" where
  "expire_txs cutoff_daa d =
     fold expire_row (takeWhile (\<lambda>(k, itx). it_accepting_daa itx < cutoff_daa) (TX d)) (d, 0)"

definition expire_chain :: "u64 \<Rightarrow> db \<Rightarrow> db" where
  "expire_chain cutoff_daa d =
     fold (\<lambda>(key, hash) d. d\<lparr> CHAIN_BY_DAA := tab_remove key (CHAIN_BY_DAA d),
                              APPLIED := tab_remove hash (APPLIED d),
                              ACCEPTED_BY := tab_remove hash (ACCEPTED_BY d) \<rparr>)
       (takeWhile (\<lambda>(key, hash). u64_of_be (take 8 key) < cutoff_daa) (CHAIN_BY_DAA d)) d"

definition expire_requests :: "u64 \<Rightarrow> db \<Rightarrow> db" where
  "expire_requests cutoff_daa d =
     fold (\<lambda>(seq, row) d.
         let rec = dec_request row
         in d\<lparr> AI_REQ := tab_remove seq (AI_REQ d),
               AI_REQ_BY_HASH :=
                 tab_remove (qr_tx_id rec) (tab_remove (qr_request_hash rec) (AI_REQ_BY_HASH d)),
               AI_RESP := tab_remove (qr_tx_id rec) (tab_remove (qr_request_hash rec) (AI_RESP d)) \<rparr>)
       (filter (\<lambda>(seq, row). qr_daa_score (dec_request row) < cutoff_daa) (AI_REQ d)) d"

definition expire_responses :: "u64 \<Rightarrow> db \<Rightarrow> db" where
  "expire_responses cutoff_daa d =
     (let d = d\<lparr> AI_RESP :=
                tab_sweep (\<lambda>_ row. pr_daa_score (dec_response row) < cutoff_daa) (AI_RESP d) \<rparr>;
          d = d\<lparr> AI_RESP_LIST :=
                tab_sweep (\<lambda>k _. tab_get (TX d) (resp_list_tx_num k) = None) (AI_RESP_LIST d) \<rparr>
      in d\<lparr> AI_RESP_HASH :=
              tab_sweep (\<lambda>_ rh. tab_get (AI_REQ_BY_HASH d) rh = None) (AI_RESP_HASH d) \<rparr>)"

definition expire_marks :: "u64 \<Rightarrow> db \<Rightarrow> db" where
  "expire_marks cutoff_daa d =
     d\<lparr> AI_CHAL := tab_sweep (\<lambda>_ rec. cr_daa_score rec < cutoff_daa) (AI_CHAL d),
        AI_CAPS := tab_sweep (\<lambda>_ seen. seen < cutoff_daa) (AI_CAPS d) \<rparr>"

definition expire_below :: "StoreError option \<Rightarrow> u64 \<Rightarrow> db \<Rightarrow> u64 res \<times> db" where
  "expire_below io cutoff_daa d =
     (case io of
        Some err \<Rightarrow> (Inl (Err err), d)
      | None \<Rightarrow>
          (let (d, removed) = expire_txs cutoff_daa d
           in (Inr removed,
               expire_marks cutoff_daa (expire_responses cutoff_daa
                 (expire_requests cutoff_daa (expire_chain cutoff_daa d))))))"

end
