(* ===== verification/StoreRead.thy ===== *)
theory StoreRead
  imports StoreWrite
begin

text \<open>
  The read operations of \<open>src/indexer/store.rs\<close>. Each runs in one redb read transaction,
  a snapshot of the tables; \<open>io\<close> is the storage error redb reports, if it reports one.
\<close>

definition reading :: "StoreError option \<Rightarrow> 'a \<Rightarrow> 'a res" where
  "reading io x = (case io of Some err \<Rightarrow> Inl (Err err) | None \<Rightarrow> Inr x)"

lemma reading_simps [simp]: "reading None x = Inr x" "reading (Some err) x = Inl (Err err)"
  by (simp_all add: reading_def)

section \<open>Ledger reads\<close>

definition checkpoint :: "StoreError option \<Rightarrow> db \<Rightarrow> Checkpoint option res" where
  "checkpoint io d = reading io
     (case (tab_get (META_STR d) ''checkpoint_hash'', tab_get (META d) ''checkpoint_daa'') of
        (Some hash, Some daa) \<Rightarrow> Some \<lparr> ck_chain_block_hash = hash, ck_daa_score = daa \<rparr>
      | _ \<Rightarrow> None)"

definition is_applied :: "StoreError option \<Rightarrow> string \<Rightarrow> db \<Rightarrow> bool res" where
  "is_applied io hash d = reading io (tab_get (APPLIED d) hash \<noteq> None)"

definition total_txs :: "StoreError option \<Rightarrow> db \<Rightarrow> u64 res" where
  "total_txs io d = reading io (meta_u64 d ''total_txs'')"

definition chain_blocks :: "StoreError option \<Rightarrow> db \<Rightarrow> u64 res" where
  "chain_blocks io d = reading io (word_of_nat (length (APPLIED d)))"

definition window_low_daa :: "StoreError option \<Rightarrow> db \<Rightarrow> u64 option res" where
  "window_low_daa io d = reading io
     (case TX d of [] \<Rightarrow> None | (k, itx) # _ \<Rightarrow> Some (it_accepting_daa itx))"

definition address_totals :: "StoreError option \<Rightarrow> string \<Rightarrow> db \<Rightarrow> (u64 \<times> u64) res" where
  "address_totals io addr d = reading io (read_totals (ADDR_TOTALS d) addr)"

definition address_history ::
  "StoreError option \<Rightarrow> string \<Rightarrow> nat \<Rightarrow> nat \<Rightarrow> db \<Rightarrow> HistRow list res" where
  "address_history io addr limit offset d = reading io
     (let (lo, hi) = hist_bounds addr
      in page_loop limit offset 0 [] (map snd (rev (tab_range lo hi (ADDR_HISTORY d)))))"

definition tx_by_id :: "StoreError option \<Rightarrow> string \<Rightarrow> db \<Rightarrow> IndexedTx option res" where
  "tx_by_id io txid d = reading io
     (case tab_get (TX_BY_ID d) txid of
        None \<Rightarrow> None
      | Some tx_num \<Rightarrow> tab_get (TX d) tx_num)"

definition spend_of :: "StoreError option \<Rightarrow> string \<Rightarrow> u32 \<Rightarrow> db \<Rightarrow> IndexedTx option res" where
  "spend_of io txid index d = reading io
     (case tab_get (OUTPOINT_SPEND d) (outpoint_key txid index) of
        None \<Rightarrow> None
      | Some tx_num \<Rightarrow> tab_get (TX d) tx_num)"

section \<open>Inference reads\<close>

definition first_response ::
  "(string, (AiResponseRec, AiResponseRecV1) compat) tab \<Rightarrow> AiRequestRec \<Rightarrow> AiResponseRec option"
where
  "first_response resp_t req =
     (case tab_get resp_t (qr_request_hash req) of
        Some row \<Rightarrow> Some (dec_response row)
      | None \<Rightarrow>
          (case tab_get resp_t (qr_tx_id req) of
             Some row \<Rightarrow> Some (dec_response row)
           | None \<Rightarrow> None))"

fun feed_loop ::
  "(AiRequestRec \<Rightarrow> AiResponseRec option) \<Rightarrow> nat \<Rightarrow> nat \<Rightarrow> nat
     \<Rightarrow> (AiRequestRec \<times> AiResponseRec option) list \<Rightarrow> AiRequestRec list
     \<Rightarrow> (AiRequestRec \<times> AiResponseRec option) list"
where
  "feed_loop resp limit offset skipped out [] = out"
| "feed_loop resp limit offset skipped out (req # rows) =
     (if limit \<le> length out then out
      else if qr_private req then feed_loop resp limit offset skipped out rows
      else if skipped < offset then feed_loop resp limit offset (Suc skipped) out rows
      else feed_loop resp limit offset skipped (out @ [(req, resp req)]) rows)"

definition inference_feed ::
  "StoreError option \<Rightarrow> nat \<Rightarrow> nat \<Rightarrow> db \<Rightarrow> (AiRequestRec \<times> AiResponseRec option) list res" where
  "inference_feed io limit offset d = reading io
     (feed_loop (first_response (AI_RESP d)) limit offset 0 []
        (map (dec_request \<circ> snd) (rev (AI_REQ d))))"

definition push_response ::
  "ext \<Rightarrow> db \<Rightarrow> bytes \<times> unit \<Rightarrow> (IndexedTx \<times> AiResponse) list \<Rightarrow> (IndexedTx \<times> AiResponse) list res"
where
  "push_response e d row out =
     (case tab_get (TX d) (resp_list_tx_num (fst row)) of
        None \<Rightarrow> Inr out
      | Some itx \<Rightarrow>
          bind_res (from_hex (it_payload itx)) (\<lambda>bs.
            Inr (case Option.bind bs (decode_response e) of
                   None \<Rightarrow> out
                 | Some resp \<Rightarrow> out @ [(itx, resp)])))"

definition inference_by_tx ::
  "StoreError option \<Rightarrow> ext \<Rightarrow> string \<Rightarrow> db \<Rightarrow> InferenceDetail option res" where
  "inference_by_tx io e txid d =
     (case io of
        Some err \<Rightarrow> Inl (Err err)
      | None \<Rightarrow>
          (case Option.bind (tab_get (AI_REQ_BY_HASH d) txid) (tab_get (AI_REQ d)) of
             None \<Rightarrow> Inr None
           | Some row \<Rightarrow>
               (let req = dec_request row; (lo, hi) = resp_list_bounds (qr_request_hash req)
                in bind_res (fold_res (push_response e d) (tab_range lo hi (AI_RESP_LIST d)) [])
                     (\<lambda>responses.
                       Inr (Some \<lparr> id_request = req,
                                   id_first_response = first_response (AI_RESP d) req,
                                   id_responses = responses \<rparr>)))))"

fun challenge_loop :: "nat \<Rightarrow> AiChallengeRec list \<Rightarrow> AiChallengeRec list \<Rightarrow> AiChallengeRec list" where
  "challenge_loop limit out [] = out"
| "challenge_loop limit out (rec # rows) =
     (if limit \<le> length out then out else challenge_loop limit (out @ [rec]) rows)"

definition challenges :: "StoreError option \<Rightarrow> nat \<Rightarrow> db \<Rightarrow> AiChallengeRec list res" where
  "challenges io limit d = reading io (challenge_loop limit [] (map snd (rev (AI_CHAL d))))"

text \<open>\<open>by_model.entry(model_id).or_insert_with(...)\<close>: push the key, raise the score.\<close>

fun caps_entry ::
  "string \<Rightarrow> string \<Rightarrow> u64 \<Rightarrow> (string \<times> string list \<times> u64) list
     \<Rightarrow> (string \<times> string list \<times> u64) list"
where
  "caps_entry m pk seen [] = [(m, [pk], max 0 seen)]"
| "caps_entry m pk seen ((m', pks, s) # acc) =
     (if m = m' then (m', pks @ [pk], max s seen) # acc
      else (m', pks, s) # caps_entry m pk seen acc)"

definition caps_row ::
  "bytes \<times> u64 \<Rightarrow> (string \<times> string list \<times> u64) list \<Rightarrow> (string \<times> string list \<times> u64) list" where
  "caps_row row acc =
     (let key = fst row; sep = length (takeWhile (\<lambda>b. b \<noteq> 0xFF) key)
      in if sep = length key then acc
         else caps_entry (from_utf8_lossy (take sep key)) (from_utf8_lossy (drop (sep + 1) key))
                (snd row) acc)"

definition capabilities :: "StoreError option \<Rightarrow> ext \<Rightarrow> db \<Rightarrow> Capability list res" where
  "capabilities io e d = reading io
     (sort_key (\<lambda>c. - uint (cp_last_seen_daa c))
        (map (\<lambda>(m, pks, seen). \<lparr> cp_model_id = m, cp_miner_pubkeys = remdups_adj (sort pks),
                                 cp_last_seen_daa = seen \<rparr>)
          (caps_order e (fold caps_row (AI_CAPS d) []))))"

section \<open>Pages\<close>

lemma feed_loop_take_drop:
  assumes "skipped \<le> offset" "length out \<le> limit"
  shows "feed_loop resp limit offset skipped out rows =
    out @ map (\<lambda>r. (r, resp r))
      (take (limit - length out) (drop (offset - skipped) (filter (\<lambda>r. \<not> qr_private r) rows)))"
  using assms
proof (induction resp limit offset skipped out rows rule: feed_loop.induct)
  case (1 resp limit offset skipped out)
  then show ?case by simp
next
  case (2 resp limit offset skipped out req rows)
  consider "limit \<le> length out" | "length out < limit" "qr_private req"
    | "length out < limit" "\<not> qr_private req" "skipped < offset"
    | "length out < limit" "\<not> qr_private req" "offset \<le> skipped"
    by linarith
  then show ?case
  proof cases
    case 1
    then show ?thesis by simp
  next
    case p: 2
    then show ?thesis using 2 by simp
  next
    case s: 3
    then obtain k where "offset - skipped = Suc k" "offset - Suc skipped = k"
      by (metis Suc_diff_Suc)
    then show ?thesis using 2 s by simp
  next
    case o: 4
    then obtain k where "limit - length out = Suc k" "limit - Suc (length out) = k"
      by (metis Suc_diff_Suc)
    then show ?thesis using 2 o by simp
  qed
qed

lemma challenge_loop_take:
  "length out \<le> limit \<Longrightarrow> challenge_loop limit out rows = out @ take (limit - length out) rows"
proof (induction limit out rows rule: challenge_loop.induct)
  case (1 limit out)
  then show ?case by simp
next
  case (2 limit out rec rows)
  show ?case
  proof (cases "limit \<le> length out")
    case True
    then show ?thesis by simp
  next
    case False
    then obtain k where "limit - length out = Suc k" "limit - Suc (length out) = k"
      by (metis Suc_diff_Suc not_le)
    then show ?thesis using 2 False by simp
  qed
qed

lemma address_history_page:
  "address_history None addr limit offset d = Inr (take limit (drop offset
     (map snd (rev (tab_range (fst (hist_bounds addr)) (snd (hist_bounds addr)) (ADDR_HISTORY d))))))"
  by (simp add: address_history_def page_loop_take_drop case_prod_beta)

text \<open>The public feed is a page of the unsealed requests, newest first, each with the
  first response found under its identity or its transaction id: a sealed request is
  never shown and takes no place in the paging.\<close>

theorem inference_feed_page:
  "inference_feed None limit offset d = Inr (map (\<lambda>r. (r, first_response (AI_RESP d) r))
     (take limit (drop offset
        (filter (\<lambda>r. \<not> qr_private r) (map dec_request (rev (map snd (AI_REQ d))))))))"
  by (simp add: inference_feed_def feed_loop_take_drop rev_map)

text \<open>The challenge feed is the newest \<open>limit\<close> challenges, newest first.\<close>

theorem challenges_page:
  "challenges None limit d = Inr (take limit (rev (map snd (AI_CHAL d))))"
  by (simp add: challenges_def challenge_loop_take rev_map)

end
