(* ===== verification/StoreLedger.thy ===== *)
theory StoreLedger
  imports StoreRead
begin

text \<open>
  What one transaction does to the ledger: the accumulator of \<open>compute_ledger\<close> holds, for
  each address, the sums of the outputs that pay it and of the funding outputs the inputs
  spend. The locale \<open>accounting\<close> is the part the confirmed ledger and the mempool overlay
  share: both fold outputs and inputs into one accumulator.
\<close>

section \<open>The accumulator\<close>

definition acc_get :: "(string \<times> u64 \<times> u64) list \<Rightarrow> string \<Rightarrow> u64 \<times> u64" where
  "acc_get acc a = (case map_of acc a of Some p \<Rightarrow> p | None \<Rightarrow> (0, 0))"

lemma keys_acc_entry: "fst ` set (acc_entry a f acc) = insert a (fst ` set acc)"
  by (induction a f acc rule: acc_entry.induct) auto

lemma distinct_acc_entry: "distinct (map fst acc) \<Longrightarrow> distinct (map fst (acc_entry a f acc))"
proof (induction a f acc rule: acc_entry.induct)
  case (2 a f b p acc)
  then show ?case using keys_acc_entry [of a f acc] by (auto simp: image_iff)
qed simp

lemma acc_get_entry: "acc_get (acc_entry a f acc) b = (if b = a then f (acc_get acc a) else acc_get acc b)"
  by (induction a f acc rule: acc_entry.induct) (auto simp: acc_get_def)

lemma acc_get_Nil [simp]: "acc_get [] a = (0, 0)"
  by (simp add: acc_get_def)

lemma acc_get_in: "distinct (map fst acc) \<Longrightarrow> (a, p) \<in> set acc \<Longrightarrow> acc_get acc a = p"
  by (simp add: acc_get_def)

lemma acc_in_iff:
  "distinct (map fst acc) \<Longrightarrow> (a, p) \<in> set acc \<longleftrightarrow> a \<in> fst ` set acc \<and> acc_get acc a = p"
proof -
  assume d: "distinct (map fst acc)"
  show ?thesis
  proof (cases "map_of acc a")
    case None
    then show ?thesis by (auto simp: map_of_eq_None_iff intro: rev_image_eqI)
  next
    case (Some q)
    then have "(a, q) \<in> set acc" by (rule map_of_SomeD)
    moreover from Some have "acc_get acc a = q" by (simp add: acc_get_def)
    ultimately show ?thesis using d acc_get_in [OF d] by (metis fst_conv image_eqI)
  qed
qed

section \<open>Accounting a list of items\<close>

text \<open>
  An item either leaves the accumulator alone or adds an amount to one side of one
  address. Folding such a step over a list adds, for every address, the amounts of the
  items that go to it.
\<close>

definition amounts_to :: "('a \<Rightarrow> (string \<times> u64) option) \<Rightarrow> 'a list \<Rightarrow> string \<Rightarrow> u64" where
  "amounts_to eff xs a = sum_list (map snd (filter (\<lambda>p. fst p = a) (List.map_filter eff xs)))"

definition payees :: "('a \<Rightarrow> (string \<times> u64) option) \<Rightarrow> 'a list \<Rightarrow> string set" where
  "payees eff xs = fst ` set (List.map_filter eff xs)"

lemma amounts_to_simps [simp]:
  "amounts_to eff [] a = 0"
  "amounts_to eff (x # xs) a =
     (case eff x of Some (b, v) \<Rightarrow> if b = a then v + amounts_to eff xs a else amounts_to eff xs a
      | None \<Rightarrow> amounts_to eff xs a)"
  by (auto simp: amounts_to_def List.map_filter_simps split: option.splits)

lemma payees_simps [simp]:
  "payees eff [] = {}"
  "payees eff (x # xs) = (case eff x of Some (b, v) \<Rightarrow> insert b (payees eff xs) | None \<Rightarrow> payees eff xs)"
  by (auto simp: payees_def List.map_filter_simps split: option.splits)

locale accounting =
  fixes step :: "'a \<Rightarrow> (string \<times> u64 \<times> u64) list \<Rightarrow> (string \<times> u64 \<times> u64) list res"
    and eff :: "'a \<Rightarrow> (string \<times> u64) option"
    and add :: "u64 \<Rightarrow> u64 \<times> u64 \<Rightarrow> u64 \<times> u64"
  assumes step_Inr: "step x acc = Inr acc' \<Longrightarrow>
      acc' = (case eff x of None \<Rightarrow> acc | Some (a, v) \<Rightarrow> acc_entry a (add v) acc)"
    and add_zero: "add 0 p = p"
    and add_add: "add v (add u p) = add (u + v) p"
begin

lemma fold_spec:
  assumes "fold_res step xs acc = Inr acc'" "distinct (map fst acc)"
  shows "distinct (map fst acc') \<and> fst ` set acc' = fst ` set acc \<union> payees eff xs
    \<and> (\<forall>a. acc_get acc' a = add (amounts_to eff xs a) (acc_get acc a))"
  using assms
proof (induction xs arbitrary: acc)
  case Nil
  then show ?case by (simp add: add_zero)
next
  case (Cons x xs)
  then obtain acc1 where s: "step x acc = Inr acc1" "fold_res step xs acc1 = Inr acc'"
    by (auto split: sum.splits)
  note acc1 = step_Inr [OF s(1)]
  have "distinct (map fst acc1)"
    using Cons.prems(2) acc1 by (auto simp: distinct_acc_entry split: option.splits)
  from Cons.IH [OF s(2) this] show ?case
    using acc1 by (auto simp: keys_acc_entry acc_get_entry add_add split: option.splits)
qed

end

section \<open>Credits and debits\<close>

definition credit_of :: "string \<Rightarrow> RawOut \<Rightarrow> (string \<times> u64) option" where
  "credit_of prefix out =
     (case script_to_address (ro_script_public_key out) prefix of
        Inr (Some a) \<Rightarrow> Some (a, ro_amount out) | _ \<Rightarrow> None)"

definition funding_output :: "(string, u64) tab \<Rightarrow> (u64, IndexedTx) tab \<Rightarrow> RawIn \<Rightarrow> StoredOut option" where
  "funding_output txid_t tx_t inp =
     Option.bind (tab_get txid_t (ri_previous_tx_id inp)) (\<lambda>n.
     Option.bind (tab_get tx_t n) (\<lambda>t. nth_opt (it_outputs t) (unat (ri_previous_index inp))))"

definition debit_of ::
  "string \<Rightarrow> (string, u64) tab \<Rightarrow> (u64, IndexedTx) tab \<Rightarrow> RawIn \<Rightarrow> (string \<times> u64) option" where
  "debit_of prefix txid_t tx_t inp =
     (case funding_output txid_t tx_t inp of
        None \<Rightarrow> None
      | Some out \<Rightarrow>
          (case script_to_address (so_script_public_key out) prefix of
             Inr (Some a) \<Rightarrow> Some (a, so_amount out) | _ \<Rightarrow> None))"

interpretation credits: accounting "credit_output prefix" "credit_of prefix" "\<lambda>v (c, d). (c + v, d)"
  by unfold_locales
    (auto simp: credit_output_def credit_of_def case_prod_beta add.assoc split: option.splits sum.splits)

lemma debit_input_eq:
  "debit_input prefix txid_t tx_t inp acc =
     (case funding_output txid_t tx_t inp of
        None \<Rightarrow> Inr acc | Some out \<Rightarrow> debit_output prefix out acc)"
  by (simp add: debit_input_def funding_output_def split: option.splits)

interpretation debits: accounting "debit_input prefix txid_t tx_t" "debit_of prefix txid_t tx_t"
    "\<lambda>v (c, d). (c, d + v)"
  by unfold_locales
    (auto simp: debit_input_eq debit_output_def debit_of_def case_prod_beta add.assoc
      split: option.splits sum.splits)

definition spent_inputs :: "RawTx \<Rightarrow> RawIn list" where
  "spent_inputs raw = (if rt_is_coinbase raw then [] else rt_inputs raw)"

text \<open>The sums of one transaction, side by side, for one address.\<close>

lemma accumulated:
  assumes "fold_res (credit_output prefix) outs [] = Inr acc1"
    and "fold_res (debit_input prefix txid_t tx_t) ins acc1 = Inr acc"
  shows "distinct (map fst acc)
    \<and> fst ` set acc = payees (credit_of prefix) outs \<union> payees (debit_of prefix txid_t tx_t) ins
    \<and> (\<forall>a. acc_get acc a =
          (amounts_to (credit_of prefix) outs a, amounts_to (debit_of prefix txid_t tx_t) ins a))"
  using credits.fold_spec [OF assms(1)] debits.fold_spec [OF assms(2)] by auto

definition ledger_entries :: "(string \<times> u64 \<times> u64) list \<Rightarrow> LedgerEntry list" where
  "ledger_entries acc = map (\<lambda>(a, c, d). \<lparr> le_address = a, le_credit = c, le_debit = d \<rparr>) acc"

lemma ledger_entries_addresses: "map le_address (ledger_entries acc) = map fst acc"
  by (simp add: ledger_entries_def case_prod_beta comp_def)

lemma in_ledger_entries:
  "x \<in> set (ledger_entries acc) \<longleftrightarrow> (le_address x, le_credit x, le_debit x) \<in> set acc"
  by (force simp: ledger_entries_def)

lemma compute_ledger_cases:
  assumes "compute_ledger e raw prefix txid_t tx_t = Inr l"
  obtains acc1 acc where "fold_res (credit_output prefix) (rt_outputs raw) [] = Inr acc1"
    "fold_res (debit_input prefix txid_t tx_t) (spent_inputs raw) acc1 = Inr acc"
    "l = ledger_entries (ledger_order e acc)"
proof -
  have "(if rt_is_coinbase raw then Inr acc1
         else fold_res (debit_input prefix txid_t tx_t) (rt_inputs raw) acc1)
      = fold_res (debit_input prefix txid_t tx_t) (spent_inputs raw) acc1" for acc1
    by (simp add: spent_inputs_def)
  with assms that show ?thesis
    unfolding compute_ledger_def ledger_entries_def [symmetric] by auto
qed

lemma compute_ledger_distinct:
  assumes "ext_ok e" "compute_ledger e raw prefix txid_t tx_t = Inr l"
  shows "distinct (map le_address l)"
proof -
  obtain acc1 acc where acc: "fold_res (credit_output prefix) (rt_outputs raw) [] = Inr acc1"
    "fold_res (debit_input prefix txid_t tx_t) (spent_inputs raw) acc1 = Inr acc"
    "l = ledger_entries (ledger_order e acc)"
    using assms(2) by (rule compute_ledger_cases)
  then show ?thesis
    using accumulated [OF acc(1,2)] assms(1)
    by (simp add: ledger_entries_addresses ext_ok_ledger_distinct)
qed

lemma compute_ledger_entry:
  assumes "ext_ok e" "compute_ledger e raw prefix txid_t tx_t = Inr l"
  shows "x \<in> set l \<longleftrightarrow>
    le_address x \<in> payees (credit_of prefix) (rt_outputs raw)
                 \<union> payees (debit_of prefix txid_t tx_t) (spent_inputs raw)
    \<and> le_credit x = amounts_to (credit_of prefix) (rt_outputs raw) (le_address x)
    \<and> le_debit x = amounts_to (debit_of prefix txid_t tx_t) (spent_inputs raw) (le_address x)"
proof -
  obtain acc1 acc where acc: "fold_res (credit_output prefix) (rt_outputs raw) [] = Inr acc1"
    "fold_res (debit_input prefix txid_t tx_t) (spent_inputs raw) acc1 = Inr acc"
    "l = ledger_entries (ledger_order e acc)"
    using assms(2) by (rule compute_ledger_cases)
  note spec = accumulated [OF acc(1,2)]
  have "x \<in> set l \<longleftrightarrow> (le_address x, le_credit x, le_debit x) \<in> set acc"
    using assms(1) by (simp add: acc(3) in_ledger_entries ext_ok_ledger_set)
  also have "\<dots> \<longleftrightarrow> le_address x \<in> fst ` set acc \<and> acc_get acc (le_address x) = (le_credit x, le_debit x)"
    using spec by (intro acc_in_iff) simp
  finally show ?thesis using spec by auto
qed

section \<open>Addresses are UTF-8\<close>

lemma ascii_char_lt: "of_char c < (128 :: nat) \<Longrightarrow> u8_of_char c < 0x80"
  by (simp add: u8_of_char_def word_less_nat_alt unat_of_nat take_bit_eq_mod)

lemma ascii_utf8_str: "list_all (\<lambda>c. of_char c < (128 :: nat)) s \<Longrightarrow> utf8_str s"
  unfolding utf8_str_def
  by (rule utf8_valid_ascii) (auto simp: as_bytes_def list_all_iff intro: ascii_char_lt)

definition ascii_text :: "string \<Rightarrow> bool" where
  "ascii_text s = list_all (\<lambda>c. of_char c < (128 :: nat)) s"

lemma charset_ascii: "ascii_text CHARSET"
  by code_simp

lemma encode_address_ascii:
  assumes "ascii_text prefix"
  shows "ascii_text (encode_address v p prefix)"
proof -
  obtain body where "encode_address v p prefix = prefix @ CHR '':'' # body" "set body \<subseteq> set CHARSET"
    using encode_address_chars by blast
  moreover from this(2) have "ascii_text body"
    using charset_ascii unfolding ascii_text_def list_all_iff by blast
  ultimately show ?thesis using assms by (simp add: ascii_text_def)
qed

lemma script_to_address_utf8:
  assumes "ascii_text prefix" "script_to_address s prefix = Inr (Some a)"
  shows "utf8_str a"
proof -
  obtain v p where "a = encode_address v p prefix"
    using assms(2) by (auto simp: script_to_address_def dest: script_address_Some
        split: sum.splits option.splits)
  then show ?thesis
    using encode_address_ascii [OF assms(1)] by (simp add: ascii_text_def ascii_utf8_str)
qed

lemma payees_in: "a \<in> payees eff xs \<Longrightarrow> \<exists>x v. eff x = Some (a, v)"
  by (induction xs) (auto split: option.splits)

lemma payees_utf8:
  assumes "ascii_text prefix"
  shows "a \<in> payees (credit_of prefix) outs \<Longrightarrow> utf8_str a"
    and "a \<in> payees (debit_of prefix txid_t tx_t) ins \<Longrightarrow> utf8_str a"
  using script_to_address_utf8 [OF assms]
  by (auto dest!: payees_in simp: credit_of_def debit_of_def split: sum.splits option.splits)

lemma compute_ledger_utf8:
  assumes "ext_ok e" "ascii_text prefix" "compute_ledger e raw prefix txid_t tx_t = Inr l" "x \<in> set l"
  shows "utf8_str (le_address x)"
  using compute_ledger_entry [OF assms(1,3), of x] assms(4) payees_utf8 [OF assms(2)] by auto

section \<open>The ledger of a transaction\<close>

text \<open>Property C10. The ledger of a transaction has one entry per address the transaction touches:
  its credit is the sum of the outputs that pay the address, its debit the sum of the
  outputs of indexed transactions that the inputs spend and that paid it (nothing for a
  coinbase), whatever order the hash map is walked in.\<close>

theorem compute_ledger_sums:
  assumes "ext_ok e" "compute_ledger e raw prefix txid_t tx_t = Inr l"
  shows "distinct (map le_address l)
    \<and> (x \<in> set l \<longleftrightarrow>
        le_address x \<in> payees (credit_of prefix) (rt_outputs raw)
                     \<union> payees (debit_of prefix txid_t tx_t) (spent_inputs raw)
        \<and> le_credit x = amounts_to (credit_of prefix) (rt_outputs raw) (le_address x)
        \<and> le_debit x = amounts_to (debit_of prefix txid_t tx_t) (spent_inputs raw) (le_address x))"
  using compute_ledger_distinct [OF assms] compute_ledger_entry [OF assms] by blast

definition sample_spk :: string where
  "sample_spk = ''20'' @ to_hex (replicate 32 0x11) @ ''ac''"

definition sample_out :: "u64 \<Rightarrow> RawOut" where
  "sample_out amount = \<lparr> ro_amount = amount, ro_script_version = 0,
     ro_script_public_key = sample_spk \<rparr>"

definition sample_tx :: "string \<Rightarrow> bool \<Rightarrow> RawIn list \<Rightarrow> u64 list \<Rightarrow> RawTx" where
  "sample_tx txid coinbase ins amounts =
     \<lparr> rt_tx_id = txid, rt_is_coinbase = coinbase, rt_version = 0, rt_lock_time = 0,
       rt_subnetwork_id = [], rt_gas = 0, rt_payload = [], rt_inputs = ins,
       rt_outputs = map sample_out amounts \<rparr>"

definition sample_address :: string where
  "sample_address = encode_address 0 (replicate 32 0x11) ''keryxsim''"

lemma sample_script: "script_to_address sample_spk ''keryxsim'' = Inr (Some sample_address)"
proof -
  have "hex_to_bytes sample_spk
        = Inr (Some ([0x20] @ replicate 32 0x11 @ [0xac]))"
    by code_simp
  moreover have "script_form ([0x20] @ replicate 32 0x11 @ [0xac]) 0 (replicate 32 0x11)"
    by (simp add: script_form_def)
  ultimately show ?thesis
    by (simp only: script_to_address_def script_form_address sample_address_def sum.case option.case)
qed

lemma sample_ledger:
  "compute_ledger ext_sample (sample_tx txid True ins [3, 4]) ''keryxsim'' txid_t tx_t
     = Inr [\<lparr> le_address = sample_address, le_credit = 7, le_debit = 0 \<rparr>]"
  by (simp add: compute_ledger_def sample_tx_def credit_output_def sample_out_def sample_script
      ext_sample_def)

theorem compute_ledger_sums_witness:
  "amounts_to (credit_of ''keryxsim'') (rt_outputs (sample_tx ''aa'' True [] [3, 4])) sample_address = 7"
  using compute_ledger_sums [OF ext_ok_sample sample_ledger [of "''aa''" "[]" "[]" "[]"],
      of "\<lparr> le_address = sample_address, le_credit = 7, le_debit = 0 \<rparr>"]
  by simp

end
