(* ===== verification/StoreRows.thy ===== *)
theory StoreRows
  imports StoreLedger
begin

text \<open>
  The ledger tables stay consistent: every pointer (transaction id, spent outpoint, history
  key) leads to a stored transaction, the history table holds exactly the rows the stored
  ledgers call for, and the counters bound the rows. The invariant is stated over the
  tables and kept by inserting the rows of one transaction and by removing them, which is
  all that applying, unwinding and expiring do to these tables.
\<close>

section \<open>The tables after one transaction\<close>

definition hist_row_of :: "IndexedTx \<Rightarrow> LedgerEntry \<Rightarrow> HistRow" where
  "hist_row_of t x =
     (let net = net_i64 (le_credit x) (le_debit x)
      in \<lparr> hr_tx_id = it_tx_id t, hr_amount_sompi = unsigned_abs net, hr_is_spend = (net < 0),
           hr_daa_score = it_accepting_daa t, hr_block_hash = it_accepting_block_hash t \<rparr>)"

definition in_key :: "StoredIn \<Rightarrow> bytes" where
  "in_key i = outpoint_key (si_previous_tx_id i) (si_previous_index i)"

definition inputs_of :: "IndexedTx \<Rightarrow> StoredIn list" where
  "inputs_of t = (if it_is_coinbase t then [] else it_inputs t)"

lemma hist_row_indexed: "hist_row raw grp x = hist_row_of (build_indexed raw n grp l) x"
  by (simp add: hist_row_def hist_row_of_def build_indexed_def)

definition credit_totals :: "LedgerEntry \<Rightarrow> (string, u64 \<times> u64) tab \<Rightarrow> (string, u64 \<times> u64) tab" where
  "credit_totals x t =
     (let (recv, cnt) = read_totals t (le_address x)
      in tab_insert (le_address x) (recv + le_credit x, cnt + 1) t)"

definition debit_totals :: "LedgerEntry \<Rightarrow> (string, u64 \<times> u64) tab \<Rightarrow> (string, u64 \<times> u64) tab" where
  "debit_totals x t =
     (let (recv, cnt) = read_totals t (le_address x);
          recv = saturating_sub recv (le_credit x); cnt = saturating_sub cnt 1
      in if recv = 0 \<and> cnt = 0 then tab_remove (le_address x) t
         else tab_insert (le_address x) (recv, cnt) t)"

lemma fold_index_spend:
  "fold (index_spend n) ins d = d\<lparr> OUTPOINT_SPEND :=
     fold (\<lambda>i. tab_insert (outpoint_key (ri_previous_tx_id i) (ri_previous_index i)) n) ins
       (OUTPOINT_SPEND d) \<rparr>"
  by (induction ins arbitrary: d) (simp_all add: index_spend_def)

lemma fold_index_entry:
  "fold (index_entry raw grp n) xs d = d\<lparr>
     ADDR_HISTORY := fold (\<lambda>x. tab_insert (hist_key (le_address x) n) (hist_row raw grp x)) xs
       (ADDR_HISTORY d),
     ADDR_TOTALS := fold credit_totals xs (ADDR_TOTALS d) \<rparr>"
  by (induction xs arbitrary: d) (simp_all add: index_entry_def credit_totals_def case_prod_beta)

lemma fold_remove_spend:
  "fold remove_spend ins d = d\<lparr> OUTPOINT_SPEND := fold (\<lambda>i. tab_remove (in_key i)) ins (OUTPOINT_SPEND d) \<rparr>"
  by (induction ins arbitrary: d) (simp_all add: remove_spend_def in_key_def)

lemma fold_unwind_entry:
  "fold (unwind_entry n) xs d = d\<lparr>
     ADDR_HISTORY := fold (\<lambda>x. tab_remove (hist_key (le_address x) n)) xs (ADDR_HISTORY d),
     ADDR_TOTALS := fold debit_totals xs (ADDR_TOTALS d) \<rparr>"
  by (induction xs arbitrary: d)
    (simp_all add: unwind_entry_def debit_totals_def case_prod_beta Let_def)

definition raw_key :: "RawIn \<Rightarrow> bytes" where
  "raw_key i = outpoint_key (ri_previous_tx_id i) (ri_previous_index i)"

lemma in_keys_indexed:
  "in_key ` set (inputs_of (build_indexed raw n grp l)) = raw_key ` set (spent_inputs raw)"
  by (auto simp: inputs_of_def build_indexed_def spent_inputs_def in_key_def raw_key_def image_iff)

lemma index_ledger_tables:
  "index_ledger raw grp n l d = d\<lparr>
     TX := tab_insert n (build_indexed raw n grp l) (TX d),
     TX_BY_ID := tab_insert (rt_tx_id raw) n (TX_BY_ID d),
     OUTPOINT_SPEND := fold (\<lambda>i. tab_insert (raw_key i) n) (spent_inputs raw) (OUTPOINT_SPEND d),
     ADDR_HISTORY := fold (\<lambda>x. tab_insert (hist_key (le_address x) n) (hist_row raw grp x)) l
       (ADDR_HISTORY d),
     ADDR_TOTALS := fold credit_totals l (ADDR_TOTALS d) \<rparr>"
  by (simp add: index_ledger_def Let_def fold_index_spend fold_index_entry spent_inputs_def
      build_indexed_def raw_key_def [abs_def])

lemma unwind_row_tables:
  "unwind_row n t d = d\<lparr>
     TX := tab_remove n (TX d), TX_BY_ID := tab_remove (it_tx_id t) (TX_BY_ID d),
     OUTPOINT_SPEND := fold (\<lambda>i. tab_remove (in_key i)) (inputs_of t) (OUTPOINT_SPEND d),
     ADDR_HISTORY := fold (\<lambda>x. tab_remove (hist_key (le_address x) n)) (it_ledger t) (ADDR_HISTORY d),
     ADDR_TOTALS := fold debit_totals (it_ledger t) (ADDR_TOTALS d) \<rparr>"
  by (simp add: unwind_row_def Let_def fold_unwind_entry fold_remove_spend inputs_of_def)

lemma expire_row_tables:
  "expire_row (n, t) (d, r) = (d\<lparr>
     TX := tab_remove n (TX d), TX_BY_ID := tab_remove (it_tx_id t) (TX_BY_ID d),
     OUTPOINT_SPEND := fold (\<lambda>i. tab_remove (in_key i)) (inputs_of t) (OUTPOINT_SPEND d),
     ADDR_HISTORY := fold (\<lambda>x. tab_remove (hist_key (le_address x) n)) (it_ledger t) (ADDR_HISTORY d) \<rparr>,
     r + 1)"
  by (simp add: expire_row_def Let_def fold_remove_spend inputs_of_def)

section \<open>The row invariant\<close>

definition row_ok :: "u64 \<Rightarrow> u64 \<Rightarrow> IndexedTx \<Rightarrow> bool" where
  "row_ok next_num n t =
     (it_tx_num t = n \<and> n < next_num \<and> distinct (map le_address (it_ledger t))
      \<and> list_all (\<lambda>x. utf8_str (le_address x)) (it_ledger t))"

definition rows_inv :: "u64 \<Rightarrow> db \<Rightarrow> bool" where
  "rows_inv next_num d =
     ((\<forall>n t. tab_get (TX d) n = Some t \<longrightarrow> row_ok next_num n t)
      \<and> (\<forall>i n. tab_get (TX_BY_ID d) i = Some n \<longrightarrow>
           (\<exists>t. tab_get (TX d) n = Some t \<and> it_tx_id t = i))
      \<and> (\<forall>k n. tab_get (OUTPOINT_SPEND d) k = Some n \<longrightarrow>
           (\<exists>t. tab_get (TX d) n = Some t \<and> k \<in> in_key ` set (inputs_of t)))
      \<and> (\<forall>k r. tab_get (ADDR_HISTORY d) k = Some r \<longleftrightarrow>
           (\<exists>n t x. tab_get (TX d) n = Some t \<and> x \<in> set (it_ledger t)
              \<and> k = hist_key (le_address x) n \<and> r = hist_row_of t x)))"

lemma rows_invI:
  assumes "\<And>n t. tab_get (TX d) n = Some t \<Longrightarrow> row_ok m n t"
    and "\<And>i n. tab_get (TX_BY_ID d) i = Some n \<Longrightarrow> \<exists>t. tab_get (TX d) n = Some t \<and> it_tx_id t = i"
    and "\<And>k n. tab_get (OUTPOINT_SPEND d) k = Some n \<Longrightarrow>
      \<exists>t. tab_get (TX d) n = Some t \<and> k \<in> in_key ` set (inputs_of t)"
    and "\<And>k r. tab_get (ADDR_HISTORY d) k = Some r \<Longrightarrow>
      \<exists>n t x. tab_get (TX d) n = Some t \<and> x \<in> set (it_ledger t)
              \<and> k = hist_key (le_address x) n \<and> r = hist_row_of t x"
    and "\<And>n t x. tab_get (TX d) n = Some t \<Longrightarrow> x \<in> set (it_ledger t) \<Longrightarrow>
      tab_get (ADDR_HISTORY d) (hist_key (le_address x) n) = Some (hist_row_of t x)"
  shows "rows_inv m d"
  unfolding rows_inv_def
proof (intro conjI allI impI iffI)
  fix k r
  assume "\<exists>n t x. tab_get (TX d) n = Some t \<and> x \<in> set (it_ledger t)
    \<and> k = hist_key (le_address x) n \<and> r = hist_row_of t x"
  then show "tab_get (ADDR_HISTORY d) k = Some r" using assms(5) by auto
qed (rule assms; assumption)+

lemma rows_invD:
  assumes "rows_inv m d"
  shows "tab_get (TX d) n = Some t \<Longrightarrow> row_ok m n t"
    and "tab_get (TX_BY_ID d) i = Some n \<Longrightarrow> \<exists>t. tab_get (TX d) n = Some t \<and> it_tx_id t = i"
    and "tab_get (OUTPOINT_SPEND d) k = Some n \<Longrightarrow>
      \<exists>t. tab_get (TX d) n = Some t \<and> k \<in> in_key ` set (inputs_of t)"
    and "tab_get (ADDR_HISTORY d) k = Some r \<Longrightarrow>
      \<exists>n t x. tab_get (TX d) n = Some t \<and> x \<in> set (it_ledger t)
              \<and> k = hist_key (le_address x) n \<and> r = hist_row_of t x"
    and "tab_get (TX d) n = Some t \<Longrightarrow> x \<in> set (it_ledger t) \<Longrightarrow>
      tab_get (ADDR_HISTORY d) (hist_key (le_address x) n) = Some (hist_row_of t x)"
  using assms unfolding rows_inv_def by metis+

lemma row_ok_mono: "row_ok m n t \<Longrightarrow> m \<le> m' \<Longrightarrow> row_ok m' n t"
  by (auto simp: row_ok_def)

lemma rows_inv_fresh: "rows_inv m d \<Longrightarrow> tab_get (TX d) m = None"
  by (metis less_irrefl not_None_eq row_ok_def rows_invD(1))

lemma rows_inv_insert:
  assumes inv: "rows_inv n d" and wrap: "n < n + 1"
    and l: "distinct (map le_address l)" "list_all (\<lambda>x. utf8_str (le_address x)) l"
  shows "rows_inv (n + 1) (index_ledger raw grp n l d)"
proof (rule rows_invI)
  let ?t = "build_indexed raw n grp l" and ?d = "index_ledger raw grp n l d"
  have tx: "tab_get (TX ?d) k = (if k = n then Some ?t else tab_get (TX d) k)" for k
    by (simp add: index_ledger_tables)
  have new: "it_tx_num ?t = n" "it_ledger ?t = l" "it_tx_id ?t = rt_tx_id raw"
    by (simp_all add: build_indexed_def)
  have old: "tab_get (TX d) k = Some u \<Longrightarrow> k \<noteq> n" for k u
    using rows_inv_fresh [OF inv] by auto
  have dist: "distinct (map (\<lambda>x. hist_key (le_address x) n) l)"
    using l(1) by (simp add: distinct_map inj_on_def)
  show "row_ok (n + 1) k t" if "tab_get (TX ?d) k = Some t" for k t
    using that rows_invD(1) [OF inv] row_ok_mono [of n k t "n + 1"] wrap l new
    by (auto simp: tx row_ok_def split: if_splits)
  show "\<exists>t. tab_get (TX ?d) k = Some t \<and> it_tx_id t = i" if "tab_get (TX_BY_ID ?d) i = Some k" for i k
    using that rows_invD(2) [OF inv, of i k] old new
    by (auto simp: index_ledger_tables split: if_splits)
  show "\<exists>t. tab_get (TX ?d) m = Some t \<and> k \<in> in_key ` set (inputs_of t)"
    if "tab_get (OUTPOINT_SPEND ?d) k = Some m" for k m
    using that rows_invD(3) [OF inv, of k m] old in_keys_indexed [of raw n grp l]
    by (auto simp: index_ledger_tables split: if_splits)
  show "\<exists>m t x. tab_get (TX ?d) m = Some t \<and> x \<in> set (it_ledger t)
      \<and> k = hist_key (le_address x) m \<and> r = hist_row_of t x" if "tab_get (ADDR_HISTORY ?d) k = Some r" for k r
  proof (cases "k \<in> (\<lambda>x. hist_key (le_address x) n) ` set l")
    case True
    then obtain x where x: "x \<in> set l" "k = hist_key (le_address x) n" by auto
    then have "r = hist_row raw grp x"
      using that tab_get_fold_in [OF dist x(1), of "hist_row raw grp"] by (simp add: index_ledger_tables)
    then show ?thesis using x new by (auto simp: tx hist_row_indexed [of raw grp x n l])
  next
    case False
    then have "tab_get (ADDR_HISTORY d) k = Some r"
      using that by (simp add: index_ledger_tables tab_get_fold_other)
    from rows_invD(4) [OF inv this] show ?thesis using old by (metis tx)
  qed
  show "tab_get (ADDR_HISTORY ?d) (hist_key (le_address x) m) = Some (hist_row_of t x)"
    if "tab_get (TX ?d) m = Some t" "x \<in> set (it_ledger t)" for m t x
  proof (cases "m = n")
    case True
    then have "t = ?t" "x \<in> set l" using that new by (auto simp: tx)
    then show ?thesis
      using tab_get_fold_in [OF dist \<open>x \<in> set l\<close>, of "hist_row raw grp"] True
      by (simp add: index_ledger_tables hist_row_indexed [of raw grp _ n l])
  next
    case False
    then have "tab_get (ADDR_HISTORY d) (hist_key (le_address x) m) = Some (hist_row_of t x)"
      using that rows_invD(5) [OF inv] by (simp add: tx)
    then show ?thesis using False by (simp add: index_ledger_tables tab_get_fold_other image_iff)
  qed
qed

text \<open>Dropping a row: what unwinding and expiring have in common.\<close>

definition row_dropped :: "u64 \<Rightarrow> IndexedTx \<Rightarrow> db \<Rightarrow> db \<Rightarrow> bool" where
  "row_dropped n t d d' =
     (TX d' = tab_remove n (TX d) \<and> TX_BY_ID d' = tab_remove (it_tx_id t) (TX_BY_ID d)
      \<and> OUTPOINT_SPEND d' = fold (\<lambda>i. tab_remove (in_key i)) (inputs_of t) (OUTPOINT_SPEND d)
      \<and> ADDR_HISTORY d' = fold (\<lambda>x. tab_remove (hist_key (le_address x) n)) (it_ledger t) (ADDR_HISTORY d))"

lemma rows_inv_drop:
  assumes inv: "rows_inv m d" and t: "tab_get (TX d) n = Some t" and drop: "row_dropped n t d d'"
  shows "rows_inv m d'"
proof (rule rows_invI)
  have tx: "tab_get (TX d') k = (if k = n then None else tab_get (TX d) k)" for k
    using drop by (simp add: row_dropped_def)
  have hist: "tab_get (ADDR_HISTORY d') k =
      (if k \<in> (\<lambda>x. hist_key (le_address x) n) ` set (it_ledger t) then None
       else tab_get (ADDR_HISTORY d) k)" for k
    using drop by (simp add: row_dropped_def)
  show "row_ok m k u" if "tab_get (TX d') k = Some u" for k u
    using that rows_invD(1) [OF inv] by (auto simp: tx split: if_splits)
  show "\<exists>u. tab_get (TX d') k = Some u \<and> it_tx_id u = i" if "tab_get (TX_BY_ID d') i = Some k" for i k
    using that rows_invD(2) [OF inv, of i k] t drop
    by (auto simp: tx row_dropped_def split: if_splits)
  show "\<exists>u. tab_get (TX d') j = Some u \<and> k \<in> in_key ` set (inputs_of u)"
    if "tab_get (OUTPOINT_SPEND d') k = Some j" for k j
  proof -
    have k: "k \<notin> in_key ` set (inputs_of t)" "tab_get (OUTPOINT_SPEND d) k = Some j"
      using that drop by (auto simp: row_dropped_def split: if_splits)
    from rows_invD(3) [OF inv k(2)] k(1) t show ?thesis by (auto simp: tx)
  qed
  show "\<exists>j u x. tab_get (TX d') j = Some u \<and> x \<in> set (it_ledger u)
      \<and> k = hist_key (le_address x) j \<and> r = hist_row_of u x" if "tab_get (ADDR_HISTORY d') k = Some r" for k r
  proof -
    have k: "k \<notin> (\<lambda>x. hist_key (le_address x) n) ` set (it_ledger t)" "tab_get (ADDR_HISTORY d) k = Some r"
      using that by (auto simp: hist split: if_splits)
    from rows_invD(4) [OF inv k(2)] obtain j u x where j: "tab_get (TX d) j = Some u"
      "x \<in> set (it_ledger u)" "k = hist_key (le_address x) j" "r = hist_row_of u x" by blast
    then have "j \<noteq> n" using k(1) t by auto
    with j show ?thesis by (metis tx)
  qed
  show "tab_get (ADDR_HISTORY d') (hist_key (le_address x) j) = Some (hist_row_of u x)"
    if "tab_get (TX d') j = Some u" "x \<in> set (it_ledger u)" for j u x
    using that rows_invD(5) [OF inv, of j u x] by (auto simp: tx hist split: if_splits)
qed

lemma unwind_row_dropped: "row_dropped n t d (unwind_row n t d)"
  by (simp add: row_dropped_def unwind_row_tables)

lemma expire_row_dropped: "row_dropped n t d (fst (expire_row (n, t) (d, r)))"
  by (simp add: row_dropped_def expire_row_tables)

end
