(* ===== verification/StoreInv.thy ===== *)
theory StoreInv
  imports StoreRows
begin

text \<open>
  The invariant of the whole ledger and that every write operation keeps it: the rows
  (theory \<open>StoreRows\<close>), the chain-block tables, and the counters. The inference tables are
  blanked by \<open>ledger_of\<close>, so that what the inference steps leave alone is one equation.
\<close>

section \<open>The ledger half of the database\<close>

definition ledger_of :: "db \<Rightarrow> db" where
  "ledger_of d = d\<lparr> AI_REQ := [], AI_REQ_BY_HASH := [], AI_RESP := [], AI_RESP_LIST := [],
     AI_RESP_HASH := [], AI_CHAL := [], AI_CAPS := [] \<rparr>"

lemma ledger_of_sel [simp]:
  "TX (ledger_of d) = TX d" "TX_BY_ID (ledger_of d) = TX_BY_ID d" "APPLIED (ledger_of d) = APPLIED d"
  "ADDR_HISTORY (ledger_of d) = ADDR_HISTORY d" "OUTPOINT_SPEND (ledger_of d) = OUTPOINT_SPEND d"
  "CHAIN_BY_DAA (ledger_of d) = CHAIN_BY_DAA d" "ADDR_TOTALS (ledger_of d) = ADDR_TOTALS d"
  "ACCEPTED_BY (ledger_of d) = ACCEPTED_BY d" "META (ledger_of d) = META d"
  "META_STR (ledger_of d) = META_STR d"
  by (simp_all add: ledger_of_def)

lemma ledger_of_eq:
  "ledger_of d = ledger_of d' \<longleftrightarrow>
     TX d = TX d' \<and> TX_BY_ID d = TX_BY_ID d' \<and> APPLIED d = APPLIED d'
     \<and> ADDR_HISTORY d = ADDR_HISTORY d' \<and> OUTPOINT_SPEND d = OUTPOINT_SPEND d'
     \<and> CHAIN_BY_DAA d = CHAIN_BY_DAA d' \<and> ADDR_TOTALS d = ADDR_TOTALS d'
     \<and> ACCEPTED_BY d = ACCEPTED_BY d' \<and> META d = META d' \<and> META_STR d = META_STR d'"
  by (cases d; cases d') (auto simp: ledger_of_def)

lemma ledger_of_ai [simp]:
  "ledger_of (d\<lparr> AI_REQ := a \<rparr>) = ledger_of d" "ledger_of (d\<lparr> AI_REQ_BY_HASH := b \<rparr>) = ledger_of d"
  "ledger_of (d\<lparr> AI_RESP := c \<rparr>) = ledger_of d" "ledger_of (d\<lparr> AI_RESP_LIST := f \<rparr>) = ledger_of d"
  "ledger_of (d\<lparr> AI_RESP_HASH := g \<rparr>) = ledger_of d" "ledger_of (d\<lparr> AI_CHAL := h \<rparr>) = ledger_of d"
  "ledger_of (d\<lparr> AI_CAPS := i \<rparr>) = ledger_of d"
  by (simp_all add: ledger_of_def)

lemma ledger_of_if: "ledger_of (if c then a else b) = (if c then ledger_of a else ledger_of b)"
  by simp

text \<open>The part of the loop state that is not the inference tables and their counters.\<close>

definition ledger_side :: "applying \<Rightarrow> db \<times> u64 \<times> u64 \<times> (string \<times> u64) option \<times> ApplyStats" where
  "ledger_side st =
     (ledger_of (ap_db st), ap_next_tx_num st, ap_total_txs st, ap_checkpoint st, ap_stats st)"

lemma index_request_frame [frame_simps]:
  "index_request e grp raw st = Inr st' \<Longrightarrow> ledger_side st' = ledger_side st"
  by (auto simp: index_request_def ledger_side_def ledger_of_if Let_def case_option_Inr if_Inr)

lemma index_response_frame [frame_simps]:
  "index_response e grp raw n st = Inr st' \<Longrightarrow> ledger_side st' = ledger_side st"
  by (auto simp: index_response_def ledger_side_def ledger_of_if Let_def case_option_Inr if_Inr)

lemma index_challenge_frame [frame_simps]:
  "index_challenge grp raw st = Inr st' \<Longrightarrow> ledger_side st' = ledger_side st"
  by (auto simp: index_challenge_def ledger_side_def ledger_of_if Let_def case_option_Inr if_Inr)

lemma index_subnetwork_frame:
  "index_subnetwork e grp raw n st = Inr st' \<Longrightarrow> ledger_side st' = ledger_side st"
  by (auto simp: index_subnetwork_def frame_simps split: if_splits)

lemma index_caps_frame [frame_simps]:
  "index_caps grp raw st = Inr st' \<Longrightarrow> ledger_side st' = ledger_side st"
  by (auto simp: index_caps_def ledger_side_def ledger_of_if Let_def case_option_Inr if_Inr)

lemma apply_tx_cases:
  assumes "apply_tx e prefix grp raw (ns, st) = Inr (ns', st')"
  obtains l where
    "compute_ledger e raw prefix (TX_BY_ID (ap_db st)) (TX (ap_db st)) = Inr l"
    "ns' = ns @ [ap_next_tx_num st]"
    "ledger_of (ap_db st') = ledger_of (index_ledger raw grp (ap_next_tx_num st) l (ap_db st))"
    "ap_next_tx_num st' = ap_next_tx_num st + 1" "ap_total_txs st' = ap_total_txs st + 1"
    "ap_checkpoint st' = ap_checkpoint st"
    "as_applied_blocks (ap_stats st') = as_applied_blocks (ap_stats st)"
proof -
  from assms obtain l st1 st2 where l: "compute_ledger e raw prefix (TX_BY_ID (ap_db st)) (TX (ap_db st)) = Inr l"
    and s1: "index_subnetwork e grp raw (ap_next_tx_num st)
         (st\<lparr> ap_next_tx_num := ap_next_tx_num st + 1,
              ap_db := index_ledger raw grp (ap_next_tx_num st) l (ap_db st) \<rparr>) = Inr st1"
    and s2: "index_caps grp raw st1 = Inr st2"
    and out: "ns' = ns @ [ap_next_tx_num st]"
      "st' = st2\<lparr> ap_total_txs := ap_total_txs st2 + 1,
                  ap_stats := (ap_stats st2)\<lparr> as_applied_txs := as_applied_txs (ap_stats st2) + 1 \<rparr> \<rparr>"
    by (auto simp: apply_tx_def Let_def)
  from index_caps_frame [OF s2] index_subnetwork_frame [OF s1]
  show ?thesis using out by (intro that [OF l]) (auto simp: ledger_side_def)
qed

section \<open>Counters\<close>

lemma read_totals_credit:
  "read_totals (credit_totals x t) a =
     (if a = le_address x then (fst (read_totals t a) + le_credit x, snd (read_totals t a) + 1)
      else read_totals t a)"
  by (simp add: credit_totals_def read_totals_def case_prod_beta)

lemma read_totals_debit:
  "read_totals (debit_totals x t) a =
     (if a = le_address x
      then (saturating_sub (fst (read_totals t a)) (le_credit x), saturating_sub (snd (read_totals t a)) 1)
      else read_totals t a)"
  by (auto simp: debit_totals_def read_totals_def case_prod_beta Let_def)

lemma read_totals_credits_other:
  "a \<notin> le_address ` set l \<Longrightarrow> read_totals (fold credit_totals l t) a = read_totals t a"
  by (induction l arbitrary: t) (auto simp: read_totals_credit)

lemma read_totals_credits_in:
  "distinct (map le_address l) \<Longrightarrow> x \<in> set l \<Longrightarrow>
     read_totals (fold credit_totals l t) (le_address x) =
       (fst (read_totals t (le_address x)) + le_credit x, snd (read_totals t (le_address x)) + 1)"
proof (induction l arbitrary: t)
  case (Cons y l)
  then show ?case by (cases "x = y") (auto simp: read_totals_credits_other read_totals_credit image_iff)
qed simp

lemma read_totals_debits_other:
  "a \<notin> le_address ` set l \<Longrightarrow> read_totals (fold debit_totals l t) a = read_totals t a"
  by (induction l arbitrary: t) (auto simp: read_totals_debit)

lemma read_totals_debits_in:
  "distinct (map le_address l) \<Longrightarrow> x \<in> set l \<Longrightarrow>
     read_totals (fold debit_totals l t) (le_address x) =
       (saturating_sub (fst (read_totals t (le_address x))) (le_credit x),
        saturating_sub (snd (read_totals t (le_address x))) 1)"
proof (induction l arbitrary: t)
  case (Cons y l)
  then show ?case by (cases "x = y") (auto simp: read_totals_debits_other read_totals_debit image_iff)
qed simp

lemma tab_get_credits_other:
  "a \<notin> le_address ` set l \<Longrightarrow> tab_get (fold credit_totals l t) a = tab_get t a"
  by (induction l arbitrary: t) (auto simp: credit_totals_def case_prod_beta)

lemma tab_get_debits_other:
  "a \<notin> le_address ` set l \<Longrightarrow> tab_get (fold debit_totals l t) a = tab_get t a"
  by (induction l arbitrary: t) (auto simp: debit_totals_def case_prod_beta Let_def)

lemma tab_get_debits_in:
  "distinct (map le_address l) \<Longrightarrow> x \<in> set l \<Longrightarrow>
     tab_get (fold debit_totals l t) (le_address x) =
       (let p = (saturating_sub (fst (read_totals t (le_address x))) (le_credit x),
                 saturating_sub (snd (read_totals t (le_address x))) 1)
        in if p = (0, 0) then None else Some p)"
proof (induction l arbitrary: t)
  case (Cons y l)
  show ?case
  proof (cases "x = y")
    case True
    then have "le_address x \<notin> le_address ` set l" using Cons.prems(1) by auto
    then show ?thesis
      using True by (simp add: tab_get_debits_other) (simp add: debit_totals_def case_prod_beta Let_def)
  next
    case False
    then have "x \<in> set l" "le_address x \<noteq> le_address y"
      using Cons.prems by (auto, metis image_eqI)
    then show ?thesis using Cons by (simp add: read_totals_debit)
  qed
qed simp

lemma totals_read: "tab_get t a = Some p \<Longrightarrow> read_totals t a = p"
  by (simp add: read_totals_def)

definition mention :: "string \<Rightarrow> u64 \<times> IndexedTx \<Rightarrow> bool" where
  "mention a row = (a \<in> le_address ` set (it_ledger (snd row)))"

definition mentions :: "string \<Rightarrow> db \<Rightarrow> nat" where
  "mentions a d = length (filter (mention a) (TX d))"

text \<open>
  The counters bound what is stored, and are bounded by the transaction numbers given out,
  so they do not wrap before those do.
\<close>

definition count_inv :: "u64 \<Rightarrow> u64 \<Rightarrow> db \<Rightarrow> bool" where
  "count_inv next_num tot d =
     (length (TX d) \<le> unat tot \<and> tot \<le> next_num
      \<and> (\<forall>a. mentions a d \<le> unat (snd (read_totals (ADDR_TOTALS d) a))
             \<and> snd (read_totals (ADDR_TOTALS d) a) \<le> next_num
             \<and> tab_get (ADDR_TOTALS d) a \<noteq> Some (0, 0)))"

lemma less_succ_iff: "w < w + 1 \<longleftrightarrow> w \<noteq> - 1" for w :: u64
proof
  assume "w < w + 1"
  then show "w \<noteq> - 1" by auto
next
  assume "w \<noteq> - 1"
  then have "1 + w \<noteq> 0" by (metis add.commute add_eq_0_iff)
  then have "unat (w + 1) = Suc (unat w)" using unatSuc [of w] by (simp add: add.commute)
  then show "w < w + 1" by (simp add: word_less_nat_alt)
qed

lemma unat_Suc: "w < w + 1 \<Longrightarrow> unat (w + 1) = unat w + 1" for w :: u64
  using unatSuc [of w] by (cases "1 + w = 0") (simp_all add: add.commute)

lemma le_succ: "v \<le> w \<Longrightarrow> w < w + 1 \<Longrightarrow> v < v + 1" for v w :: u64
  unfolding less_succ_iff using word_n1_ge [of w] by (metis antisym)

lemma count_inv_insert:
  assumes inv: "count_inv n tot d" and wrap: "n < n + 1" and fresh: "tab_get (TX d) n = None"
    and dist: "distinct (map le_address l)"
  shows "count_inv (n + 1) (tot + 1) (index_ledger raw grp n l d)"
proof -
  let ?d = "index_ledger raw grp n l d"
  have tle: "tot \<le> n" using inv by (simp add: count_inv_def)
  then have tw: "tot < tot + 1" using wrap by (rule le_succ)
  have m: "mentions a ?d = mentions a d + (if a \<in> le_address ` set l then 1 else 0)" for a
    using tab_insert_fresh_length [OF fresh, of "mention a" "build_indexed raw n grp l"]
    by (simp add: mentions_def index_ledger_tables mention_def build_indexed_def)
  have "mentions a ?d \<le> unat (snd (read_totals (ADDR_TOTALS ?d) a))
      \<and> snd (read_totals (ADDR_TOTALS ?d) a) \<le> n + 1 \<and> tab_get (ADDR_TOTALS ?d) a \<noteq> Some (0, 0)" for a
  proof -
    have old: "mentions a d \<le> unat (snd (read_totals (ADDR_TOTALS d) a))"
      "snd (read_totals (ADDR_TOTALS d) a) \<le> n" "tab_get (ADDR_TOTALS d) a \<noteq> Some (0, 0)"
      using inv by (simp_all add: count_inv_def)
    show ?thesis
    proof (cases "a \<in> le_address ` set l")
      case True
      then obtain x where x: "x \<in> set l" "a = le_address x" by auto
      have "snd (read_totals (ADDR_TOTALS ?d) a) = snd (read_totals (ADDR_TOTALS d) a) + 1"
        using read_totals_credits_in [OF dist x(1)] x(2) by (simp add: index_ledger_tables)
      moreover from this have "tab_get (ADDR_TOTALS ?d) a \<noteq> Some (0, 0)"
        using totals_read [of "ADDR_TOTALS ?d" a "(0, 0)"] le_succ [OF old(2) wrap] by auto
      ultimately show ?thesis
        using m [of a] True old unat_Suc [OF le_succ [OF old(2) wrap]] unat_Suc [OF wrap]
        by (simp add: word_le_nat_alt)
    next
      case False
      then show ?thesis
        using m [of a] old wrap
        by (simp add: index_ledger_tables read_totals_credits_other tab_get_credits_other)
    qed
  qed
  moreover have "length (TX ?d) = length (TX d) + 1"
    using tab_insert_fresh_length [OF fresh, of "\<lambda>_. True"] by (simp add: index_ledger_tables)
  ultimately show ?thesis
    using inv unat_Suc [OF tw] unat_Suc [OF wrap] by (simp add: count_inv_def word_le_nat_alt)
qed

lemma saturating_sub_le: "saturating_sub a b \<le> a"
  by (simp add: saturating_sub_def word_sub_le)

lemma unat_saturating_sub: "unat (saturating_sub a b) = unat a - unat b"
  by (auto simp: saturating_sub_def unat_sub word_le_nat_alt)

lemma count_inv_unwind:
  assumes inv: "count_inv m tot d" and ok: "tab_ok (TX d)" and t: "tab_get (TX d) n = Some t"
    and dist: "distinct (map le_address (it_ledger t))"
  shows "count_inv m (saturating_sub tot 1) (unwind_row n t d)"
proof -
  let ?d = "unwind_row n t d"
  have m: "mentions a d = mentions a ?d + (if a \<in> le_address ` set (it_ledger t) then 1 else 0)" for a
    using tab_remove_length [OF ok t, of "mention a"]
    by (simp add: mentions_def unwind_row_tables mention_def)
  have "mentions a ?d \<le> unat (snd (read_totals (ADDR_TOTALS ?d) a))
      \<and> snd (read_totals (ADDR_TOTALS ?d) a) \<le> m \<and> tab_get (ADDR_TOTALS ?d) a \<noteq> Some (0, 0)" for a
  proof (cases "a \<in> le_address ` set (it_ledger t)")
    case True
    then obtain x where x: "x \<in> set (it_ledger t)" "a = le_address x" by auto
    have "snd (read_totals (ADDR_TOTALS ?d) a) = saturating_sub (snd (read_totals (ADDR_TOTALS d) a)) 1"
      using read_totals_debits_in [OF dist x(1)] x(2) by (simp add: unwind_row_tables)
    moreover have "mentions a d \<le> unat (snd (read_totals (ADDR_TOTALS d) a))"
      "snd (read_totals (ADDR_TOTALS d) a) \<le> m"
      using inv by (simp_all add: count_inv_def)
    moreover have "tab_get (ADDR_TOTALS ?d) a \<noteq> Some (0, 0)"
      using tab_get_debits_in [OF dist x(1)] x(2) by (simp add: unwind_row_tables Let_def)
    ultimately show ?thesis
      using m [of a] True saturating_sub_le [of "snd (read_totals (ADDR_TOTALS d) a)" 1]
      by (auto simp: unat_saturating_sub)
  next
    case False
    then have "read_totals (ADDR_TOTALS ?d) a = read_totals (ADDR_TOTALS d) a"
      by (simp add: unwind_row_tables read_totals_debits_other)
    moreover have "tab_get (ADDR_TOTALS ?d) a = tab_get (ADDR_TOTALS d) a"
      using False by (simp add: unwind_row_tables tab_get_debits_other)
    moreover have "mentions a d \<le> unat (snd (read_totals (ADDR_TOTALS d) a))"
      "snd (read_totals (ADDR_TOTALS d) a) \<le> m" "tab_get (ADDR_TOTALS d) a \<noteq> Some (0, 0)"
      using inv by (simp_all add: count_inv_def)
    ultimately show ?thesis using m [of a] False by simp
  qed
  moreover have "length (TX d) = length (TX ?d) + 1"
    using tab_remove_length [OF ok t, of "\<lambda>_. True"] by (simp add: unwind_row_tables)
  ultimately show ?thesis
    using inv saturating_sub_le [of tot 1]
    by (auto simp: count_inv_def unat_saturating_sub intro: order_trans)
qed

lemma count_inv_shrink:
  assumes "count_inv m tot d" "ADDR_TOTALS d' = ADDR_TOTALS d" "TX d' = tab_remove n (TX d)"
  shows "count_inv m tot d'"
proof -
  have "length (TX d') \<le> length (TX d)" "mentions a d' \<le> mentions a d" for a
    using assms(3) by (auto simp: tab_remove_def mentions_def filter_filter conj_commute
        intro: order_trans [OF length_filter_le]) (metis (no_types) filter_filter length_filter_le)
  then show ?thesis using assms(1,2) by (auto simp: count_inv_def intro: order_trans)
qed

section \<open>Chain blocks\<close>

text \<open>
  A block is applied with a score exactly when the ordered index lists it under that
  score; the accepted lists name the rows of their own block only.
\<close>

definition chain_inv :: "u64 \<Rightarrow> db \<Rightarrow> bool" where
  "chain_inv next_num d =
     ((\<forall>k h. tab_get (CHAIN_BY_DAA d) k = Some h \<longleftrightarrow>
         (\<exists>daa. tab_get (APPLIED d) h = Some daa \<and> k = chain_key daa h))
      \<and> (\<forall>h. tab_get (ACCEPTED_BY d) h = None \<longleftrightarrow> tab_get (APPLIED d) h = None)
      \<and> (\<forall>h ns n. tab_get (ACCEPTED_BY d) h = Some ns \<longrightarrow> n \<in> set ns \<longrightarrow> n < next_num
           \<and> (\<forall>t. tab_get (TX d) n = Some t \<longrightarrow> it_accepting_block_hash t = h)))"

definition ledger_tabs_ok :: "db \<Rightarrow> bool" where
  "ledger_tabs_ok d =
     (tab_ok (TX d) \<and> tab_ok (TX_BY_ID d) \<and> tab_ok (APPLIED d) \<and> tab_ok (ADDR_HISTORY d)
      \<and> tab_ok (OUTPOINT_SPEND d) \<and> tab_ok (CHAIN_BY_DAA d) \<and> tab_ok (ADDR_TOTALS d)
      \<and> tab_ok (ACCEPTED_BY d) \<and> tab_ok (META d) \<and> tab_ok (META_STR d))"

definition ledger_inv :: "u64 \<Rightarrow> u64 \<Rightarrow> db \<Rightarrow> bool" where
  "ledger_inv next_num tot d =
     (ledger_tabs_ok d \<and> rows_inv next_num d \<and> chain_inv next_num d \<and> count_inv next_num tot d)"

lemma ledger_inv_cong:
  assumes "ledger_of d = ledger_of d'"
  shows "ledger_inv m k d = ledger_inv m k d'"
proof -
  have "ledger_inv m k d = ledger_inv m k (ledger_of d)" for d
    by (simp add: ledger_inv_def ledger_tabs_ok_def rows_inv_def chain_inv_def count_inv_def
        mentions_def)
  then show ?thesis using assms by metis
qed

lemma ledger_inv_empty: "ledger_inv 0 0 empty_db"
  by (simp add: ledger_inv_def ledger_tabs_ok_def rows_inv_def chain_inv_def count_inv_def
      mentions_def empty_db_def read_totals_def)

lemma tab_ok_fold_totals [simp]:
  "tab_ok t \<Longrightarrow> tab_ok (fold credit_totals xs t)" "tab_ok t \<Longrightarrow> tab_ok (fold debit_totals xs t)"
  by (induction xs arbitrary: t) (auto simp: credit_totals_def debit_totals_def case_prod_beta Let_def)

lemma ledger_inv_insert:
  assumes inv: "ledger_inv n tot d" and wrap: "n < n + 1"
    and l: "distinct (map le_address l)" "list_all (\<lambda>x. utf8_str (le_address x)) l"
  shows "ledger_inv (n + 1) (tot + 1) (index_ledger raw grp n l d)"
proof -
  have fresh: "tab_get (TX d) n = None" using inv rows_inv_fresh by (simp add: ledger_inv_def)
  have "chain_inv (n + 1) (index_ledger raw grp n l d)"
    using inv wrap unfolding ledger_inv_def chain_inv_def
    by (simp add: index_ledger_tables) (metis less_irrefl less_trans)
  moreover have "ledger_tabs_ok (index_ledger raw grp n l d)"
    using inv by (simp add: ledger_inv_def ledger_tabs_ok_def index_ledger_tables)
  ultimately show ?thesis
    using inv rows_inv_insert [OF _ wrap l] count_inv_insert [OF _ wrap fresh l(1)]
    by (simp add: ledger_inv_def)
qed

definition pending :: "AcceptedGroup \<Rightarrow> u64 list \<Rightarrow> u64 \<Rightarrow> db \<Rightarrow> bool" where
  "pending grp ns next_num d =
     list_all (\<lambda>n. n < next_num \<and> (\<exists>t. tab_get (TX d) n = Some t
        \<and> it_accepting_block_hash t = ag_chain_block_hash grp)) ns"

lemma pending_insert:
  assumes "pending grp ns n d" "n < n + 1"
  shows "pending grp (ns @ [n]) (n + 1) (index_ledger raw grp n l d)"
  using assms by (auto simp: pending_def list_all_iff index_ledger_tables build_indexed_def
      dest: less_trans)

lemma pending_cong: "ledger_of d = ledger_of d' \<Longrightarrow> pending grp ns m d = pending grp ns m d'"
  by (simp add: pending_def ledger_of_eq)

text \<open>The numbers given out while the transactions of a group are applied.\<close>

lemma apply_txs_inv:
  assumes env: "ext_ok e" "ascii_text prefix"
    and "fold_res (apply_tx e prefix grp) xs (ns, st) = Inr (ns', st')"
    and "ledger_inv (ap_next_tx_num st) (ap_total_txs st) (ap_db st)"
    and "pending grp ns (ap_next_tx_num st) (ap_db st)"
    and "unat (ap_next_tx_num st) + length xs < 2 ^ 64"
  shows "ledger_inv (ap_next_tx_num st') (ap_total_txs st') (ap_db st')
    \<and> pending grp ns' (ap_next_tx_num st') (ap_db st')
    \<and> unat (ap_next_tx_num st') = unat (ap_next_tx_num st) + length xs
    \<and> APPLIED (ap_db st') = APPLIED (ap_db st)"
  using assms(3-)
proof (induction xs arbitrary: ns st)
  case Nil
  then show ?case by simp
next
  case (Cons raw xs)
  then obtain ns1 st1 where s: "apply_tx e prefix grp raw (ns, st) = Inr (ns1, st1)"
    "fold_res (apply_tx e prefix grp) xs (ns1, st1) = Inr (ns', st')"
    by (auto split: sum.splits)
  let ?n = "ap_next_tx_num st"
  from s(1) obtain l where l: "compute_ledger e raw prefix (TX_BY_ID (ap_db st)) (TX (ap_db st)) = Inr l"
    "ns1 = ns @ [?n]" "ledger_of (ap_db st1) = ledger_of (index_ledger raw grp ?n l (ap_db st))"
    "ap_next_tx_num st1 = ?n + 1" "ap_total_txs st1 = ap_total_txs st + 1"
    by (rule apply_tx_cases)
  have "?n \<noteq> - 1" using Cons.prems(4) by (auto simp: unsigned_minus_1_eq_mask mask_eq_exp_minus_1)
  then have wrap: "?n < ?n + 1" by (simp add: less_succ_iff)
  have "distinct (map le_address l)" "list_all (\<lambda>x. utf8_str (le_address x)) l"
    using compute_ledger_distinct [OF env(1) l(1)] compute_ledger_utf8 [OF env l(1)]
    by (auto simp: list_all_iff)
  then have "ledger_inv (?n + 1) (ap_total_txs st + 1) (ap_db st1)"
    unfolding ledger_inv_cong [OF l(3)] using Cons.prems(2) wrap by (intro ledger_inv_insert)
  moreover have "pending grp ns1 (?n + 1) (ap_db st1)"
    unfolding pending_cong [OF l(3)] l(2) using Cons.prems(3) wrap by (rule pending_insert)
  moreover have "unat (?n + 1) = unat ?n + 1" using wrap by (rule unat_Suc)
  moreover have "APPLIED (ap_db st1) = APPLIED (ap_db st)"
    using l(3) by (simp add: ledger_of_eq index_ledger_tables)
  ultimately show ?case using Cons.IH [OF s(2)] Cons.prems(4) l by simp
qed

lemma close_group_inv:
  assumes inv: "ledger_inv m tot (ap_db st)" and pen: "pending grp ns m (ap_db st)"
    and new: "tab_get (APPLIED (ap_db st)) (ag_chain_block_hash grp) = None"
  shows "ledger_inv m tot (ap_db (close_group grp ns st))"
proof -
  let ?d = "ap_db (close_group grp ns st)" and ?h = "ag_chain_block_hash grp"
  have same: "TX ?d = TX (ap_db st)" "TX_BY_ID ?d = TX_BY_ID (ap_db st)"
    "ADDR_HISTORY ?d = ADDR_HISTORY (ap_db st)" "OUTPOINT_SPEND ?d = OUTPOINT_SPEND (ap_db st)"
    "ADDR_TOTALS ?d = ADDR_TOTALS (ap_db st)" "META ?d = META (ap_db st)"
    "META_STR ?d = META_STR (ap_db st)"
    by (simp_all add: close_group_def Let_def)
  have "chain_inv m ?d"
    using inv pen new unfolding ledger_inv_def chain_inv_def
    by (auto simp: close_group_def Let_def pending_def list_all_iff)
  then show ?thesis
    using inv by (simp add: ledger_inv_def ledger_tabs_ok_def rows_inv_def count_inv_def
        mentions_def same) (simp add: close_group_def Let_def)
qed

end
