(* ===== verification/StoreSteps.thy ===== *)
theory StoreSteps
  imports StoreInv
begin

text \<open>
  Every write operation of the store keeps the ledger invariant, so every database that a
  sequence of operations builds from an empty file satisfies it.
\<close>

section \<open>Applying\<close>

definition group_txs :: "AcceptedGroup list \<Rightarrow> nat" where
  "group_txs groups = sum_list (map (length \<circ> ag_txs) groups)"

lemma close_group_sel [simp]:
  "ap_next_tx_num (close_group grp ns st) = ap_next_tx_num st"
  "ap_total_txs (close_group grp ns st) = ap_total_txs st"
  by (simp_all add: close_group_def Let_def)

lemma apply_group_inv:
  assumes env: "ext_ok e" "ascii_text prefix"
    and "apply_group e prefix grp st = Inr st'"
    and inv: "ledger_inv (ap_next_tx_num st) (ap_total_txs st) (ap_db st)"
    and wrap: "unat (ap_next_tx_num st) + length (ag_txs grp) < 2 ^ 64"
  shows "ledger_inv (ap_next_tx_num st') (ap_total_txs st') (ap_db st')
    \<and> unat (ap_next_tx_num st') \<le> unat (ap_next_tx_num st) + length (ag_txs grp)"
proof (cases "tab_get (APPLIED (ap_db st)) (ag_chain_block_hash grp)")
  case None
  with assms(3) obtain ns st1 where s: "fold_res (apply_tx e prefix grp) (ag_txs grp) ([], st) = Inr (ns, st1)"
    "st' = close_group grp ns st1"
    by (auto simp: apply_group_def)
  have "pending grp [] (ap_next_tx_num st) (ap_db st)" by (simp add: pending_def)
  from apply_txs_inv [OF env s(1) inv this wrap]
  show ?thesis using close_group_inv [of _ _ st1 grp ns] None s(2) by simp
next
  case (Some daa)
  then show ?thesis using assms(3) inv by (simp add: apply_group_def)
qed

lemma apply_groups_inv:
  assumes env: "ext_ok e" "ascii_text prefix"
    and "fold_res (apply_group e prefix) groups st = Inr st'"
    and "ledger_inv (ap_next_tx_num st) (ap_total_txs st) (ap_db st)"
    and "unat (ap_next_tx_num st) + group_txs groups < 2 ^ 64"
  shows "ledger_inv (ap_next_tx_num st') (ap_total_txs st') (ap_db st')"
  using assms(3-)
proof (induction groups arbitrary: st)
  case Nil
  then show ?case by simp
next
  case (Cons grp groups)
  then obtain st1 where s: "apply_group e prefix grp st = Inr st1"
    "fold_res (apply_group e prefix) groups st1 = Inr st'"
    by (auto split: sum.splits)
  have "unat (ap_next_tx_num st) + length (ag_txs grp) < 2 ^ 64"
    using Cons.prems(3) by (simp add: group_txs_def)
  from apply_group_inv [OF env s(1) Cons.prems(2) this] Cons.IH [OF s(2)] Cons.prems(3)
  show ?case by (simp add: group_txs_def)
qed

lemma ledger_inv_meta:
  "ledger_inv m k d \<Longrightarrow> tab_ok x \<Longrightarrow> tab_ok y \<Longrightarrow> ledger_inv m k (d\<lparr> META := x, META_STR := y \<rparr>)"
  by (simp add: ledger_inv_def ledger_tabs_ok_def rows_inv_def chain_inv_def count_inv_def mentions_def)

definition store_inv :: "db \<Rightarrow> bool" where
  "store_inv d = ledger_inv (meta_u64 d ''next_tx_num'') (meta_u64 d ''total_txs'') d"

lemma store_inv_tabs: "store_inv d \<Longrightarrow> ledger_tabs_ok d"
  by (simp add: store_inv_def ledger_inv_def)

definition commit_meta :: "applying \<Rightarrow> (string, u64) tab" where
  "commit_meta st =
     (let m = tab_insert ''ai_chal_seq'' (ap_ai_chal_seq st)
                   (tab_insert ''ai_req_seq'' (ap_ai_req_seq st)
                   (tab_insert ''total_txs'' (ap_total_txs st)
                   (tab_insert ''next_tx_num'' (ap_next_tx_num st) (META (ap_db st)))))
      in case ap_checkpoint st of None \<Rightarrow> m | Some (h, daa) \<Rightarrow> tab_insert ''checkpoint_daa'' daa m)"

definition commit_meta_str :: "applying \<Rightarrow> (string, string) tab" where
  "commit_meta_str st =
     (case ap_checkpoint st of
        None \<Rightarrow> META_STR (ap_db st)
      | Some (h, daa) \<Rightarrow> tab_insert ''checkpoint_hash'' h (META_STR (ap_db st)))"

lemma finish_apply_db:
  "snd (finish_apply st) = (ap_db st)\<lparr> META := commit_meta st, META_STR := commit_meta_str st \<rparr>"
  by (auto simp: finish_apply_def commit_meta_def commit_meta_str_def Let_def split: option.splits)

lemma tab_ok_commit [simp]:
  "tab_ok (META (ap_db st)) \<Longrightarrow> tab_ok (commit_meta st)"
  "tab_ok (META_STR (ap_db st)) \<Longrightarrow> tab_ok (commit_meta_str st)"
  by (auto simp: commit_meta_def commit_meta_str_def Let_def split: option.splits)

lemma meta_after_apply:
  "meta_u64 (snd (finish_apply st)) ''next_tx_num'' = ap_next_tx_num st"
  "meta_u64 (snd (finish_apply st)) ''total_txs'' = ap_total_txs st"
  by (auto simp: finish_apply_db meta_u64_def commit_meta_def Let_def split: option.splits)

lemma store_apply_cases:
  obtains (fault) f where "store_apply io e prefix groups d = (Inl f, d)"
  | (committed) st where "io = None" "fold_res (apply_group e prefix) groups (begin_apply d) = Inr st"
      "store_apply io e prefix groups d = (Inr (fst (finish_apply st)), snd (finish_apply st))"
proof (cases io)
  case None
  show ?thesis
  proof (cases "fold_res (apply_group e prefix) groups (begin_apply d)")
    case (Inl f)
    then show ?thesis using None fault [of f] by (simp add: store_apply_def)
  next
    case (Inr st)
    then show ?thesis using None committed [of st] by (simp add: store_apply_def case_prod_beta)
  qed
next
  case (Some err)
  then show ?thesis using fault [of "Err err"] by (simp add: store_apply_def)
qed

lemma begin_apply_sel [simp]:
  "ap_db (begin_apply d) = d" "ap_next_tx_num (begin_apply d) = meta_u64 d ''next_tx_num''"
  "ap_total_txs (begin_apply d) = meta_u64 d ''total_txs''"
  by (simp_all add: begin_apply_def)

lemma store_apply_inv:
  assumes "ext_ok e" "ascii_text prefix" "store_inv d"
    and "unat (meta_u64 d ''next_tx_num'') + group_txs groups < 2 ^ 64"
  shows "store_inv (snd (store_apply io e prefix groups d))"
proof (cases rule: store_apply_cases [of io e prefix groups d])
  case (fault f)
  then show ?thesis using assms(3) by simp
next
  case (committed st)
  have "ledger_inv (ap_next_tx_num st) (ap_total_txs st) (ap_db st)"
    using apply_groups_inv [OF assms(1,2) committed(2)] assms(3,4) by (simp add: store_inv_def)
  then have "ledger_inv (ap_next_tx_num st) (ap_total_txs st) (snd (finish_apply st))"
    unfolding finish_apply_db
    by (intro ledger_inv_meta tab_ok_commit) (simp_all add: ledger_inv_def ledger_tabs_ok_def)
  then show ?thesis by (simp add: committed(3) store_inv_def meta_after_apply)
qed

section \<open>Unwinding\<close>

lemma chain_inv_remove_tx:
  "chain_inv m d \<Longrightarrow> TX d' = tab_remove n (TX d) \<Longrightarrow> APPLIED d' = APPLIED d \<Longrightarrow>
     ACCEPTED_BY d' = ACCEPTED_BY d \<Longrightarrow> CHAIN_BY_DAA d' = CHAIN_BY_DAA d \<Longrightarrow> chain_inv m d'"
  by (simp add: chain_inv_def)

lemma unwind_tx_inv:
  assumes inv: "ledger_inv m tot d" and "unwind_tx n (d, tot, r) = (d', tot', r')"
  shows "ledger_inv m tot' d' \<and> APPLIED d' = APPLIED d \<and> ACCEPTED_BY d' = ACCEPTED_BY d \<and> META d' = META d"
proof (cases "tab_get (TX d) n")
  case None
  then show ?thesis using assms by (simp add: unwind_tx_def)
next
  case (Some t)
  then have out: "d' = unwind_row n t d" "tot' = saturating_sub tot 1"
    using assms(2) by (simp_all add: unwind_tx_def)
  have row: "distinct (map le_address (it_ledger t))"
    using inv rows_invD(1) [OF _ Some, of m] by (simp add: ledger_inv_def row_ok_def)
  have parts: "rows_inv m d" "chain_inv m d" "count_inv m tot d" "tab_ok (TX d)" "ledger_tabs_ok d"
    using inv by (simp_all add: ledger_inv_def ledger_tabs_ok_def)
  have "rows_inv m d'" unfolding out by (rule rows_inv_drop [OF parts(1) Some unwind_row_dropped])
  moreover have "count_inv m tot' d'"
    unfolding out by (rule count_inv_unwind [OF parts(3,4) Some row])
  moreover have "chain_inv m d'"
    unfolding out by (rule chain_inv_remove_tx [OF parts(2)]) (simp_all add: unwind_row_tables)
  moreover have "ledger_tabs_ok d'"
    using parts(5) by (simp add: ledger_tabs_ok_def out unwind_row_tables)
  ultimately show ?thesis by (simp add: ledger_inv_def out unwind_row_tables)
qed

lemma unwind_txs_inv:
  assumes "ledger_inv m tot d" and "fold unwind_tx ns (d, tot, r) = (d', tot', r')"
  shows "ledger_inv m tot' d' \<and> APPLIED d' = APPLIED d \<and> ACCEPTED_BY d' = ACCEPTED_BY d \<and> META d' = META d"
  using assms
proof (induction ns arbitrary: d tot r)
  case Nil
  then show ?case by simp
next
  case (Cons n ns)
  obtain d1 tot1 r1 where s: "unwind_tx n (d, tot, r) = (d1, tot1, r1)" by (metis prod_cases3)
  from unwind_tx_inv [OF Cons.prems(1) s] Cons.IH [of tot1 d1 r1] Cons.prems(2) s
  show ?case by simp
qed

lemma chain_inv_forget:
  assumes "chain_inv m d" "tab_get (APPLIED d) h = Some daa"
  shows "chain_inv m (d\<lparr> ACCEPTED_BY := tab_remove h (ACCEPTED_BY d), APPLIED := tab_remove h (APPLIED d),
    CHAIN_BY_DAA := tab_remove (chain_key daa h) (CHAIN_BY_DAA d) \<rparr>)"
  using assms unfolding chain_inv_def by auto

lemma ledger_inv_chain_cong:
  assumes "ledger_inv m k d" "chain_inv m d'" "TX d' = TX d" "TX_BY_ID d' = TX_BY_ID d"
    "ADDR_HISTORY d' = ADDR_HISTORY d" "OUTPOINT_SPEND d' = OUTPOINT_SPEND d"
    "ADDR_TOTALS d' = ADDR_TOTALS d" "META d' = META d" "META_STR d' = META_STR d"
    "tab_ok (APPLIED d')" "tab_ok (ACCEPTED_BY d')" "tab_ok (CHAIN_BY_DAA d')"
  shows "ledger_inv m k d'"
  using assms
  by (simp add: ledger_inv_def ledger_tabs_ok_def rows_inv_def count_inv_def mentions_def)

lemma unwind_inv:
  assumes "store_inv d"
  shows "store_inv (snd (unwind_chain_block io hash d))"
proof (cases "io = None \<and> tab_get (ACCEPTED_BY d) hash \<noteq> None")
  case False
  then show ?thesis using assms by (auto simp: unwind_chain_block_def split: option.splits)
next
  case True
  then obtain ns where ns: "tab_get (ACCEPTED_BY d) hash = Some ns" by auto
  obtain d1 tot1 r1 where f: "fold unwind_tx (rev ns) (d, meta_u64 d ''total_txs'', 0) = (d1, tot1, r1)"
    by (metis prod_cases3)
  let ?m = "meta_u64 d ''next_tx_num''"
  have inv: "ledger_inv ?m (meta_u64 d ''total_txs'') d" using assms by (simp add: store_inv_def)
  note i1 = unwind_txs_inv [OF inv f]
  obtain daa where daa: "tab_get (APPLIED d) hash = Some daa"
    using inv ns unfolding ledger_inv_def chain_inv_def by (metis not_None_eq)
  let ?d2 = "d1\<lparr> ACCEPTED_BY := tab_remove hash (ACCEPTED_BY d1), APPLIED := tab_remove hash (APPLIED d1),
    CHAIN_BY_DAA := tab_remove (chain_key daa hash) (CHAIN_BY_DAA d1) \<rparr>"
  have p1: "chain_inv ?m d1" "tab_get (APPLIED d1) hash = Some daa" "ledger_tabs_ok d1"
    using i1 daa by (simp_all add: ledger_inv_def)
  have "ledger_inv ?m tot1 ?d2"
    by (rule ledger_inv_chain_cong [OF conjunct1 [OF i1] chain_inv_forget [OF p1(1,2)]])
      (use p1(3) in \<open>simp_all add: ledger_tabs_ok_def\<close>)
  then have "ledger_inv ?m tot1 (?d2\<lparr> META := tab_insert ''total_txs'' tot1 (META ?d2), META_STR := META_STR ?d2 \<rparr>)"
    by (intro ledger_inv_meta) (simp_all add: ledger_inv_def ledger_tabs_ok_def)
  moreover have "meta_u64 d1 ''next_tx_num'' = ?m" using i1 by (simp add: meta_u64_def)
  ultimately show ?thesis
    using True ns f daa by (simp add: unwind_chain_block_def store_inv_def meta_u64_def)
qed

section \<open>Expiring\<close>

lemma expire_row_inv:
  assumes inv: "ledger_inv m tot d" and t: "tab_get (TX d) n = Some t"
    and out: "expire_row (n, t) (d, r) = (d', r')"
  shows "ledger_inv m tot d'"
proof -
  have d': "d' = fst (expire_row (n, t) (d, r))" using out by simp
  have parts: "rows_inv m d" "chain_inv m d" "count_inv m tot d" "ledger_tabs_ok d"
    using inv by (simp_all add: ledger_inv_def)
  have "rows_inv m d'" unfolding d' by (rule rows_inv_drop [OF parts(1) t expire_row_dropped])
  moreover have "count_inv m tot d'"
    unfolding d' by (rule count_inv_shrink [OF parts(3)]) (simp_all add: expire_row_tables)
  moreover have "chain_inv m d'"
    unfolding d' by (rule chain_inv_remove_tx [OF parts(2)]) (simp_all add: expire_row_tables)
  moreover have "ledger_tabs_ok d'"
    using parts(4) by (simp add: ledger_tabs_ok_def d' expire_row_tables)
  ultimately show ?thesis by (simp add: ledger_inv_def)
qed

lemma expire_rows_inv:
  assumes "ledger_inv m tot d" "distinct (map fst rows)"
    and "\<And>n t. (n, t) \<in> set rows \<Longrightarrow> tab_get (TX d) n = Some t"
    and "fold expire_row rows (d, r) = (d', r')"
  shows "ledger_inv m tot d' \<and> META d' = META d"
  using assms
proof (induction rows arbitrary: d r)
  case Nil
  then show ?case by simp
next
  case (Cons row rows)
  obtain n t where row: "row = (n, t)" by fastforce
  obtain d1 r1 where s: "expire_row (n, t) (d, r) = (d1, r1)" by fastforce
  have t: "tab_get (TX d) n = Some t" using Cons.prems(3) row by simp
  have d1: "TX d1 = tab_remove n (TX d)" "META d1 = META d"
    using s by (auto simp: expire_row_tables)
  have "tab_get (TX d1) k = Some u" if "(k, u) \<in> set rows" for k u
    using that Cons.prems(2,3) row d1 by force
  with Cons.IH [of d1 r1] Cons.prems(2,4) expire_row_inv [OF Cons.prems(1) t s] s row d1
  show ?case by simp
qed

lemma expire_txs_inv:
  assumes "ledger_inv m tot d" "expire_txs cutoff d = (d', r')"
  shows "ledger_inv m tot d' \<and> META d' = META d"
proof -
  let ?rows = "takeWhile (\<lambda>(k, itx). it_accepting_daa itx < cutoff) (TX d)"
  have ok: "tab_ok (TX d)" using assms(1) by (simp add: ledger_inv_def ledger_tabs_ok_def)
  have "distinct (map fst ?rows)"
    using tab_ok_distinct [OF ok] by (metis (no_types) distinct_append map_append takeWhile_dropWhile_id)
  moreover have "tab_get (TX d) n = Some t" if "(n, t) \<in> set ?rows" for n t
    using that ok by (auto dest!: set_takeWhileD simp: tab_get_set)
  ultimately show ?thesis
    using expire_rows_inv [OF assms(1)] assms(2) unfolding expire_txs_def by blast
qed

lemma expire_chain_tables:
  "fold (\<lambda>(key, hash) d. d\<lparr> CHAIN_BY_DAA := tab_remove key (CHAIN_BY_DAA d),
        APPLIED := tab_remove hash (APPLIED d), ACCEPTED_BY := tab_remove hash (ACCEPTED_BY d) \<rparr>) rows d
   = d\<lparr> CHAIN_BY_DAA := tab_remove_all (map fst rows) (CHAIN_BY_DAA d),
        APPLIED := tab_remove_all (map snd rows) (APPLIED d),
        ACCEPTED_BY := tab_remove_all (map snd rows) (ACCEPTED_BY d) \<rparr>"
  by (induction rows arbitrary: d) (auto simp: case_prod_beta)

definition old_blocks :: "u64 \<Rightarrow> db \<Rightarrow> (bytes \<times> string) list" where
  "old_blocks cutoff d = takeWhile (\<lambda>(key, hash). u64_of_be (take 8 key) < cutoff) (CHAIN_BY_DAA d)"

lemma chain_inv_expire:
  assumes inv: "chain_inv m d" and ok: "tab_ok (CHAIN_BY_DAA d)" and rows: "set rows \<subseteq> set (CHAIN_BY_DAA d)"
  shows "chain_inv m (d\<lparr> CHAIN_BY_DAA := tab_remove_all (map fst rows) (CHAIN_BY_DAA d),
        APPLIED := tab_remove_all (map snd rows) (APPLIED d),
        ACCEPTED_BY := tab_remove_all (map snd rows) (ACCEPTED_BY d) \<rparr>)"
proof -
  have row: "\<exists>daa. tab_get (APPLIED d) h = Some daa \<and> k = chain_key daa h" if "(k, h) \<in> set rows" for k h
    using that rows inv ok by (auto simp: chain_inv_def tab_get_set)
  have key: "chain_key daa h \<in> fst ` set rows \<longleftrightarrow> h \<in> snd ` set rows"
    if "tab_get (APPLIED d) h = Some daa" for h daa
    using that row by force
  have c: "tab_get (CHAIN_BY_DAA d) k = Some h \<longleftrightarrow>
      (\<exists>daa. tab_get (APPLIED d) h = Some daa \<and> k = chain_key daa h)" for k h
    using inv by (simp add: chain_inv_def)
  have "tab_get (tab_remove_all (map fst rows) (CHAIN_BY_DAA d)) k = Some h \<longleftrightarrow>
      (\<exists>daa. tab_get (tab_remove_all (map snd rows) (APPLIED d)) h = Some daa \<and> k = chain_key daa h)"
    for k h
  proof (cases "h \<in> snd ` set rows")
    case True
    then have "\<not> (k \<notin> fst ` set rows \<and> tab_get (CHAIN_BY_DAA d) k = Some h)"
      using c [of k h] key by metis
    then show ?thesis using True by (simp del: not_Some_eq) blast
  next
    case False
    then have "tab_get (CHAIN_BY_DAA d) k = Some h \<Longrightarrow> k \<notin> fst ` set rows"
      using c [of k h] key by metis
    then show ?thesis using False c [of k h] by auto
  qed
  then show ?thesis using inv unfolding chain_inv_def by simp
qed

lemma expire_chain_inv:
  assumes "ledger_inv m tot d"
  shows "ledger_inv m tot (expire_chain cutoff d) \<and> META (expire_chain cutoff d) = META d"
proof -
  have eq: "expire_chain cutoff d = d\<lparr>
        CHAIN_BY_DAA := tab_remove_all (map fst (old_blocks cutoff d)) (CHAIN_BY_DAA d),
        APPLIED := tab_remove_all (map snd (old_blocks cutoff d)) (APPLIED d),
        ACCEPTED_BY := tab_remove_all (map snd (old_blocks cutoff d)) (ACCEPTED_BY d) \<rparr>"
    by (simp add: expire_chain_def expire_chain_tables old_blocks_def)
  have parts: "chain_inv m d" "tab_ok (CHAIN_BY_DAA d)" "ledger_tabs_ok d"
    using assms by (simp_all add: ledger_inv_def ledger_tabs_ok_def)
  have "set (old_blocks cutoff d) \<subseteq> set (CHAIN_BY_DAA d)"
    by (auto simp: old_blocks_def dest: set_takeWhileD)
  from chain_inv_expire [OF parts(1,2) this]
  have "ledger_inv m tot (expire_chain cutoff d)"
    unfolding eq by (rule ledger_inv_chain_cong [OF assms]) (use parts(3) in \<open>simp_all add: ledger_tabs_ok_def\<close>)
  then show ?thesis by (simp add: eq)
qed

lemma ledger_of_expire_requests: "ledger_of (expire_requests cutoff d) = ledger_of d"
proof -
  have "ledger_of (fold (\<lambda>(seq, row) d.
         let rec = dec_request row
         in d\<lparr> AI_REQ := tab_remove seq (AI_REQ d),
               AI_REQ_BY_HASH :=
                 tab_remove (qr_tx_id rec) (tab_remove (qr_request_hash rec) (AI_REQ_BY_HASH d)),
               AI_RESP := tab_remove (qr_tx_id rec) (tab_remove (qr_request_hash rec) (AI_RESP d)) \<rparr>)
       rows d) = ledger_of d" for rows
    by (induction rows arbitrary: d) (auto simp: Let_def)
  then show ?thesis by (simp add: expire_requests_def)
qed

lemma ledger_of_expire_rest:
  "ledger_of (expire_responses cutoff d) = ledger_of d" "ledger_of (expire_marks cutoff d) = ledger_of d"
  by (simp_all add: expire_responses_def expire_marks_def Let_def)

lemma expire_inv:
  assumes "store_inv d"
  shows "store_inv (snd (expire_below io cutoff d))"
proof (cases io)
  case None
  obtain d1 r1 where e: "expire_txs cutoff d = (d1, r1)" by fastforce
  let ?m = "meta_u64 d ''next_tx_num''" and ?t = "meta_u64 d ''total_txs''"
  define d2 where "d2 = expire_chain cutoff d1"
  define d3 where "d3 = expire_marks cutoff (expire_responses cutoff (expire_requests cutoff d2))"
  have i1: "ledger_inv ?m ?t d1" "META d1 = META d"
    using expire_txs_inv [OF _ e] assms by (simp_all add: store_inv_def)
  have i2: "ledger_inv ?m ?t d2" "META d2 = META d"
    using expire_chain_inv [OF i1(1)] i1(2) by (simp_all add: d2_def)
  have "ledger_of d3 = ledger_of d2"
    by (simp add: d3_def ledger_of_expire_rest ledger_of_expire_requests)
  then have "ledger_inv ?m ?t d3" "META d3 = META d"
    using i2 ledger_inv_cong [of d3 d2] by (simp_all add: ledger_of_eq)
  then show ?thesis
    using None e by (simp add: expire_below_def d3_def d2_def store_inv_def meta_u64_def)
next
  case (Some err)
  then show ?thesis using assms by (simp add: expire_below_def)
qed

section \<open>Reachable databases\<close>

lemma open_inv: "store_inv d \<Longrightarrow> store_inv (snd (store_open io d))"
proof -
  assume inv: "store_inv d"
  then have "ledger_inv (meta_u64 d ''next_tx_num'') (meta_u64 d ''total_txs'')
      (d\<lparr> META := tab_insert ''schema'' SCHEMA_VERSION (META d), META_STR := META_STR d \<rparr>)"
    by (intro ledger_inv_meta) (simp_all add: store_inv_def ledger_inv_def ledger_tabs_ok_def)
  then show ?thesis
    using inv by (auto simp: store_open_def store_inv_def meta_u64_def split: option.splits)
qed

lemma set_checkpoint_inv: "store_inv d \<Longrightarrow> store_inv (snd (set_checkpoint io hash daa d))"
proof -
  assume inv: "store_inv d"
  then have "ledger_inv (meta_u64 d ''next_tx_num'') (meta_u64 d ''total_txs'')
      (d\<lparr> META := tab_insert ''checkpoint_daa'' daa (META d),
         META_STR := tab_insert ''checkpoint_hash'' hash (META_STR d) \<rparr>)"
    by (intro ledger_inv_meta) (simp_all add: store_inv_def ledger_inv_def ledger_tabs_ok_def)
  moreover have "set_checkpoint None hash daa d = (Inr (), d\<lparr> META := tab_insert ''checkpoint_daa'' daa (META d),
         META_STR := tab_insert ''checkpoint_hash'' hash (META_STR d) \<rparr>)"
    by (cases d) (simp add: set_checkpoint_def)
  ultimately show ?thesis
    using inv by (cases io) (simp_all add: store_inv_def meta_u64_def, simp add: set_checkpoint_def)
qed

text \<open>
  A step of the store is one of its write operations, with any outcome of the storage. An
  apply is a step as long as the transaction numbers do not exceed 64 bits.
\<close>

inductive store_step :: "ext \<Rightarrow> string \<Rightarrow> db \<Rightarrow> db \<Rightarrow> bool" for e prefix where
  step_open: "store_step e prefix d (snd (store_open io d))"
| step_apply: "unat (meta_u64 d ''next_tx_num'') + group_txs groups < 2 ^ 64 \<Longrightarrow>
    store_step e prefix d (snd (store_apply io e prefix groups d))"
| step_unwind: "store_step e prefix d (snd (unwind_chain_block io hash d))"
| step_expire: "store_step e prefix d (snd (expire_below io cutoff d))"
| step_checkpoint: "store_step e prefix d (snd (set_checkpoint io hash daa d))"

inductive_cases store_stepE: "store_step e prefix d d'"

lemma store_inv_empty: "store_inv empty_db"
  using ledger_inv_empty by (simp add: store_inv_def meta_u64_def) (simp add: empty_db_def)

lemma store_step_inv:
  assumes "ext_ok e" "ascii_text prefix" "store_inv d" "store_step e prefix d d'"
  shows "store_inv d'"
  using assms(4)
  by (cases rule: store_stepE)
    (auto intro: open_inv store_apply_inv [OF assms(1,2)] unwind_inv expire_inv set_checkpoint_inv assms(3))

definition store_env :: "ext \<Rightarrow> string \<Rightarrow> bool" where
  "store_env e prefix = (ext_ok e \<and> ascii_text prefix)"

interpretation store: invariant_system "\<lambda>d. d = empty_db \<and> store_env e prefix" "store_step e prefix"
    "\<lambda>d. store_env e prefix \<and> store_inv d"
  by unfold_locales (auto simp: store_inv_empty store_env_def intro: store_step_inv)

definition store_reachable :: "ext \<Rightarrow> string \<Rightarrow> db \<Rightarrow> bool" where
  "store_reachable e prefix d = (store_env e prefix \<and> (store_step e prefix)\<^sup>*\<^sup>* empty_db d)"

lemma reachable_inv: "store_reachable e prefix d \<Longrightarrow> store_inv d"
  using store.reach_inv [of e prefix empty_db d] by (simp add: store_reachable_def)

end
