(* ===== verification/StoreSide.thy ===== *)
theory StoreSide
  imports StoreSteps
begin

text \<open>
  The request, challenge and capability tables stand beside the ledger: only the payloads of
  a block's transactions and the sweep change them. What those few writes keep therefore
  holds in every reachable database, which the locale \<open>side_table\<close> proves once.
\<close>

definition side_of ::
  "db \<Rightarrow> (u64, (AiRequestRec, AiRequestRecV1) compat) tab \<times> (u64, AiChallengeRec) tab \<times> (bytes, u64) tab" where
  "side_of d = (AI_REQ d, AI_CHAL d, AI_CAPS d)"

lemma side_ledger: "side_of (index_ledger raw grp n l d) = side_of d"
  by (simp add: side_of_def index_ledger_tables)

lemma side_close: "side_of (ap_db (close_group grp ns st)) = side_of (ap_db st)"
  by (simp add: side_of_def close_group_def Let_def)

lemma side_finish: "side_of (snd (finish_apply st)) = side_of (ap_db st)"
  by (simp add: side_of_def finish_apply_db)

lemma side_unwind: "side_of (snd (unwind_chain_block io hash d)) = side_of d"
proof -
  have "side_of (fst (fold unwind_tx ns (d, tot, r))) = side_of d" for ns tot r
  proof (induction ns arbitrary: d tot r)
    case (Cons n ns)
    then show ?case
      by (cases "tab_get (TX d) n") (simp_all add: unwind_tx_def side_of_def unwind_row_tables)
  qed simp
  then show ?thesis
    by (auto simp: unwind_chain_block_def case_prod_beta side_of_def split: option.split)
qed

lemma side_expire_txs: "side_of (fst (expire_txs cutoff d)) = side_of d"
proof -
  have "side_of (fst (fold expire_row rows (d, r))) = side_of d" for rows d r
  proof (induction rows arbitrary: d r)
    case (Cons p rows)
    then show ?case by (cases p) (simp add: side_of_def expire_row_tables)
  qed simp
  then show ?thesis by (simp add: expire_txs_def case_prod_beta Let_def)
qed

lemma side_expire_rest:
  "side_of (expire_chain cutoff d) = side_of d" "side_of (expire_responses cutoff d) = side_of d"
  by (simp_all add: side_of_def expire_chain_def expire_chain_tables expire_responses_def Let_def)

lemma side_meta:
  "side_of (snd (store_open io d)) = side_of d" "side_of (snd (set_checkpoint io hash daa d)) = side_of d"
  by (auto simp: side_of_def store_open_def set_checkpoint_def split: option.split)

text \<open>Expiring a request takes its row out of the request table.\<close>

lemma expire_requests_side:
  "AI_REQ (expire_requests cutoff d) = tab_remove_all
     (map fst (filter (\<lambda>(seq, row). qr_daa_score (dec_request row) < cutoff) (AI_REQ d))) (AI_REQ d)"
  "AI_CHAL (expire_requests cutoff d) = AI_CHAL d" "AI_CAPS (expire_requests cutoff d) = AI_CAPS d"
proof -
  let ?del = "\<lambda>(seq, row) (d :: db). let rec = dec_request row
         in d\<lparr> AI_REQ := tab_remove seq (AI_REQ d),
               AI_REQ_BY_HASH := tab_remove (qr_tx_id rec) (tab_remove (qr_request_hash rec) (AI_REQ_BY_HASH d)),
               AI_RESP := tab_remove (qr_tx_id rec) (tab_remove (qr_request_hash rec) (AI_RESP d)) \<rparr>"
  have "AI_REQ (fold ?del rows d) = tab_remove_all (map fst rows) (AI_REQ d)
      \<and> AI_CHAL (fold ?del rows d) = AI_CHAL d \<and> AI_CAPS (fold ?del rows d) = AI_CAPS d" for rows d
    by (induction rows arbitrary: d) (auto simp: Let_def)
  then show "AI_REQ (expire_requests cutoff d) = tab_remove_all
     (map fst (filter (\<lambda>(seq, row). qr_daa_score (dec_request row) < cutoff) (AI_REQ d))) (AI_REQ d)"
    "AI_CHAL (expire_requests cutoff d) = AI_CHAL d" "AI_CAPS (expire_requests cutoff d) = AI_CAPS d"
    by (simp_all add: expire_requests_def)
qed

section \<open>What the writes keep holds in every reachable database\<close>

locale side_table =
  fixes P :: "db \<Rightarrow> bool" and e :: ext
  assumes frame: "side_of d' = side_of d \<Longrightarrow> P d \<Longrightarrow> P d'"
    and starts: "P empty_db"
    and subnetwork: "index_subnetwork e grp raw n st = Inr st' \<Longrightarrow> P (ap_db st) \<Longrightarrow> P (ap_db st')"
    and announce: "index_caps grp raw st = Inr st' \<Longrightarrow> P (ap_db st) \<Longrightarrow> P (ap_db st')"
    and requests: "P d \<Longrightarrow> P (expire_requests cutoff d)"
    and marks: "P d \<Longrightarrow> P (expire_marks cutoff d)"
begin

lemma tx_keeps:
  assumes "apply_tx e prefix grp raw (ns, st) = Inr r" "P (ap_db st)"
  shows "P (ap_db (snd r))"
proof -
  from assms(1) obtain l st1 st2 where
    s1: "index_subnetwork e grp raw (ap_next_tx_num st)
         (st\<lparr> ap_next_tx_num := ap_next_tx_num st + 1,
              ap_db := index_ledger raw grp (ap_next_tx_num st) l (ap_db st) \<rparr>) = Inr st1"
    and s2: "index_caps grp raw st1 = Inr st2" and out: "ap_db (snd r) = ap_db st2"
    by (auto simp: apply_tx_def Let_def)
  have "P (ap_db st1)" using subnetwork [OF s1] frame [OF side_ledger assms(2)] by simp
  then show ?thesis using announce [OF s2] out by simp
qed

lemma group_keeps:
  assumes "apply_group e prefix grp st = Inr st'" "P (ap_db st)"
  shows "P (ap_db st')"
proof (cases "tab_get (APPLIED (ap_db st)) (ag_chain_block_hash grp)")
  case None
  then obtain ns st1 where s: "fold_res (apply_tx e prefix grp) (ag_txs grp) ([], st) = Inr (ns, st1)"
    "st' = close_group grp ns st1"
    using assms(1) by (auto simp: apply_group_def)
  have "P (ap_db (snd (ns, st1)))"
    by (rule fold_res_invariant [where P = "\<lambda>r. P (ap_db (snd r))", OF s(1)])
      (use assms(2) in \<open>auto intro: tx_keeps\<close>)
  then show ?thesis using frame [OF side_close] s(2) by simp
qed (use assms in \<open>auto simp: apply_group_def\<close>)

lemma apply_keeps: "P d \<Longrightarrow> P (snd (store_apply io e prefix groups d))"
proof (cases rule: store_apply_cases [of io e prefix groups d])
  case (committed st)
  assume "P d"
  then have "P (ap_db st)"
    by (intro fold_res_invariant [where P = "\<lambda>st. P (ap_db st)", OF committed(2)]) (auto intro: group_keeps)
  then show ?thesis using frame [OF side_finish] by (simp add: committed(3))
qed simp

lemma expire_keeps: "P d \<Longrightarrow> P (snd (expire_below io cutoff d))"
  by (auto simp: expire_below_def case_prod_beta intro!: marks requests frame [OF side_expire_txs]
      frame [OF side_expire_rest(1)] frame [OF side_expire_rest(2)] split: option.split)

lemma step_keeps:
  assumes "P d" "store_step e prefix d d'"
  shows "P d'"
  using assms(2)
  by (cases rule: store_step.cases)
    (use assms(1) in \<open>auto intro: frame [OF side_meta(1)] frame [OF side_meta(2)] frame [OF side_unwind]
       apply_keeps expire_keeps\<close>)

end

sublocale side_table \<subseteq> side: invariant_system "\<lambda>d. d = empty_db" "store_step e prefix" P
  by unfold_locales (auto intro: starts step_keeps)

context side_table
begin

lemma reachable_keeps: "store_reachable e prefix d \<Longrightarrow> P d"
  using side.reach_inv by (auto simp: store_reachable_def)

end

end
