(* ===== verification/StoreProps.thy ===== *)
theory StoreProps
  imports StoreSteps
begin

text \<open>
  What the reads of a reachable database return: lookups never dangle and return what was
  asked for, an address history is exactly the rows of the stored transactions that touch
  the address, newest first, and the counters cover what is stored.
\<close>

section \<open>A sample database\<close>

definition sample_group :: AcceptedGroup where
  "sample_group = \<lparr> ag_chain_block_hash = ''b1'', ag_daa_score = 10,
     ag_txs = [sample_tx ''aa'' True [] [3, 4]] \<rparr>"

definition sample_db :: db where
  "sample_db = snd (store_apply None ext_sample ''keryxsim'' [sample_group] empty_db)"

definition sample_entry :: LedgerEntry where
  "sample_entry = \<lparr> le_address = sample_address, le_credit = 7, le_debit = 0 \<rparr>"

definition sample_row :: IndexedTx where
  "sample_row = build_indexed (sample_tx ''aa'' True [] [3, 4]) 0 sample_group [sample_entry]"

lemma sample_no_subnet: "rt_subnetwork_id (sample_tx i c ins outs) = []"
  by (simp add: sample_tx_def)

lemma sample_steps:
  "index_subnetwork e grp (sample_tx i c ins outs) n st = Inr st"
  "index_caps grp (sample_tx i c ins outs) st = Inr st"
  by (simp_all add: index_subnetwork_def sample_no_subnet SUBNET_AI_REQUEST_def
      SUBNET_AI_RESPONSE_def SUBNET_AI_CHALLENGE_def index_caps_def sample_tx_def from_hex_def
      parse_ai_caps_def find_bytes_def)

lemma rt_coinbase_sample: "rt_is_coinbase (sample_tx i c ins outs) = c"
  "rt_tx_id (sample_tx i c ins outs) = i" "rt_inputs (sample_tx i c ins outs) = ins"
  by (simp_all add: sample_tx_def)

lemma sample_apply:
  "store_apply None ext_sample ''keryxsim'' [sample_group] empty_db =
     (Inr \<lparr> as_applied_blocks = 1, as_applied_txs = 1, as_total_txs = 1, as_checkpoint_daa = 10 \<rparr>,
      empty_db\<lparr> TX := [(0, sample_row)], TX_BY_ID := [(''aa'', 0)], APPLIED := [(''b1'', 10)],
        ADDR_HISTORY := [(hist_key sample_address 0, hist_row_of sample_row sample_entry)],
        CHAIN_BY_DAA := [(chain_key 10 ''b1'', ''b1'')], ADDR_TOTALS := [(sample_address, (7, 1))],
        ACCEPTED_BY := [(''b1'', [0])],
        META := [(''ai_chal_seq'', 0), (''ai_req_seq'', 0), (''checkpoint_daa'', 10),
                 (''next_tx_num'', 1), (''total_txs'', 1)],
        META_STR := [(''checkpoint_hash'', ''b1'')] \<rparr>)"
  unfolding store_apply_def
  by (simp add: begin_apply_def apply_group_def sample_group_def apply_tx_def sample_ledger sample_steps
      close_group_def finish_apply_def empty_db_def meta_u64_def index_ledger_tables Let_def
      credit_totals_def read_totals_def hist_row_def hist_row_of_def sample_row_def build_indexed_def
      sample_entry_def spent_inputs_def rt_coinbase_sample)

lemmas sample_db_eq = sample_db_def [unfolded sample_apply snd_conv]

text \<open>A second block, whose transaction spends the first output of the sample coinbase.\<close>

definition sample_in :: RawIn where
  "sample_in = \<lparr> ri_previous_tx_id = ''aa'', ri_previous_index = 0, ri_signature_script = [],
     ri_sequence = 0, ri_sig_op_count = 0 \<rparr>"

definition sample_group2 :: AcceptedGroup where
  "sample_group2 = \<lparr> ag_chain_block_hash = ''b2'', ag_daa_score = 11,
     ag_txs = [sample_tx ''bb'' False [sample_in] []] \<rparr>"

definition sample_db2 :: db where
  "sample_db2 = snd (store_apply None ext_sample ''keryxsim'' [sample_group2] sample_db)"

definition sample_entry2 :: LedgerEntry where
  "sample_entry2 = \<lparr> le_address = sample_address, le_credit = 0, le_debit = 3 \<rparr>"

definition sample_row2 :: IndexedTx where
  "sample_row2 = build_indexed (sample_tx ''bb'' False [sample_in] []) 1 sample_group2 [sample_entry2]"

lemma sample_ledger2:
  "compute_ledger ext_sample (sample_tx ''bb'' False [sample_in] []) ''keryxsim''
     [(''aa'', 0)] [(0, sample_row)] = Inr [sample_entry2]"
  by (simp add: compute_ledger_def sample_tx_def debit_input_eq funding_output_def sample_in_def
      tab_get_def sample_row_def build_indexed_def nth_opt_def debit_output_def sample_out_def
      sample_script ext_sample_def sample_entry2_def)

lemma raw_key_sample: "raw_key sample_in = outpoint_key ''aa'' 0"
  by (simp add: raw_key_def sample_in_def)

lemma sample_apply2:
  "store_apply None ext_sample ''keryxsim'' [sample_group2] sample_db =
     (Inr \<lparr> as_applied_blocks = 1, as_applied_txs = 1, as_total_txs = 2, as_checkpoint_daa = 11 \<rparr>,
      empty_db\<lparr> TX := [(0, sample_row), (1, sample_row2)], TX_BY_ID := [(''aa'', 0), (''bb'', 1)],
        APPLIED := [(''b1'', 10), (''b2'', 11)],
        ADDR_HISTORY := [(hist_key sample_address 0, hist_row_of sample_row sample_entry),
                         (hist_key sample_address 1, hist_row_of sample_row2 sample_entry2)],
        OUTPOINT_SPEND := [(outpoint_key ''aa'' 0, 1)],
        CHAIN_BY_DAA := [(chain_key 10 ''b1'', ''b1''), (chain_key 11 ''b2'', ''b2'')],
        ADDR_TOTALS := [(sample_address, (7, 2))],
        ACCEPTED_BY := [(''b1'', [0]), (''b2'', [1])],
        META := [(''ai_chal_seq'', 0), (''ai_req_seq'', 0), (''checkpoint_daa'', 11),
                 (''next_tx_num'', 2), (''total_txs'', 2)],
        META_STR := [(''checkpoint_hash'', ''b2'')] \<rparr>)"
  unfolding sample_db_eq store_apply_def
  by (simp add: begin_apply_def apply_group_def sample_group2_def apply_tx_def sample_ledger2 sample_steps
      close_group_def finish_apply_def empty_db_def meta_u64_def index_ledger_tables Let_def tab_get_def
      credit_totals_def read_totals_def hist_row_def hist_row_of_def sample_row2_def build_indexed_def
      sample_entry2_def spent_inputs_def rt_coinbase_sample raw_key_sample hist_key_mono
      chain_key_less [THEN less_not_sym])

lemma sample_reachable: "store_reachable ext_sample ''keryxsim'' sample_db"
proof -
  have "store_step ext_sample ''keryxsim'' empty_db sample_db"
    unfolding sample_db_def
    by (rule step_apply) (simp add: group_txs_def sample_group_def meta_u64_def empty_db_def)
  moreover have "store_env ext_sample ''keryxsim''"
    by (simp add: store_env_def ext_ok_sample ascii_text_def)
  ultimately show ?thesis by (auto simp: store_reachable_def)
qed

lemmas sample_db_simps = sample_db_eq

lemma sample_reachable2: "store_reachable ext_sample ''keryxsim'' sample_db2"
proof -
  have "store_step ext_sample ''keryxsim'' sample_db sample_db2"
    unfolding sample_db2_def
    by (rule step_apply)
      (simp add: group_txs_def sample_group2_def meta_u64_def sample_db_simps tab_get_def)
  moreover have "(store_step ext_sample ''keryxsim'')\<^sup>*\<^sup>* empty_db sample_db" "store_env ext_sample ''keryxsim''"
    using sample_reachable by (simp_all add: store_reachable_def)
  ultimately show ?thesis unfolding store_reachable_def by auto
qed

lemmas sample_db2_simps = sample_db2_def [unfolded sample_apply2 snd_conv]

section \<open>Lookups\<close>

lemma reachable_rows: "store_reachable e prefix d \<Longrightarrow> rows_inv (meta_u64 d ''next_tx_num'') d"
  using reachable_inv by (auto simp: store_inv_def ledger_inv_def)

lemma reachable_tabs: "store_reachable e prefix d \<Longrightarrow> ledger_tabs_ok d"
  using reachable_inv store_inv_tabs by blast

text \<open>In a reachable database the id index never dangles: an indexed id always leads
  to a stored transaction, and the transaction a lookup returns has the id that was asked
  for and is the stored row of its own number.\<close>

theorem tx_by_id_sound:
  assumes "store_reachable e prefix d"
  shows "(tx_by_id None txid d = Inr None \<longleftrightarrow> tab_get (TX_BY_ID d) txid = None)
    \<and> (\<forall>t. tx_by_id None txid d = Inr (Some t) \<longrightarrow>
          it_tx_id t = txid \<and> tab_get (TX d) (it_tx_num t) = Some t)"
proof -
  note inv = rows_invD [OF reachable_rows [OF assms]]
  show ?thesis
    using inv(1) inv(2) [of txid]
    by (auto simp: tx_by_id_def row_ok_def split: option.splits)
qed

theorem tx_by_id_sound_witness:
  "tx_by_id None ''aa'' sample_db = Inr (Some sample_row) \<and> it_tx_id sample_row = ''aa''"
proof -
  have "tx_by_id None ''aa'' sample_db = Inr (Some sample_row)"
    by (simp add: tx_by_id_def sample_db_simps tab_get_def)
  then show ?thesis using tx_by_id_sound [OF sample_reachable, of "''aa''"] by simp
qed

lemma spender_row:
  assumes "store_reachable e prefix d" "tab_get (OUTPOINT_SPEND d) (outpoint_key txid index) = Some n"
  shows "\<exists>t. tab_get (TX d) n = Some t \<and> \<not> it_is_coinbase t \<and> it_tx_num t = n
    \<and> (\<exists>i\<in>set (it_inputs t). si_previous_tx_id i = txid \<and> si_previous_index i = index)"
proof -
  note inv = rows_invD [OF reachable_rows [OF assms(1)]]
  show ?thesis
    using inv(3) [OF assms(2)] inv(1) by (auto simp: inputs_of_def in_key_def row_ok_def split: if_splits)
qed

text \<open>The spender lookup is sound: in a reachable database the transaction returned for
  an outpoint is a stored non-coinbase transaction that has the outpoint among its inputs,
  and an outpoint known as spent always has its spender at hand.\<close>

theorem spend_of_sound:
  assumes "store_reachable e prefix d"
  shows "(spend_of None txid index d = Inr None \<longleftrightarrow>
            tab_get (OUTPOINT_SPEND d) (outpoint_key txid index) = None)
    \<and> (\<forall>t. spend_of None txid index d = Inr (Some t) \<longrightarrow>
          \<not> it_is_coinbase t \<and> tab_get (TX d) (it_tx_num t) = Some t
          \<and> (\<exists>i\<in>set (it_inputs t). si_previous_tx_id i = txid \<and> si_previous_index i = index))"
  using spender_row [OF assms, of txid index] by (fastforce simp: spend_of_def split: option.splits)

theorem spend_of_sound_witness:
  "spend_of None ''aa'' 0 sample_db2 = Inr (Some sample_row2) \<and> \<not> it_is_coinbase sample_row2"
proof -
  have "spend_of None ''aa'' 0 sample_db2 = Inr (Some sample_row2)"
    by (simp add: spend_of_def sample_db2_simps tab_get_def)
  then show ?thesis using spend_of_sound [OF sample_reachable2, of "''aa''" 0] by simp
qed

section \<open>Histories\<close>

definition history_rows :: "string \<Rightarrow> db \<Rightarrow> HistRow list" where
  "history_rows addr d =
     concat (map (\<lambda>(n, t). map (hist_row_of t) (filter (\<lambda>x. le_address x = addr) (it_ledger t)))
       (rev (TX d)))"

lemma mention_entry:
  assumes "distinct (map le_address l)" "x \<in> set l"
  shows "filter (\<lambda>y. le_address y = le_address x) l = [x]"
proof -
  obtain us vs where l: "l = us @ x # vs" using assms(2) by (metis split_list)
  then have "filter (\<lambda>y. le_address y = le_address x) us = []"
    "filter (\<lambda>y. le_address y = le_address x) vs = []"
    using assms(1) by (auto simp: filter_empty_conv image_iff)
  then show ?thesis by (simp add: l)
qed

lemma history_numbers:
  assumes inv: "rows_inv m d" and ok: "tab_ok (TX d)"
  shows "{n. tab_get (ADDR_HISTORY d) (hist_key addr n) \<noteq> None} = set (map fst (filter (mention addr) (TX d)))"
proof (intro set_eqI iffI)
  fix n assume "n \<in> {n. tab_get (ADDR_HISTORY d) (hist_key addr n) \<noteq> None}"
  then obtain r where "tab_get (ADDR_HISTORY d) (hist_key addr n) = Some r" by auto
  from rows_invD(4) [OF inv this] obtain t x where "tab_get (TX d) n = Some t" "x \<in> set (it_ledger t)"
    "le_address x = addr" by auto
  then show "n \<in> set (map fst (filter (mention addr) (TX d)))"
    by (force simp: mention_def dest: tab_get_in_set)
next
  fix n assume "n \<in> set (map fst (filter (mention addr) (TX d)))"
  then obtain t x where "tab_get (TX d) n = Some t" "x \<in> set (it_ledger t)" "le_address x = addr"
    using ok by (auto simp: mention_def tab_get_set)
  then show "n \<in> {n. tab_get (ADDR_HISTORY d) (hist_key addr n) \<noteq> None}"
    using rows_invD(5) [OF inv] by auto
qed

lemma history_single:
  assumes inv: "rows_inv m d" and ok: "tab_ok (TX d)" and row: "(n, t) \<in> set (filter (mention addr) (TX d))"
  shows "[the (tab_get (ADDR_HISTORY d) (hist_key addr n))]
    = map (hist_row_of t) (filter (\<lambda>x. le_address x = addr) (it_ledger t))"
proof -
  from row ok obtain x where x: "tab_get (TX d) n = Some t" "x \<in> set (it_ledger t)" "le_address x = addr"
    by (auto simp: mention_def tab_get_set)
  have "distinct (map le_address (it_ledger t))" using rows_invD(1) [OF inv x(1)] by (simp add: row_ok_def)
  from mention_entry [OF this x(2)] rows_invD(5) [OF inv x(1,2)] x(3) show ?thesis by simp
qed

lemma concat_singles:
  "(\<And>x. x \<in> set xs \<Longrightarrow> [f x] = g x) \<Longrightarrow> map f xs = concat (map g xs)"
proof (induction xs)
  case (Cons x xs)
  then have "g x = [f x]" "map f xs = concat (map g xs)" by simp_all
  then show ?case by simp
qed simp

lemma concat_mentioned:
  "concat (map (\<lambda>(n, t). map (hist_row_of t) (filter (\<lambda>x. le_address x = addr) (it_ledger t)))
     (filter (mention addr) rows))
   = concat (map (\<lambda>(n, t). map (hist_row_of t) (filter (\<lambda>x. le_address x = addr) (it_ledger t))) rows)"
  by (induction rows) (auto simp: mention_def filter_empty_conv image_iff)

lemma history_scan:
  assumes inv: "rows_inv m d" and ok: "tab_ok (TX d)" "tab_ok (ADDR_HISTORY d)" and utf: "utf8_str addr"
  shows "map snd (tab_range (fst (hist_bounds addr)) (snd (hist_bounds addr)) (ADDR_HISTORY d)) =
    concat (map (\<lambda>(n, t). map (hist_row_of t) (filter (\<lambda>x. le_address x = addr) (it_ledger t))) (TX d))"
proof -
  let ?rows = "filter (mention addr) (TX d)"
  have keys: "\<exists>b n. utf8_str b \<and> k = hist_key b n" if "k \<in> fst ` set (ADDR_HISTORY d)" for k
  proof -
    from that ok(2) obtain r where "tab_get (ADDR_HISTORY d) k = Some r" by (auto simp: tab_get_set)
    then show ?thesis using rows_invD(1,4) [OF inv] by (fastforce simp: row_ok_def list_all_iff)
  qed
  obtain ns where ns: "sorted_wrt (<) ns" "set ns = {n. tab_get (ADDR_HISTORY d) (hist_key addr n) \<noteq> None}"
    "tab_range (fst (hist_bounds addr)) (snd (hist_bounds addr)) (ADDR_HISTORY d)
       = map (\<lambda>n. (hist_key addr n, the (tab_get (ADDR_HISTORY d) (hist_key addr n)))) ns"
    using hist.scan_in_order [OF ok(2) utf keys] by blast
  have "sorted_wrt (<) (map fst ?rows)" using tab_ok_filter [OF ok(1)] by (simp add: tab_ok_def)
  then have "ns = map fst ?rows"
    using ns(1,2) history_numbers [OF inv ok(1), of addr] by (metis strict_sorted_equal)
  then have "map snd (tab_range (fst (hist_bounds addr)) (snd (hist_bounds addr)) (ADDR_HISTORY d))
      = map (\<lambda>row. the (tab_get (ADDR_HISTORY d) (hist_key addr (fst row)))) ?rows"
    by (simp add: ns(3) comp_def)
  also have "\<dots> = concat (map (\<lambda>(n, t). map (hist_row_of t) (filter (\<lambda>x. le_address x = addr) (it_ledger t))) ?rows)"
    by (rule concat_singles) (use history_single [OF inv ok(1)] in \<open>auto simp: case_prod_beta\<close>)
  finally show ?thesis by (simp only: concat_mentioned)
qed

lemma rev_concat_short:
  "(\<And>x. x \<in> set xs \<Longrightarrow> length (g x) \<le> 1) \<Longrightarrow> rev (concat (map g xs)) = concat (map g (rev xs))"
proof (induction xs)
  case (Cons x xs)
  then have "length (g x) \<le> 1" by simp
  then have "rev (g x) = g x" by (cases "g x") auto
  then show ?case using Cons by simp
qed simp

lemma address_history_rows:
  assumes "store_reachable e prefix d" "utf8_str addr"
  shows "address_history None addr limit offset d = Inr (take limit (drop offset (history_rows addr d)))"
proof -
  have ok: "tab_ok (TX d)" "tab_ok (ADDR_HISTORY d)"
    using reachable_tabs [OF assms(1)] by (simp_all add: ledger_tabs_ok_def)
  note inv = reachable_rows [OF assms(1)]
  have "length (map (hist_row_of t) (filter (\<lambda>x. le_address x = addr) (it_ledger t))) \<le> 1"
    if "(n, t) \<in> set (TX d)" for n t
  proof (cases "mention addr (n, t)")
    case True
    then show ?thesis
      using history_single [OF inv ok(1), of n t addr, THEN arg_cong [where f = length]] that by simp
  next
    case False
    then have "filter (\<lambda>x. le_address x = addr) (it_ledger t) = []"
      by (auto simp: mention_def filter_empty_conv)
    then show ?thesis by simp
  qed
  then have "rev (concat (map (\<lambda>(n, t). map (hist_row_of t) (filter (\<lambda>x. le_address x = addr) (it_ledger t))) (TX d)))
      = history_rows addr d"
    unfolding history_rows_def by (intro rev_concat_short) auto
  then show ?thesis
    using history_scan [OF inv ok assms(2)] by (simp add: address_history_page flip: rev_map)
qed

text \<open>Property C3. In a reachable database the history of an address is a page of exactly the rows
  the stored transactions call for, newest first: one row per stored transaction whose
  ledger has the address, with the net amount, direction and accepting block of that
  transaction; no row of another address is shown and none is missing.\<close>

theorem address_history_exact:
  assumes "store_reachable e prefix d" "utf8_str addr"
  shows "address_history None addr limit offset d = Inr (take limit (drop offset (history_rows addr d)))"
  by (rule address_history_rows [OF assms])

lemma sample_address_utf8: "utf8_str sample_address"
  unfolding sample_address_def
  by (rule ascii_utf8_str) (use encode_address_ascii in \<open>simp add: ascii_text_def\<close>)

theorem address_history_exact_witness:
  "address_history None sample_address 10 0 sample_db2
     = Inr [hist_row_of sample_row2 sample_entry2, hist_row_of sample_row sample_entry]
     \<and> hr_is_spend (hist_row_of sample_row2 sample_entry2)
     \<and> hr_amount_sompi (hist_row_of sample_row2 sample_entry2) = 3"
proof -
  have "history_rows sample_address sample_db2
      = [hist_row_of sample_row2 sample_entry2, hist_row_of sample_row sample_entry]"
    by (simp add: history_rows_def sample_db2_simps sample_row_def sample_row2_def build_indexed_def
        sample_entry_def sample_entry2_def)
  moreover have "hr_is_spend (hist_row_of sample_row2 sample_entry2)
      \<and> hr_amount_sompi (hist_row_of sample_row2 sample_entry2) = 3"
    by (simp add: hist_row_of_def sample_entry2_def net_i64_def unsigned_abs_def)
  ultimately show ?thesis
    using address_history_exact [OF sample_reachable2 sample_address_utf8, of 10 0] by simp
qed

section \<open>Counters\<close>

text \<open>Property C9. The counters never fall behind the rows: in a reachable database the total
  counter is at least the number of stored transactions, and the transaction count of an
  address at least the number of its history rows, so paging by the counters reaches every
  row; expiry may only leave the counters ahead.\<close>

theorem counters_cover_rows:
  assumes "store_reachable e prefix d"
  shows "\<exists>tot recv cnt. total_txs None d = Inr tot \<and> address_totals None addr d = Inr (recv, cnt)
    \<and> length (TX d) \<le> unat tot \<and> length (history_rows addr d) \<le> unat cnt"
proof -
  have inv: "count_inv (meta_u64 d ''next_tx_num'') (meta_u64 d ''total_txs'') d"
    using reachable_inv [OF assms] by (simp add: store_inv_def ledger_inv_def)
  note rows = reachable_rows [OF assms]
  have ok: "tab_ok (TX d)" using reachable_tabs [OF assms] by (simp add: ledger_tabs_ok_def)
  have "history_rows addr d = map (\<lambda>row. the (tab_get (ADDR_HISTORY d) (hist_key addr (fst row))))
      (filter (mention addr) (rev (TX d)))"
    unfolding history_rows_def concat_mentioned [symmetric, of addr "rev (TX d)"]
    by (rule concat_singles [symmetric])
      (use history_single [OF rows ok] in \<open>auto simp: case_prod_beta\<close>)
  then have "length (history_rows addr d) = mentions addr d"
    by (simp add: mentions_def rev_filter [symmetric])
  then show ?thesis
    using inv by (cases "read_totals (ADDR_TOTALS d) addr")
      (auto simp: total_txs_def address_totals_def count_inv_def dest!: spec [of _ addr])
qed

theorem counters_cover_rows_witness:
  "total_txs None sample_db2 = Inr 2 \<and> length (TX sample_db2) \<le> unat (2 :: u64)
     \<and> length (history_rows sample_address sample_db2) \<le> unat (2 :: u64)"
proof -
  have "total_txs None sample_db2 = Inr 2" "address_totals None sample_address sample_db2 = Inr (7, 2)"
    by (simp_all add: total_txs_def address_totals_def read_totals_def meta_u64_def sample_db2_simps
        tab_get_def)
  then show ?thesis using counters_cover_rows [OF sample_reachable2, of sample_address] by simp
qed

end
