(* ===== verification/StoreInference.thy ===== *)
theory StoreInference
  imports StoreProps StoreRead
begin

text \<open>
  The inference tables stay consistent with the ledger: the identity index never dangles,
  and the response list holds exactly the stored transactions that decode as responses, so
  the detail of a request lists every stored response that names it and no other.
\<close>

section \<open>Responses among the stored transactions\<close>

definition response_of :: "ext \<Rightarrow> IndexedTx \<Rightarrow> AiResponse option" where
  "response_of e t =
     (if it_subnetwork_id t = SUBNET_AI_RESPONSE
      then (case from_hex (it_payload t) of
              Inr (Some bytes) \<Rightarrow> decode_response e bytes
            | _ \<Rightarrow> None)
      else None)"

definition list_response ::
  "ext \<Rightarrow> IndexedTx \<Rightarrow> u64 \<Rightarrow> (bytes, unit) tab \<Rightarrow> (bytes, unit) tab" where
  "list_response e t n tab =
     (case response_of e t of
        None \<Rightarrow> tab
      | Some resp \<Rightarrow> tab_insert (resp_list_key (rs_request_hash resp) n) () tab)"

definition resp_inv :: "ext \<Rightarrow> u64 \<Rightarrow> db \<Rightarrow> bool" where
  "resp_inv e next_num d =
     (tab_ok (AI_RESP_LIST d)
      \<and> (\<forall>k. tab_get (AI_RESP_LIST d) k = Some () \<longrightarrow>
           (\<exists>h n. k = resp_list_key h n \<and> utf8_str h \<and> n < next_num
              \<and> (\<forall>t. tab_get (TX d) n = Some t \<longrightarrow> (\<exists>r. response_of e t = Some r \<and> rs_request_hash r = h))))
      \<and> (\<forall>n t r. tab_get (TX d) n = Some t \<longrightarrow> response_of e t = Some r \<longrightarrow>
           tab_get (AI_RESP_LIST d) (resp_list_key (rs_request_hash r) n) = Some ()))"

lemma to_hex_utf8: "utf8_str (to_hex bs)"
  unfolding utf8_str_def
  by (rule utf8_valid_ascii) (use to_hex_ascii [of bs] in \<open>auto simp: as_bytes_def is_ascii_str_def list_all_iff\<close>)

lemma response_hash_utf8: "response_of e t = Some r \<Longrightarrow> utf8_str (rs_request_hash r)"
  by (auto simp: response_of_def decode_response_def to_hex_utf8 split: if_splits sum.splits option.splits)

lemma resp_inv_insert:
  assumes inv: "resp_inv e n d" and wrap: "n < n + 1"
    and tx: "TX d' = tab_insert n t (TX d)" and lst: "AI_RESP_LIST d' = list_response e t n (AI_RESP_LIST d)"
  shows "resp_inv e (n + 1) d'"
proof -
  have ok: "tab_ok (AI_RESP_LIST d')"
    using inv by (simp add: lst list_response_def resp_inv_def split: option.splits)
  have key: "\<exists>h m. k = resp_list_key h m \<and> utf8_str h \<and> m < n + 1
      \<and> (\<forall>u. tab_get (TX d') m = Some u \<longrightarrow> (\<exists>r. response_of e u = Some r \<and> rs_request_hash r = h))"
    if "tab_get (AI_RESP_LIST d') k = Some ()" for k
  proof (cases "tab_get (AI_RESP_LIST d) k = Some ()")
    case True
    then obtain h m where "k = resp_list_key h m" "utf8_str h" "m < n"
      "\<forall>u. tab_get (TX d) m = Some u \<longrightarrow> (\<exists>r. response_of e u = Some r \<and> rs_request_hash r = h)"
      using inv unfolding resp_inv_def by meson
    then show ?thesis using wrap by (intro exI [of _ h] exI [of _ m]) (auto simp: tx dest: less_trans)
  next
    case False
    with that obtain r where "response_of e t = Some r" "k = resp_list_key (rs_request_hash r) n"
      by (auto simp: lst list_response_def split: option.splits if_splits)
    then show ?thesis
      using wrap by (intro exI [of _ "rs_request_hash r"] exI [of _ n]) (auto simp: tx response_hash_utf8)
  qed
  have "tab_get (AI_RESP_LIST d') (resp_list_key (rs_request_hash r) m) = Some ()"
    if "tab_get (TX d') m = Some u" "response_of e u = Some r" for m u r
    using that inv unfolding resp_inv_def
    by (auto simp: tx lst list_response_def split: option.splits if_splits)
  with ok key show ?thesis by (simp add: resp_inv_def)
qed

lemma resp_inv_shrink:
  assumes "resp_inv e m d" "AI_RESP_LIST d' = AI_RESP_LIST d"
    and "\<And>n t. tab_get (TX d') n = Some t \<Longrightarrow> tab_get (TX d) n = Some t"
  shows "resp_inv e m d'"
  using assms(1) assms(3) unfolding resp_inv_def assms(2) by blast

lemma resp_inv_expire_responses:
  assumes "resp_inv e m d"
  shows "resp_inv e m (expire_responses cutoff d)"
proof -
  let ?d = "expire_responses cutoff d"
  have tx: "TX ?d = TX d" by (simp add: expire_responses_def Let_def)
  have ok: "tab_ok (AI_RESP_LIST d)" using assms by (simp add: resp_inv_def)
  have lst: "AI_RESP_LIST ?d = tab_sweep (\<lambda>k _. tab_get (TX d) (resp_list_tx_num k) = None) (AI_RESP_LIST d)"
    by (simp add: expire_responses_def Let_def)
  have get: "tab_get (AI_RESP_LIST ?d) k = Some () \<longleftrightarrow>
      tab_get (AI_RESP_LIST d) k = Some () \<and> tab_get (TX d) (resp_list_tx_num k) \<noteq> None" for k
    unfolding lst tab_get_sweep [OF ok] by (auto split: option.splits)
  show ?thesis using assms ok unfolding resp_inv_def get tx by (auto simp: lst)
qed

section \<open>Requests\<close>

text \<open>
  Every identity leads to a stored request of which it is the identity or the transaction
  id; an identity is the transaction id (routed requests) or a hexadecimal digest.
\<close>

definition req_inv :: "u64 \<Rightarrow> db \<Rightarrow> bool" where
  "req_inv next_seq d =
     (tab_ok (AI_REQ d)
      \<and> (\<forall>s row. tab_get (AI_REQ d) s = Some row \<longrightarrow> s < next_seq
           \<and> (qr_request_hash (dec_request row) = qr_tx_id (dec_request row)
              \<or> utf8_str (qr_request_hash (dec_request row))))
      \<and> (\<forall>h s. tab_get (AI_REQ_BY_HASH d) h = Some s \<longrightarrow>
           (\<exists>row. tab_get (AI_REQ d) s = Some row
              \<and> (h = qr_request_hash (dec_request row) \<or> h = qr_tx_id (dec_request row)))))"

definition request_side :: "applying \<Rightarrow> _" where
  "request_side st = (AI_REQ (ap_db st), AI_REQ_BY_HASH (ap_db st), ap_ai_req_seq st)"

lemma dec_request_current [simp]: "dec_request (Current rec) = rec"
  by (simp add: dec_request_def)

lemma req_inv_cong:
  "AI_REQ d' = AI_REQ d \<Longrightarrow> AI_REQ_BY_HASH d' = AI_REQ_BY_HASH d \<Longrightarrow> req_inv q d' = req_inv q d"
  by (simp add: req_inv_def)

lemma req_inv_add:
  assumes inv: "req_inv q d" and wrap: "q < q + 1"
    and tabs: "AI_REQ d' = tab_insert q (Current rec) (AI_REQ d)"
      "AI_REQ_BY_HASH d' = tab_insert (qr_tx_id rec) q (tab_insert (qr_request_hash rec) q (AI_REQ_BY_HASH d))"
    and hash: "qr_request_hash rec = qr_tx_id rec \<or> utf8_str (qr_request_hash rec)"
  shows "req_inv (q + 1) d'"
proof -
  have old: "tab_get (AI_REQ d') s = tab_get (AI_REQ d) s" if "tab_get (AI_REQ d) s \<noteq> None" for s
    using that inv by (auto simp: tabs req_inv_def)
  have "\<exists>row. tab_get (AI_REQ d') s = Some row
      \<and> (h = qr_request_hash (dec_request row) \<or> h = qr_tx_id (dec_request row))"
    if "tab_get (AI_REQ_BY_HASH d') h = Some s" for h s
  proof (cases "h = qr_tx_id rec \<or> h = qr_request_hash rec")
    case True
    then have "s = q" using that by (auto simp: tabs split: if_splits)
    then show ?thesis using True by (auto simp: tabs dec_request_current)
  next
    case False
    then have "tab_get (AI_REQ_BY_HASH d) h = Some s" using that by (simp add: tabs)
    then show ?thesis using inv old [of s] unfolding req_inv_def by fastforce
  qed
  moreover have "s < q + 1 \<and> (qr_request_hash (dec_request row) = qr_tx_id (dec_request row)
        \<or> utf8_str (qr_request_hash (dec_request row)))" if "tab_get (AI_REQ d') s = Some row" for s row
  proof (cases "s = q")
    case True
    then show ?thesis using that wrap hash by (auto simp: tabs)
  next
    case False
    then have "tab_get (AI_REQ d) s = Some row" using that by (simp add: tabs)
    then show ?thesis using inv wrap unfolding req_inv_def by (metis less_trans)
  qed
  ultimately show ?thesis using inv by (simp add: req_inv_def tabs(1))
qed

lemma req_inv_expire_row:
  assumes "req_inv q d" "tab_get (AI_REQ d) s = Some row"
  shows "req_inv q (d\<lparr> AI_REQ := tab_remove s (AI_REQ d),
    AI_REQ_BY_HASH := tab_remove (qr_tx_id (dec_request row))
      (tab_remove (qr_request_hash (dec_request row)) (AI_REQ_BY_HASH d)), AI_RESP := x \<rparr>)"
proof -
  have "\<exists>row'. s' \<noteq> s \<and> tab_get (AI_REQ d) s' = Some row'
      \<and> (h = qr_request_hash (dec_request row') \<or> h = qr_tx_id (dec_request row'))"
    if "h \<noteq> qr_tx_id (dec_request row)" "h \<noteq> qr_request_hash (dec_request row)"
      "tab_get (AI_REQ_BY_HASH d) h = Some s'" for h s'
    using that assms unfolding req_inv_def by (metis option.inject)
  then show ?thesis using assms by (simp add: req_inv_def)
qed

lemma req_inv_expire:
  assumes "req_inv q d"
  shows "req_inv q (expire_requests cutoff d)"
proof -
  let ?f = "\<lambda>(seq, row) d. let rec = dec_request row
         in d\<lparr> AI_REQ := tab_remove seq (AI_REQ d),
               AI_REQ_BY_HASH :=
                 tab_remove (qr_tx_id rec) (tab_remove (qr_request_hash rec) (AI_REQ_BY_HASH d)),
               AI_RESP := tab_remove (qr_tx_id rec) (tab_remove (qr_request_hash rec) (AI_RESP d)) \<rparr>"
  have rows: "req_inv q (fold ?f rows d)"
    if "req_inv q d" "distinct (map fst rows)" "\<And>s row. (s, row) \<in> set rows \<Longrightarrow> tab_get (AI_REQ d) s = Some row"
    for rows and d :: db
    using that
  proof (induction rows arbitrary: d)
    case (Cons p rows)
    obtain s row where p: "p = (s, row)" by fastforce
    have "req_inv q (?f p d)"
      using req_inv_expire_row [OF Cons.prems(1), of s row] Cons.prems(3) p by (simp add: Let_def)
    moreover have "tab_get (AI_REQ (?f p d)) k = Some u" if "(k, u) \<in> set rows" for k u
      using that Cons.prems(2,3) p by (force simp: Let_def)
    ultimately show ?case using Cons.IH [of "?f p d"] Cons.prems(2) by simp
  qed simp
  have ok: "tab_ok (AI_REQ d)" using assms by (simp add: req_inv_def)
  have "distinct (map fst (filter (\<lambda>(seq, row). qr_daa_score (dec_request row) < cutoff) (AI_REQ d)))"
    using tab_ok_distinct [OF tab_ok_filter [OF ok]] .
  then show ?thesis
    unfolding expire_requests_def by (rule rows [OF assms]) (use ok in \<open>auto simp: tab_get_set\<close>)
qed

section \<open>Applying one transaction\<close>

definition ai_inv :: "ext \<Rightarrow> u64 \<Rightarrow> u64 \<Rightarrow> db \<Rightarrow> bool" where
  "ai_inv e next_num next_seq d = (resp_inv e next_num d \<and> req_inv next_seq d \<and> next_seq \<le> next_num)"

lemma index_caps_tables:
  "index_caps grp raw st = Inr st' \<Longrightarrow>
     request_side st' = request_side st \<and> AI_RESP_LIST (ap_db st') = AI_RESP_LIST (ap_db st)"
  by (auto simp: index_caps_def request_side_def Let_def case_option_Inr if_Inr)

lemma index_challenge_tables:
  "index_challenge grp raw st = Inr st' \<Longrightarrow>
     request_side st' = request_side st \<and> AI_RESP_LIST (ap_db st') = AI_RESP_LIST (ap_db st)"
  by (auto simp: index_challenge_def request_side_def Let_def case_option_Inr)

lemma index_response_tables:
  "index_response e grp raw n st = Inr st' \<Longrightarrow> rt_subnetwork_id raw = SUBNET_AI_RESPONSE \<Longrightarrow>
     request_side st' = request_side st
     \<and> AI_RESP_LIST (ap_db st') = list_response e (build_indexed raw n grp l) n (AI_RESP_LIST (ap_db st))"
  by (auto simp: index_response_def request_side_def Let_def case_option_Inr list_response_def
      response_of_def build_indexed_def)

lemma index_request_tables:
  assumes "index_request e grp raw st = Inr st'"
  shows "AI_RESP_LIST (ap_db st') = AI_RESP_LIST (ap_db st)
    \<and> (request_side st' = request_side st
       \<or> (\<exists>rec. ap_ai_req_seq st' = ap_ai_req_seq st + 1
             \<and> AI_REQ (ap_db st') = tab_insert (ap_ai_req_seq st) (Current rec) (AI_REQ (ap_db st))
             \<and> AI_REQ_BY_HASH (ap_db st') = tab_insert (qr_tx_id rec) (ap_ai_req_seq st)
                  (tab_insert (qr_request_hash rec) (ap_ai_req_seq st) (AI_REQ_BY_HASH (ap_db st)))
             \<and> (qr_request_hash rec = qr_tx_id rec \<or> utf8_str (qr_request_hash rec))))"
  using assms
  by (auto simp: index_request_def request_side_def Let_def case_option_Inr if_Inr request_rec_def
      request_identity_def request_hash_def to_hex_utf8 intro!: exI [of _ "request_rec raw grp _ _ _"])

lemma index_subnetwork_tables:
  assumes "index_subnetwork e grp raw n st = Inr st'"
  shows "AI_RESP_LIST (ap_db st') = list_response e (build_indexed raw n grp l) n (AI_RESP_LIST (ap_db st))
    \<and> (request_side st' = request_side st \<or> index_request e grp raw st = Inr st')"
proof -
  have other: "list_response e (build_indexed raw n grp l) n tab = tab"
    if "rt_subnetwork_id raw \<noteq> SUBNET_AI_RESPONSE" for tab
    using that by (simp add: list_response_def response_of_def build_indexed_def)
  have dist: "SUBNET_AI_REQUEST \<noteq> SUBNET_AI_RESPONSE" "SUBNET_AI_CHALLENGE \<noteq> SUBNET_AI_RESPONSE"
    by (simp_all add: SUBNET_AI_REQUEST_def SUBNET_AI_RESPONSE_def SUBNET_AI_CHALLENGE_def)
  consider "rt_subnetwork_id raw = SUBNET_AI_REQUEST" "index_request e grp raw st = Inr st'"
    | "rt_subnetwork_id raw = SUBNET_AI_RESPONSE" "index_response e grp raw n st = Inr st'"
    | "rt_subnetwork_id raw = SUBNET_AI_CHALLENGE" "index_challenge grp raw st = Inr st'"
    | "rt_subnetwork_id raw \<noteq> SUBNET_AI_RESPONSE" "st' = st"
    using assms by (auto simp: index_subnetwork_def split: if_splits)
  then show ?thesis
  proof cases
    case 1
    then show ?thesis using index_request_tables [OF 1(2)] other dist by simp
  next
    case 2
    then show ?thesis using index_response_tables [OF 2(2,1)] by simp
  next
    case 3
    then show ?thesis using index_challenge_tables [OF 3(2)] other dist by simp
  next
    case 4
    then show ?thesis using other by simp
  qed
qed

lemma index_ledger_ai [simp]:
  "AI_RESP_LIST (index_ledger raw grp n l d) = AI_RESP_LIST d" "AI_REQ (index_ledger raw grp n l d) = AI_REQ d"
  "AI_REQ_BY_HASH (index_ledger raw grp n l d) = AI_REQ_BY_HASH d"
  by (simp_all add: index_ledger_tables)

lemma request_step:
  assumes "req_inv (ap_ai_req_seq st) (ap_db st)" "ap_ai_req_seq st < ap_ai_req_seq st + 1"
    and "request_side st' = request_side st \<or> index_request e grp raw st = Inr st'"
  shows "req_inv (ap_ai_req_seq st') (ap_db st')
    \<and> (ap_ai_req_seq st' = ap_ai_req_seq st \<or> ap_ai_req_seq st' = ap_ai_req_seq st + 1)"
proof -
  consider "request_side st' = request_side st"
    | rec where "ap_ai_req_seq st' = ap_ai_req_seq st + 1"
      "AI_REQ (ap_db st') = tab_insert (ap_ai_req_seq st) (Current rec) (AI_REQ (ap_db st))"
      "AI_REQ_BY_HASH (ap_db st') = tab_insert (qr_tx_id rec) (ap_ai_req_seq st)
        (tab_insert (qr_request_hash rec) (ap_ai_req_seq st) (AI_REQ_BY_HASH (ap_db st)))"
      "qr_request_hash rec = qr_tx_id rec \<or> utf8_str (qr_request_hash rec)"
    using assms(3) index_request_tables [of e grp raw st st'] by blast
  then show ?thesis
  proof cases
    case 1
    then show ?thesis
      using assms(1) req_inv_cong [of "ap_db st'" "ap_db st"] by (simp add: request_side_def)
  next
    case (2 rec)
    then show ?thesis using req_inv_add [OF assms(1,2) 2(2,3,4)] by simp
  qed
qed

lemma apply_tx_ai:
  assumes app: "apply_tx e prefix grp raw (ns, st) = Inr (ns', st')"
    and inv: "ai_inv e (ap_next_tx_num st) (ap_ai_req_seq st) (ap_db st)"
    and wrap: "ap_next_tx_num st < ap_next_tx_num st + 1"
  shows "ai_inv e (ap_next_tx_num st') (ap_ai_req_seq st') (ap_db st')"
proof -
  let ?n = "ap_next_tx_num st"
  from app obtain l st1 st2 where
    s1: "index_subnetwork e grp raw ?n
         (st\<lparr> ap_next_tx_num := ?n + 1, ap_db := index_ledger raw grp ?n l (ap_db st) \<rparr>) = Inr st1"
    and s2: "index_caps grp raw st1 = Inr st2"
    and out: "st' = st2\<lparr> ap_total_txs := ap_total_txs st2 + 1,
                  ap_stats := (ap_stats st2)\<lparr> as_applied_txs := as_applied_txs (ap_stats st2) + 1 \<rparr> \<rparr>"
    by (auto simp: apply_tx_def Let_def)
  let ?st = "st\<lparr> ap_next_tx_num := ?n + 1, ap_db := index_ledger raw grp ?n l (ap_db st) \<rparr>"
  have frame: "ledger_side st' = (ledger_of (ap_db ?st), ?n + 1, ap_total_txs st', ap_checkpoint st', ap_stats st')"
    using index_caps_frame [OF s2] index_subnetwork_frame [OF s1] out by (simp add: ledger_side_def)
  then have tx: "TX (ap_db st') = tab_insert ?n (build_indexed raw ?n grp l) (TX (ap_db st))"
    by (simp add: ledger_side_def ledger_of_eq index_ledger_tables)
  have seq: "ap_ai_req_seq st \<le> ?n" and req: "req_inv (ap_ai_req_seq ?st) (ap_db ?st)"
    using inv by (simp_all add: ai_inv_def req_inv_def)
  note t1 = index_subnetwork_tables [OF s1, of l] and t2 = index_caps_tables [OF s2]
  have sw: "ap_ai_req_seq ?st < ap_ai_req_seq ?st + 1" using le_succ [OF seq wrap] by simp
  note r1 = request_step [OF req sw conjunct2 [OF t1]]
  have "req_inv (ap_ai_req_seq st') (ap_db st')" "ap_ai_req_seq st' = ap_ai_req_seq st1"
    using r1 t2 out req_inv_cong [of "ap_db st'" "ap_db st1"] by (simp_all add: request_side_def)
  moreover have "resp_inv e (?n + 1) (ap_db st')"
    by (rule resp_inv_insert [OF _ wrap tx]) (use inv t1 t2 out in \<open>simp_all add: ai_inv_def\<close>)
  moreover have "ap_ai_req_seq st1 \<le> ?n + 1"
    using r1 seq wrap unat_Suc [OF wrap] unat_Suc [OF sw] by (auto simp: word_le_nat_alt)
  ultimately show ?thesis using frame by (simp add: ai_inv_def ledger_side_def)
qed

section \<open>Every write operation\<close>

lemma apply_txs_ai:
  assumes "fold_res (apply_tx e prefix grp) xs (ns, st) = Inr (ns', st')"
    and "ai_inv e (ap_next_tx_num st) (ap_ai_req_seq st) (ap_db st)"
    and "unat (ap_next_tx_num st) + length xs < 2 ^ 64"
  shows "ai_inv e (ap_next_tx_num st') (ap_ai_req_seq st') (ap_db st')
    \<and> unat (ap_next_tx_num st') = unat (ap_next_tx_num st) + length xs"
  using assms
proof (induction xs arbitrary: ns st)
  case (Cons raw xs)
  then obtain ns1 st1 where s: "apply_tx e prefix grp raw (ns, st) = Inr (ns1, st1)"
    "fold_res (apply_tx e prefix grp) xs (ns1, st1) = Inr (ns', st')"
    by (auto split: sum.splits)
  let ?n = "ap_next_tx_num st"
  have n1: "ap_next_tx_num st1 = ?n + 1" using s(1) by (rule apply_tx_cases)
  have "?n \<noteq> - 1" using Cons.prems(3) by (auto simp: unsigned_minus_1_eq_mask mask_eq_exp_minus_1)
  then have wrap: "?n < ?n + 1" by (simp add: less_succ_iff)
  from apply_tx_ai [OF s(1) Cons.prems(2) wrap] Cons.IH [OF s(2)] Cons.prems(3) n1 unat_Suc [OF wrap]
  show ?case by simp
qed simp

lemma ai_inv_cong:
  assumes "ai_inv e m q d" "TX d' = TX d" "AI_RESP_LIST d' = AI_RESP_LIST d" "AI_REQ d' = AI_REQ d"
    "AI_REQ_BY_HASH d' = AI_REQ_BY_HASH d"
  shows "ai_inv e m q d'"
  using assms by (simp add: ai_inv_def resp_inv_def req_inv_def)

lemma close_group_ai:
  "ai_inv e m q (ap_db st) \<Longrightarrow> ai_inv e m q (ap_db (close_group grp ns st))"
  by (erule ai_inv_cong) (simp_all add: close_group_def Let_def)

lemma apply_group_ai:
  assumes "apply_group e prefix grp st = Inr st'"
    and "ai_inv e (ap_next_tx_num st) (ap_ai_req_seq st) (ap_db st)"
    and "unat (ap_next_tx_num st) + length (ag_txs grp) < 2 ^ 64"
  shows "ai_inv e (ap_next_tx_num st') (ap_ai_req_seq st') (ap_db st')
    \<and> unat (ap_next_tx_num st') \<le> unat (ap_next_tx_num st) + length (ag_txs grp)"
proof (cases "tab_get (APPLIED (ap_db st)) (ag_chain_block_hash grp)")
  case None
  with assms(1) obtain ns st1 where s: "fold_res (apply_tx e prefix grp) (ag_txs grp) ([], st) = Inr (ns, st1)"
    "st' = close_group grp ns st1"
    by (auto simp: apply_group_def)
  have "ap_ai_req_seq st' = ap_ai_req_seq st1" by (simp add: s(2) close_group_def Let_def)
  with apply_txs_ai [OF s(1) assms(2,3)] show ?thesis by (simp add: s(2) close_group_ai)
next
  case (Some daa)
  then show ?thesis using assms by (simp add: apply_group_def)
qed

lemma apply_groups_ai:
  assumes "fold_res (apply_group e prefix) groups st = Inr st'"
    and "ai_inv e (ap_next_tx_num st) (ap_ai_req_seq st) (ap_db st)"
    and "unat (ap_next_tx_num st) + group_txs groups < 2 ^ 64"
  shows "ai_inv e (ap_next_tx_num st') (ap_ai_req_seq st') (ap_db st')"
  using assms
proof (induction groups arbitrary: st)
  case (Cons grp groups)
  then obtain st1 where s: "apply_group e prefix grp st = Inr st1"
    "fold_res (apply_group e prefix) groups st1 = Inr st'"
    by (auto split: sum.splits)
  have "unat (ap_next_tx_num st) + length (ag_txs grp) < 2 ^ 64"
    using Cons.prems(3) by (simp add: group_txs_def)
  from apply_group_ai [OF s(1) Cons.prems(2) this] Cons.IH [OF s(2)] Cons.prems(3)
  show ?case by (simp add: group_txs_def)
qed simp

definition ai_store_inv :: "ext \<Rightarrow> db \<Rightarrow> bool" where
  "ai_store_inv e d = ai_inv e (meta_u64 d ''next_tx_num'') (meta_u64 d ''ai_req_seq'') d"

lemma apply_ai:
  assumes "ai_store_inv e d" "unat (meta_u64 d ''next_tx_num'') + group_txs groups < 2 ^ 64"
  shows "ai_store_inv e (snd (store_apply io e prefix groups d))"
proof (cases rule: store_apply_cases [of io e prefix groups d])
  case (fault f)
  then show ?thesis using assms(1) by simp
next
  case (committed st)
  have "ap_ai_req_seq (begin_apply d) = meta_u64 d ''ai_req_seq''" by (simp add: begin_apply_def)
  then have "ai_inv e (ap_next_tx_num st) (ap_ai_req_seq st) (ap_db st)"
    using apply_groups_ai [OF committed(2)] assms by (simp add: ai_store_inv_def)
  then have "ai_inv e (ap_next_tx_num st) (ap_ai_req_seq st) (snd (finish_apply st))"
    by (rule ai_inv_cong) (simp_all add: finish_apply_db)
  moreover have "meta_u64 (snd (finish_apply st)) ''ai_req_seq'' = ap_ai_req_seq st"
    by (auto simp: finish_apply_db meta_u64_def commit_meta_def Let_def split: option.splits)
  ultimately show ?thesis by (simp add: committed(3) ai_store_inv_def meta_after_apply)
qed

lemma ai_inv_drop_tx:
  assumes "ai_inv e m q d" "AI_RESP_LIST d' = AI_RESP_LIST d" "AI_REQ d' = AI_REQ d"
    "AI_REQ_BY_HASH d' = AI_REQ_BY_HASH d" "TX d' = tab_remove n (TX d)"
  shows "ai_inv e m q d'"
proof -
  have "resp_inv e m d'"
    by (rule resp_inv_shrink [of e m d]) (use assms in \<open>auto simp: ai_inv_def split: if_splits\<close>)
  then show ?thesis using assms req_inv_cong [of d' d q] by (simp add: ai_inv_def)
qed

lemma unwind_tx_ai:
  assumes "unwind_tx n (d, tot, r) = (d', tot', r')" "ai_inv e m q d"
  shows "ai_inv e m q d' \<and> META d' = META d"
proof (cases "tab_get (TX d) n")
  case None
  then show ?thesis using assms by (simp add: unwind_tx_def)
next
  case (Some t)
  then have "d' = unwind_row n t d" using assms(1) by (simp add: unwind_tx_def)
  then show ?thesis
    using ai_inv_drop_tx [OF assms(2), of d' n] by (simp add: unwind_row_tables)
qed

lemma unwind_txs_ai:
  assumes "fold unwind_tx ns (d, tot, r) = (d', tot', r')" "ai_inv e m q d"
  shows "ai_inv e m q d' \<and> META d' = META d"
  using assms
proof (induction ns arbitrary: d tot r)
  case (Cons n ns)
  obtain d1 tot1 r1 where s: "unwind_tx n (d, tot, r) = (d1, tot1, r1)" by (metis prod_cases3)
  from unwind_tx_ai [OF s Cons.prems(2)] Cons.IH [of d1 tot1 r1] Cons.prems(1) s
  show ?case by simp
qed simp

lemma unwind_ai:
  assumes "ai_store_inv e d"
  shows "ai_store_inv e (snd (unwind_chain_block io hash d))"
proof (cases "io = None \<and> tab_get (ACCEPTED_BY d) hash \<noteq> None")
  case False
  then show ?thesis using assms by (auto simp: unwind_chain_block_def split: option.splits)
next
  case True
  then obtain ns where ns: "tab_get (ACCEPTED_BY d) hash = Some ns" by auto
  obtain d1 tot1 r1 where f: "fold unwind_tx (rev ns) (d, meta_u64 d ''total_txs'', 0) = (d1, tot1, r1)"
    by (metis prod_cases3)
  let ?d = "snd (unwind_chain_block io hash d)"
  note i1 = unwind_txs_ai [OF f assms [unfolded ai_store_inv_def]]
  have "ai_inv e (meta_u64 d ''next_tx_num'') (meta_u64 d ''ai_req_seq'') ?d"
    by (rule ai_inv_cong [OF conjunct1 [OF i1]])
      (use True ns f in \<open>simp_all add: unwind_chain_block_def\<close>)
  moreover have "META ?d = tab_insert ''total_txs'' tot1 (META d)"
    using True ns f i1 by (simp add: unwind_chain_block_def)
  ultimately show ?thesis by (simp add: ai_store_inv_def meta_u64_def)
qed

lemma expire_rows_ai:
  "ai_inv e m q d \<Longrightarrow> fold expire_row rows (d, r) = (d', r') \<Longrightarrow> ai_inv e m q d' \<and> META d' = META d"
proof (induction rows arbitrary: d r)
  case (Cons p rows)
  obtain n t where p: "p = (n, t)" by fastforce
  let ?d = "fst (expire_row (n, t) (d, r))"
  have "ai_inv e m q ?d" by (rule ai_inv_drop_tx [OF Cons.prems(1)]) (simp_all add: expire_row_tables)
  with Cons.IH [of ?d "r + 1"] Cons.prems(2) show ?case by (simp add: p expire_row_tables)
qed simp

lemma ai_inv_expire_ai:
  assumes "ai_inv e m q d"
  shows "ai_inv e m q (expire_marks cutoff (expire_responses cutoff (expire_requests cutoff d)))"
proof -
  have side: "AI_REQ (expire_responses cutoff d) = AI_REQ d"
    "AI_REQ_BY_HASH (expire_responses cutoff d) = AI_REQ_BY_HASH d" for d
    by (simp_all add: expire_responses_def Let_def)
  have "AI_RESP_LIST (fold (\<lambda>(seq, row) d.
         let rec = dec_request row
         in d\<lparr> AI_REQ := tab_remove seq (AI_REQ d),
               AI_REQ_BY_HASH :=
                 tab_remove (qr_tx_id rec) (tab_remove (qr_request_hash rec) (AI_REQ_BY_HASH d)),
               AI_RESP := tab_remove (qr_tx_id rec) (tab_remove (qr_request_hash rec) (AI_RESP d)) \<rparr>)
       rows d) = AI_RESP_LIST d" for rows d
    by (induction rows arbitrary: d) (auto simp: Let_def)
  then have "AI_RESP_LIST (expire_requests cutoff d) = AI_RESP_LIST d" by (simp add: expire_requests_def)
  moreover have "TX (expire_requests cutoff d) = TX d"
    using ledger_of_expire_requests [of cutoff d] by (simp add: ledger_of_eq)
  ultimately have "resp_inv e m (expire_requests cutoff d)" "req_inv q (expire_requests cutoff d)"
    using assms resp_inv_shrink [of e m d "expire_requests cutoff d"]
    by (auto simp: ai_inv_def req_inv_expire)
  then have "ai_inv e m q (expire_responses cutoff (expire_requests cutoff d))"
    using assms req_inv_cong [OF side] resp_inv_expire_responses by (simp add: ai_inv_def)
  then show ?thesis by (rule ai_inv_cong) (simp_all add: expire_marks_def)
qed

lemma expire_ai:
  assumes "ai_store_inv e d"
  shows "ai_store_inv e (snd (expire_below io cutoff d))"
proof (cases io)
  case None
  obtain d1 r1 where x: "expire_txs cutoff d = (d1, r1)" by fastforce
  let ?m = "meta_u64 d ''next_tx_num''" and ?q = "meta_u64 d ''ai_req_seq''"
  let ?d = "expire_marks cutoff (expire_responses cutoff (expire_requests cutoff (expire_chain cutoff d1)))"
  have i1: "ai_inv e ?m ?q d1" "META d1 = META d"
    using expire_rows_ai [OF assms [unfolded ai_store_inv_def]] x by (simp_all add: expire_txs_def)
  have "ai_inv e ?m ?q (expire_chain cutoff d1)"
    by (rule ai_inv_cong [OF i1(1)]) (simp_all add: expire_chain_def expire_chain_tables)
  then have "ai_inv e ?m ?q ?d" by (rule ai_inv_expire_ai)
  moreover have "ledger_of ?d = ledger_of (expire_chain cutoff d1)"
    by (simp add: ledger_of_expire_rest ledger_of_expire_requests)
  then have "META ?d = META d"
    using i1(2) by (simp add: ledger_of_eq expire_chain_def expire_chain_tables)
  ultimately show ?thesis using None x by (simp add: expire_below_def ai_store_inv_def meta_u64_def)
next
  case (Some err)
  then show ?thesis using assms by (simp add: expire_below_def)
qed

lemma meta_steps_ai:
  assumes "ai_store_inv e d"
  shows "ai_store_inv e (snd (store_open io d))" "ai_store_inv e (snd (set_checkpoint io hash daa d))"
proof -
  have "ai_store_inv e (d\<lparr> META := tab_insert ''schema'' SCHEMA_VERSION (META d) \<rparr>)"
    "ai_store_inv e (d\<lparr> META_STR := tab_insert ''checkpoint_hash'' hash (META_STR d),
                      META := tab_insert ''checkpoint_daa'' daa (META d) \<rparr>)"
    using assms unfolding ai_store_inv_def by (auto simp: meta_u64_def intro: ai_inv_cong)
  then show "ai_store_inv e (snd (store_open io d))" "ai_store_inv e (snd (set_checkpoint io hash daa d))"
    using assms by (auto simp: store_open_def set_checkpoint_def split: option.splits)
qed

lemma ai_store_inv_empty: "ai_store_inv e empty_db"
  by (simp add: ai_store_inv_def ai_inv_def resp_inv_def req_inv_def meta_u64_def empty_db_def)

lemma store_step_ai: "ai_store_inv e d \<Longrightarrow> store_step e prefix d d' \<Longrightarrow> ai_store_inv e d'"
  by (erule store_stepE) (auto intro: apply_ai unwind_ai expire_ai meta_steps_ai)

interpretation ai: invariant_system "\<lambda>d. d = empty_db" "store_step e prefix" "ai_store_inv e"
  by unfold_locales (auto simp: ai_store_inv_empty intro: store_step_ai)

lemma reachable_ai: "store_reachable e prefix d \<Longrightarrow> ai_store_inv e d"
  using ai.reach_inv [of e prefix empty_db d] by (simp add: store_reachable_def)

section \<open>The detail of a request\<close>

text \<open>The stored transactions that answer the request \<open>h\<close>, in the order they were accepted.\<close>

definition answers_to :: "ext \<Rightarrow> string \<Rightarrow> db \<Rightarrow> (IndexedTx \<times> AiResponse) list" where
  "answers_to e h d =
     List.map_filter (\<lambda>(n, t).
       (case response_of e t of
          None \<Rightarrow> None
        | Some resp \<Rightarrow> if rs_request_hash resp = h then Some (t, resp) else None)) (TX d)"

definition answers :: "ext \<Rightarrow> string \<Rightarrow> u64 \<times> IndexedTx \<Rightarrow> bool" where
  "answers e h row = (\<exists>r. response_of e (snd row) = Some r \<and> rs_request_hash r = h)"

lemma answers_to_eq:
  "answers_to e h d = map (\<lambda>(n, t). (t, the (response_of e t))) (filter (answers e h) (TX d))"
proof -
  have "List.map_filter (\<lambda>(n, t). (case response_of e t of
          None \<Rightarrow> None
        | Some resp \<Rightarrow> if rs_request_hash resp = h then Some (t, resp) else None)) rows
      = map (\<lambda>(n, t). (t, the (response_of e t))) (filter (answers e h) rows)" for rows :: "(u64 \<times> IndexedTx) list"
    by (induction rows) (auto simp: answers_def map_filter_simps split: option.splits if_splits)
  then show ?thesis by (simp add: answers_to_def)
qed

lemma push_responses:
  assumes "\<And>n t. n \<in> set ns \<Longrightarrow> tab_get (TX d) n = Some t \<Longrightarrow> \<exists>r. response_of e t = Some r"
  shows "fold_res (push_response e d) (map (\<lambda>n. (resp_list_key h n, ())) ns) out
    = Inr (out @ map (\<lambda>n. (the (tab_get (TX d) n), the (response_of e (the (tab_get (TX d) n)))))
        (filter (\<lambda>n. tab_get (TX d) n \<noteq> None) ns))"
  using assms
proof (induction ns arbitrary: out)
  case (Cons n ns)
  have IH: "fold_res (push_response e d) (map (\<lambda>n. (resp_list_key h n, ())) ns) out'
    = Inr (out' @ map (\<lambda>n. (the (tab_get (TX d) n), the (response_of e (the (tab_get (TX d) n)))))
        (filter (\<lambda>n. tab_get (TX d) n \<noteq> None) ns))" for out'
    using Cons.prems by (intro Cons.IH) auto
  show ?case
  proof (cases "tab_get (TX d) n")
    case None
    then have "push_response e d (resp_list_key h n, ()) out = Inr out" by (simp add: push_response_def)
    then show ?thesis using IH None by simp
  next
    case (Some t)
    with Cons.prems [of n t] obtain r where r: "response_of e t = Some r" by auto
    then have "push_response e d (resp_list_key h n, ()) out = Inr (out @ [(t, r)])"
      using Some by (auto simp: push_response_def response_of_def split: if_splits sum.splits option.splits)
    then show ?thesis using IH [of "out @ [(t, r)]"] Some r by simp
  qed
qed simp

lemma response_scan:
  assumes inv: "resp_inv e m d" and ok: "tab_ok (TX d)" and utf: "utf8_str h"
  shows "fold_res (push_response e d)
      (tab_range (fst (resp_list_bounds h)) (snd (resp_list_bounds h)) (AI_RESP_LIST d)) []
    = Inr (answers_to e h d)"
proof -
  have lok: "tab_ok (AI_RESP_LIST d)" using inv by (simp add: resp_inv_def)
  have keys: "\<exists>b n. utf8_str b \<and> k = resp_list_key b n" if "k \<in> fst ` set (AI_RESP_LIST d)" for k
  proof -
    from that lok have "tab_get (AI_RESP_LIST d) k = Some ()" by (auto simp: tab_get_set)
    then show ?thesis using inv unfolding resp_inv_def by meson
  qed
  obtain ns where ns: "sorted_wrt (<) ns" "set ns = {n. tab_get (AI_RESP_LIST d) (resp_list_key h n) \<noteq> None}"
    "tab_range (fst (resp_list_bounds h)) (snd (resp_list_bounds h)) (AI_RESP_LIST d)
       = map (\<lambda>n. (resp_list_key h n, ())) ns"
    using resp.scan_in_order [OF lok utf keys] by auto
  have listed: "\<exists>r. response_of e t = Some r \<and> rs_request_hash r = h"
    if "n \<in> set ns" "tab_get (TX d) n = Some t" for n t
  proof -
    have "tab_get (AI_RESP_LIST d) (resp_list_key h n) = Some ()" using that(1) ns(2) by auto
    then show ?thesis using inv that(2) unfolding resp_inv_def by (metis resp_list_key_inject)
  qed
  let ?live = "filter (\<lambda>n. tab_get (TX d) n \<noteq> None) ns" and ?rows = "filter (answers e h) (TX d)"
  have "set ?live = set (map fst ?rows)"
  proof (intro set_eqI iffI)
    fix n assume n: "n \<in> set ?live"
    then obtain t where t: "tab_get (TX d) n = Some t" by auto
    then have "answers e h (n, t)" using listed [of n t] n by (simp add: answers_def)
    then show "n \<in> set (map fst ?rows)" using tab_get_in_set [OF t] by force
  next
    fix n assume "n \<in> set (map fst ?rows)"
    then obtain t where t: "tab_get (TX d) n = Some t" "answers e h (n, t)"
      using ok by (auto simp: tab_get_set)
    then show "n \<in> set ?live" using inv by (auto simp: ns(2) answers_def resp_inv_def)
  qed
  moreover have "sorted_wrt (<) ?live" "sorted_wrt (<) (map fst ?rows)"
    using ns(1) tab_ok_filter [OF ok] by (simp_all add: sorted_wrt_filter tab_ok_def)
  ultimately have live: "?live = map fst ?rows" by (metis strict_sorted_equal)
  have "map (\<lambda>n. (the (tab_get (TX d) n), the (response_of e (the (tab_get (TX d) n))))) ?live
      = answers_to e h d"
    unfolding live answers_to_eq map_map by (rule map_cong [OF refl]) (use ok in \<open>auto simp: tab_get_set\<close>)
  then show ?thesis unfolding ns(3) using push_responses [of ns d e h "[]"] listed by fastforce
qed

lemma inference_by_tx_rows:
  assumes "store_reachable e prefix d" "utf8_str txid"
  shows "inference_by_tx None e txid d =
    Inr (case tab_get (AI_REQ_BY_HASH d) txid of
           None \<Rightarrow> None
         | Some s \<Rightarrow> (let req = dec_request (the (tab_get (AI_REQ d) s))
             in Some \<lparr> id_request = req, id_first_response = first_response (AI_RESP d) req,
                       id_responses = answers_to e (qr_request_hash req) d \<rparr>))"
proof (cases "tab_get (AI_REQ_BY_HASH d) txid")
  case None
  then show ?thesis by (simp add: inference_by_tx_def)
next
  case (Some s)
  have inv: "ai_inv e (meta_u64 d ''next_tx_num'') (meta_u64 d ''ai_req_seq'') d"
    using reachable_ai [OF assms(1)] by (simp add: ai_store_inv_def)
  then have req: "req_inv (meta_u64 d ''ai_req_seq'') d" and resp: "resp_inv e (meta_u64 d ''next_tx_num'') d"
    by (simp_all add: ai_inv_def)
  from req Some obtain row where row: "tab_get (AI_REQ d) s = Some row"
    "txid = qr_request_hash (dec_request row) \<or> txid = qr_tx_id (dec_request row)"
    unfolding req_inv_def by blast
  then have "utf8_str (qr_request_hash (dec_request row))"
    using req assms(2) unfolding req_inv_def by metis
  moreover have "tab_ok (TX d)" using reachable_tabs [OF assms(1)] by (simp add: ledger_tabs_ok_def)
  ultimately show ?thesis
    using response_scan [OF resp] Some row(1) by (simp add: inference_by_tx_def Let_def case_prod_beta)
qed

text \<open>Property C7. In a reachable database the detail of an inference request is complete and
  sound: the lookup never fails, finds a stored request exactly when its index has the id,
  the request found has the id as its transaction id or identity, and the responses listed
  are exactly the stored transactions of the response subnetwork that name the request, in
  the order they were accepted; a response of an unwound or expired transaction is not
  listed.\<close>

theorem inference_detail_exact:
  assumes "store_reachable e prefix d" "utf8_str txid"
  shows "(inference_by_tx None e txid d = Inr None \<longleftrightarrow> tab_get (AI_REQ_BY_HASH d) txid = None)
    \<and> (tab_get (AI_REQ_BY_HASH d) txid \<noteq> None \<longrightarrow>
        (\<exists>det s row. inference_by_tx None e txid d = Inr (Some det)
           \<and> tab_get (AI_REQ d) s = Some row \<and> id_request det = dec_request row
           \<and> (qr_tx_id (id_request det) = txid \<or> qr_request_hash (id_request det) = txid)
           \<and> id_responses det = answers_to e (qr_request_hash (id_request det)) d))"
proof (cases "tab_get (AI_REQ_BY_HASH d) txid")
  case None
  then show ?thesis using inference_by_tx_rows [OF assms] by simp
next
  case (Some s)
  have "req_inv (meta_u64 d ''ai_req_seq'') d"
    using reachable_ai [OF assms(1)] by (simp add: ai_store_inv_def ai_inv_def)
  with Some obtain row where "tab_get (AI_REQ d) s = Some row"
    "txid = qr_request_hash (dec_request row) \<or> txid = qr_tx_id (dec_request row)"
    unfolding req_inv_def by blast
  then show ?thesis using Some inference_by_tx_rows [OF assms] by (auto simp: Let_def)
qed

text \<open>A block with a request and a response to it: the sample digest of a payload starts with
  the payload.\<close>

definition sample_request :: RawTx where
  "sample_request = (sample_tx ''aa'' False [] [])\<lparr>
     rt_subnetwork_id := SUBNET_AI_REQUEST, rt_payload := to_hex (replicate 60 7) \<rparr>"

definition sample_response :: RawTx where
  "sample_response = (sample_tx ''bb'' False [] [])\<lparr>
     rt_subnetwork_id := SUBNET_AI_RESPONSE, rt_payload := to_hex (replicate 78 7) \<rparr>"

definition sample_ai_group :: AcceptedGroup where
  "sample_ai_group = \<lparr> ag_chain_block_hash = ''b1'', ag_daa_score = 10,
     ag_txs = [sample_request, sample_response] \<rparr>"

definition sample_ai_db :: db where
  "sample_ai_db = snd (store_apply None ext_sample ''keryxsim'' [sample_ai_group] empty_db)"

lemma sample_ai_reachable: "store_reachable ext_sample ''keryxsim'' sample_ai_db"
proof -
  have "store_step ext_sample ''keryxsim'' empty_db sample_ai_db"
    unfolding sample_ai_db_def
    by (rule step_apply) (simp add: group_txs_def sample_ai_group_def meta_u64_def empty_db_def)
  moreover have "store_env ext_sample ''keryxsim''"
    by (simp add: store_env_def ext_ok_sample ascii_text_def)
  ultimately show ?thesis by (auto simp: store_reachable_def)
qed

lemma sample_identity: "request_hash ext_sample (replicate 60 7) = to_hex (replicate 32 7)"
  by (simp add: request_hash_def ext_sample_def)

lemma sample_request_step:
  assumes "AI_REQ_BY_HASH (ap_db st) = []"
  shows "\<exists>rec. index_subnetwork ext_sample grp sample_request n st = Inr (st\<lparr>
      ap_db := (ap_db st)\<lparr> AI_REQ := tab_insert (ap_ai_req_seq st) (Current rec) (AI_REQ (ap_db st)),
        AI_REQ_BY_HASH := tab_insert ''aa'' (ap_ai_req_seq st) [(to_hex (replicate 32 7), ap_ai_req_seq st)] \<rparr>,
      ap_ai_req_seq := ap_ai_req_seq st + 1 \<rparr>)
    \<and> qr_request_hash rec = to_hex (replicate 32 7)"
proof -
  obtain req where "decode_request (replicate 60 7) = Some req"
    by (simp add: decode_request_def MIN_REQUEST_LEN_def Let_def)
  then show ?thesis
    using assms sample_identity
    by (intro exI [of _ "request_rec sample_request grp req (to_hex (replicate 32 7)) None"])
      (simp add: index_subnetwork_def index_request_def sample_request_def sample_tx_def request_miner_def
        request_routed_def nth_opt_def request_identity_def request_rec_def Let_def)
qed

lemma sample_caps_step:
  "index_caps grp sample_request st = Inr st" "index_caps grp sample_response st = Inr st"
  by (simp_all add: index_caps_def sample_request_def sample_response_def sample_tx_def)

lemma sample_response_step:
  "\<exists>st'. index_subnetwork ext_sample grp sample_response n st = Inr st' \<and> ledger_side st' = ledger_side st
     \<and> request_side st' = request_side st"
proof -
  have sub: "rt_subnetwork_id sample_response = SUBNET_AI_RESPONSE" by (simp add: sample_response_def)
  obtain resp where "decode_response ext_sample (replicate 78 7) = Some resp"
    by (simp add: decode_response_def RESPONSE_LEN_def)
  then obtain st' where st': "index_response ext_sample grp sample_response n st = Inr st'"
    by (simp add: index_response_def sample_response_def Let_def)
  moreover have "index_subnetwork ext_sample grp sample_response n st = index_response ext_sample grp sample_response n st"
    by (simp add: index_subnetwork_def sub SUBNET_AI_REQUEST_def SUBNET_AI_RESPONSE_def)
  ultimately show ?thesis using index_response_frame [OF st'] index_response_tables [OF st' sub] by auto
qed

lemma sample_ai_ledger:
  "compute_ledger ext_sample sample_request p t u = Inr []"
  "compute_ledger ext_sample sample_response p t u = Inr []"
  by (simp_all add: compute_ledger_def sample_request_def sample_response_def sample_tx_def ext_sample_def)

lemma sample_ai_tables:
  "\<exists>rec. TX sample_ai_db = [(0, build_indexed sample_request 0 sample_ai_group []),
     (1, build_indexed sample_response 1 sample_ai_group [])]
   \<and> tab_get (AI_REQ_BY_HASH sample_ai_db) ''aa'' = Some 0
   \<and> AI_REQ sample_ai_db = [(0, Current rec)] \<and> qr_request_hash rec = to_hex (replicate 32 7)"
proof -
  define st0 where "st0 = (begin_apply empty_db)\<lparr> ap_next_tx_num := 1,
    ap_db := index_ledger sample_request sample_ai_group 0 [] empty_db \<rparr>"
  have zero: "ap_ai_req_seq st0 = 0" "AI_REQ (ap_db st0) = []" "AI_REQ_BY_HASH (ap_db st0) = []"
    "TX (ap_db st0) = [(0, build_indexed sample_request 0 sample_ai_group [])]"
    by (simp_all add: st0_def begin_apply_def meta_u64_def empty_db_def index_ledger_tables)
  have start: "ap_next_tx_num st0 = 1" "APPLIED (ap_db st0) = []" by (simp_all add: st0_def index_ledger_tables empty_db_def)
  obtain rec where rec: "qr_request_hash rec = to_hex (replicate 32 7)"
    and req: "index_subnetwork ext_sample sample_ai_group sample_request 0 st0 = Inr (st0\<lparr>
      ap_db := (ap_db st0)\<lparr> AI_REQ := [(0, Current rec)],
        AI_REQ_BY_HASH := tab_insert ''aa'' 0 [(to_hex (replicate 32 7), 0)] \<rparr>, ap_ai_req_seq := 1 \<rparr>)"
    using sample_request_step [OF zero(3), of sample_ai_group 0] by (auto simp: zero simp del: tab_insert.simps(2))
  define st1 where "st1 = st0\<lparr> ap_db := (ap_db st0)\<lparr> AI_REQ := [(0, Current rec)],
        AI_REQ_BY_HASH := tab_insert ''aa'' 0 [(to_hex (replicate 32 7), 0)] \<rparr>, ap_ai_req_seq := 1,
      ap_total_txs := ap_total_txs st0 + 1,
      ap_stats := (ap_stats st0)\<lparr> as_applied_txs := as_applied_txs (ap_stats st0) + 1 \<rparr> \<rparr>"
  have a1: "apply_tx ext_sample ''keryxsim'' sample_ai_group sample_request ([], begin_apply empty_db) = Inr ([0], st1)"
    using req by (simp add: apply_tx_def Let_def sample_ai_ledger sample_caps_step st1_def meta_u64_def
        flip: st0_def) (simp add: st0_def empty_db_def meta_u64_def)
  have one: "ap_next_tx_num st1 = 1" "AI_REQ (ap_db st1) = [(0, Current rec)]"
    "tab_get (AI_REQ_BY_HASH (ap_db st1)) ''aa'' = Some 0"
    "TX (ap_db st1) = [(0, build_indexed sample_request 0 sample_ai_group [])]"
    by (simp_all add: st1_def start zero del: tab_insert.simps(2))
  let ?st = "st1\<lparr> ap_next_tx_num := 2, ap_db := index_ledger sample_response sample_ai_group 1 [] (ap_db st1) \<rparr>"
  obtain st2 where st2: "index_subnetwork ext_sample sample_ai_group sample_response 1 ?st = Inr st2"
    "ledger_side st2 = ledger_side ?st" "request_side st2 = request_side ?st"
    using sample_response_step by blast
  then have "\<exists>st3. apply_tx ext_sample ''keryxsim'' sample_ai_group sample_response ([0], st1) = Inr ([0, 1], st3)
      \<and> ap_db st3 = ap_db st2"
    by (simp add: apply_tx_def Let_def sample_ai_ledger sample_caps_step one(1))
  then obtain st3 where a2: "apply_tx ext_sample ''keryxsim'' sample_ai_group sample_response ([0], st1) = Inr ([0, 1], st3)"
    "ap_db st3 = ap_db st2" by blast
  have "fold_res (apply_tx ext_sample ''keryxsim'' sample_ai_group) (ag_txs sample_ai_group) ([], begin_apply empty_db)
      = Inr ([0, 1], st3)"
    using a1 a2(1) by (simp add: sample_ai_group_def)
  then have db: "sample_ai_db = snd (finish_apply (close_group sample_ai_group [0, 1] st3))"
    by (simp add: sample_ai_db_def store_apply_def apply_group_def case_prod_beta) (simp add: empty_db_def)
  have "TX sample_ai_db = TX (ap_db st2)" "AI_REQ sample_ai_db = AI_REQ (ap_db st2)"
    "AI_REQ_BY_HASH sample_ai_db = AI_REQ_BY_HASH (ap_db st2)"
    unfolding db by (simp_all add: finish_apply_db close_group_def Let_def a2(2))
  then show ?thesis
    using st2(2,3) one rec by (simp add: ledger_side_def ledger_of_eq request_side_def index_ledger_tables)
qed

theorem inference_detail_exact_witness:
  "\<exists>det resp. inference_by_tx None ext_sample ''aa'' sample_ai_db = Inr (Some det)
     \<and> id_responses det = [(build_indexed sample_response 1 sample_ai_group [], resp)]
     \<and> rs_request_hash resp = qr_request_hash (id_request det)"
proof -
  obtain rec where tabs: "TX sample_ai_db = [(0, build_indexed sample_request 0 sample_ai_group []),
     (1, build_indexed sample_response 1 sample_ai_group [])]"
    "tab_get (AI_REQ_BY_HASH sample_ai_db) ''aa'' = Some 0"
    "AI_REQ sample_ai_db = [(0, Current rec)]" "qr_request_hash rec = to_hex (replicate 32 7)"
    using sample_ai_tables by blast
  have "utf8_str ''aa''" by (rule ascii_utf8_str) simp
  from inference_detail_exact [OF sample_ai_reachable this] tabs(2,3) obtain det where
    det: "inference_by_tx None ext_sample ''aa'' sample_ai_db = Inr (Some det)" "id_request det = rec"
      "id_responses det = answers_to ext_sample (qr_request_hash (id_request det)) sample_ai_db"
    by (auto simp: tab_get_def split: if_splits)
  obtain resp where resp: "decode_response ext_sample (replicate 78 7) = Some resp"
    "rs_request_hash resp = to_hex (replicate 32 7)"
    by (simp add: decode_response_def RESPONSE_LEN_def slice_def)
  have "response_of ext_sample (build_indexed sample_request 0 sample_ai_group []) = None"
    "response_of ext_sample (build_indexed sample_response 1 sample_ai_group []) = Some resp"
    using resp(1) by (simp_all add: response_of_def build_indexed_def sample_request_def sample_response_def
        SUBNET_AI_REQUEST_def SUBNET_AI_RESPONSE_def)
  then show ?thesis
    using det tabs(1,4) resp(2) by (auto simp: answers_to_def map_filter_simps)
qed

end
