(* ===== verification/Staging.thy ===== *)
theory Staging
  imports StoreData
begin

text \<open>
  The staging area of \<open>src/indexer/mod.rs\<close>: the node's messages as far as the indexer
  reads them, the conversion of a node transaction, the insertion-ordered map with a hard
  capacity, and the block scores and transaction bodies staged in two such maps.
\<close>

section \<open>Node messages\<close>

record RpcOutpoint =
  ou_transaction_id :: string
  ou_index :: u32

record RpcTransactionInput =
  ti_previous_outpoint :: "RpcOutpoint option"
  ti_signature_script :: string
  ti_sequence :: u64
  ti_sig_op_count :: u32

record RpcScriptPublicKey =
  sp_version :: u32
  sp_script_public_key :: string

record RpcTransactionOutput =
  to_amount :: u64
  to_script_public_key :: "RpcScriptPublicKey option"

record RpcTransaction =
  tx_version :: u32
  tx_inputs :: "RpcTransactionInput list"
  tx_outputs :: "RpcTransactionOutput list"
  tx_lock_time :: u64
  tx_subnetwork_id :: string
  tx_gas :: u64
  tx_payload :: string
  tx_verbose_id :: "string option"

text \<open>A block: the score of its header, its transactions, the hash of its verbose data.\<close>

record RpcBlock =
  bl_header_daa :: "u64 option"
  bl_transactions :: "RpcTransaction list"
  bl_verbose_hash :: "string option"

section \<open>Transactions\<close>

definition COINBASE_SUBNETWORK :: string where
  "COINBASE_SUBNETWORK = ''0100000000000000000000000000000000000000''"

definition outpoint_default :: RpcOutpoint where
  "outpoint_default = \<lparr> ou_transaction_id = [], ou_index = 0 \<rparr>"

definition spk_default :: RpcScriptPublicKey where
  "spk_default = \<lparr> sp_version = 0, sp_script_public_key = [] \<rparr>"

definition unwrap_or :: "'a \<Rightarrow> 'a option \<Rightarrow> 'a" where
  "unwrap_or x r = (case r of None \<Rightarrow> x | Some y \<Rightarrow> y)"

definition raw_in :: "RpcTransactionInput \<Rightarrow> RawIn" where
  "raw_in i =
     (let op = unwrap_or outpoint_default (ti_previous_outpoint i)
      in \<lparr> ri_previous_tx_id = ou_transaction_id op, ri_previous_index = ou_index op,
           ri_signature_script = ti_signature_script i, ri_sequence = ti_sequence i,
           ri_sig_op_count = ti_sig_op_count i \<rparr>)"

definition raw_out :: "RpcTransactionOutput \<Rightarrow> RawOut" where
  "raw_out out =
     (let spk = unwrap_or spk_default (to_script_public_key out)
      in \<lparr> ro_amount = to_amount out, ro_script_version = sp_version spk,
           ro_script_public_key = sp_script_public_key spk \<rparr>)"

definition raw_from_proto :: "RpcTransaction \<Rightarrow> RawTx option" where
  "raw_from_proto tx =
     (case tx_verbose_id tx of
        None \<Rightarrow> None
      | Some txid \<Rightarrow>
          if txid = [] then None
          else Some \<lparr> rt_tx_id = txid,
                 rt_is_coinbase = eq_ignore_ascii_case (tx_subnetwork_id tx) COINBASE_SUBNETWORK,
                 rt_version = tx_version tx, rt_lock_time = tx_lock_time tx,
                 rt_subnetwork_id = tx_subnetwork_id tx, rt_gas = tx_gas tx,
                 rt_payload = tx_payload tx, rt_inputs = map raw_in (tx_inputs tx),
                 rt_outputs = map raw_out (tx_outputs tx) \<rparr>)"

section \<open>Bounded maps\<close>

record 'v Bounded =
  bd_map :: "(string, 'v) tab"
  bd_order :: "string list"
  bd_cap :: nat

definition bounded_new :: "nat \<Rightarrow> 'v Bounded" where
  "bounded_new cap = \<lparr> bd_map = [], bd_order = [], bd_cap = cap \<rparr>"

fun evict :: "nat \<Rightarrow> string list \<Rightarrow> (string, 'v) tab \<Rightarrow> string list \<times> (string, 'v) tab" where
  "evict cap [] m = ([], m)"
| "evict cap (old # order) m =
     (if cap < length (old # order) then evict cap order (tab_remove old m) else (old # order, m))"

definition bounded_insert :: "string \<Rightarrow> 'v \<Rightarrow> 'v Bounded \<Rightarrow> 'v Bounded" where
  "bounded_insert key value b =
     (let m = tab_insert key value (bd_map b)
      in if tab_get (bd_map b) key = None
         then (let (order, m) = evict (bd_cap b) (bd_order b @ [key]) m
               in b\<lparr> bd_map := m, bd_order := order \<rparr>)
         else b\<lparr> bd_map := m \<rparr>)"

definition bounded_get :: "'v Bounded \<Rightarrow> string \<Rightarrow> 'v option" where
  "bounded_get b key = tab_get (bd_map b) key"

definition bounded_len :: "'v Bounded \<Rightarrow> nat" where
  "bounded_len b = length (bd_map b)"

section \<open>Staging\<close>

definition STAGE_BLOCK_CAP :: nat where
  "STAGE_BLOCK_CAP = 20000"

definition STAGE_TX_CAP :: nat where
  "STAGE_TX_CAP = 50000"

record Staging =
  sg_block_daa :: "u64 Bounded"
  sg_tx_bodies :: "RawTx Bounded"

definition staging_new :: Staging where
  "staging_new = \<lparr> sg_block_daa = bounded_new STAGE_BLOCK_CAP, sg_tx_bodies = bounded_new STAGE_TX_CAP \<rparr>"

definition stage_tx :: "RpcTransaction \<Rightarrow> RawTx Bounded \<Rightarrow> RawTx Bounded" where
  "stage_tx tx b =
     (case raw_from_proto tx of None \<Rightarrow> b | Some raw \<Rightarrow> bounded_insert (rt_tx_id raw) raw b)"

definition stage_block :: "RpcBlock \<Rightarrow> Staging \<Rightarrow> Staging" where
  "stage_block block s =
     (let s = (case (bl_verbose_hash block, bl_header_daa block) of
                 (Some hash, Some daa) \<Rightarrow>
                   if hash \<noteq> [] then s\<lparr> sg_block_daa := bounded_insert hash daa (sg_block_daa s) \<rparr> else s
               | _ \<Rightarrow> s)
      in s\<lparr> sg_tx_bodies := fold stage_tx (bl_transactions block) (sg_tx_bodies s) \<rparr>)"

definition staged_block_daa :: "Staging \<Rightarrow> string \<Rightarrow> u64 option" where
  "staged_block_daa s hash = bounded_get (sg_block_daa s) hash"

definition staged_tx :: "Staging \<Rightarrow> string \<Rightarrow> RawTx option" where
  "staged_tx s txid = bounded_get (sg_tx_bodies s) txid"

definition staged_blocks :: "Staging \<Rightarrow> nat" where
  "staged_blocks s = bounded_len (sg_block_daa s)"

section \<open>A bounded map is a bounded queue of entries\<close>

text \<open>
  Abstractly: the entries in insertion order. Inserting a known key replaces its value in
  place; inserting a new key appends it and drops the oldest entries over the capacity.
\<close>

definition entries :: "'v Bounded \<Rightarrow> (string \<times> 'v) list" where
  "entries b = map (\<lambda>k. (k, the (tab_get (bd_map b) k))) (bd_order b)"

definition queue_insert :: "nat \<Rightarrow> string \<Rightarrow> 'v \<Rightarrow> (string \<times> 'v) list \<Rightarrow> (string \<times> 'v) list" where
  "queue_insert cap key value q =
     (if key \<in> fst ` set q then map (\<lambda>(k, v). (k, if k = key then value else v)) q
      else drop (length q + 1 - cap) (q @ [(key, value)]))"

definition bounded_inv :: "'v Bounded \<Rightarrow> bool" where
  "bounded_inv b =
     (tab_ok (bd_map b) \<and> distinct (bd_order b) \<and> length (bd_order b) \<le> bd_cap b
      \<and> (\<forall>k. k \<in> set (bd_order b) \<longleftrightarrow> tab_get (bd_map b) k \<noteq> None))"

lemma evict_eq:
  "evict cap order m = (drop (length order - cap) order,
     tab_remove_all (take (length order - cap) order) m)"
proof (induction cap order m rule: evict.induct)
  case (2 cap old order m)
  show ?case
  proof (cases "cap < length (old # order)")
    case True
    then have "length (old # order) - cap = Suc (length order - cap)" by simp
    then show ?thesis using 2 True by simp
  qed simp
qed simp

lemma bounded_insert_known:
  "tab_get (bd_map b) key \<noteq> None \<Longrightarrow>
     bounded_insert key value b = b\<lparr> bd_map := tab_insert key value (bd_map b) \<rparr>"
  by (auto simp: bounded_insert_def Let_def)

lemma bounded_insert_new:
  "tab_get (bd_map b) key = None \<Longrightarrow>
     bounded_insert key value b =
       (let n = length (bd_order b) + 1 - bd_cap b
        in b\<lparr> bd_map := tab_remove_all (take n (bd_order b @ [key])) (tab_insert key value (bd_map b)),
              bd_order := drop n (bd_order b @ [key]) \<rparr>)"
  by (simp add: bounded_insert_def evict_eq Let_def)

lemma bounded_insert_cap [simp]: "bd_cap (bounded_insert key value b) = bd_cap b"
  by (simp add: bounded_insert_def case_prod_beta Let_def)

lemma set_drop_distinct: "distinct xs \<Longrightarrow> k \<in> set (drop n xs) \<longleftrightarrow> k \<in> set xs \<and> k \<notin> set (take n xs)"
  by (metis Un_iff append_take_drop_id disjoint_iff distinct_append set_append)

lemma bounded_insert_inv:
  assumes "bounded_inv b"
  shows "bounded_inv (bounded_insert key value b)"
proof (cases "tab_get (bd_map b) key")
  case None
  define n where "n = length (bd_order b) + 1 - bd_cap b"
  have d: "distinct (bd_order b @ [key])" using assms None by (auto simp: bounded_inv_def)
  have mem: "k \<in> set (bd_order b) \<longleftrightarrow> tab_get (bd_map b) k \<noteq> None" for k
    using assms by (simp add: bounded_inv_def)
  have "k \<in> set (drop n (bd_order b @ [key])) \<longleftrightarrow>
      tab_get (tab_remove_all (take n (bd_order b @ [key])) (tab_insert key value (bd_map b))) k \<noteq> None" for k
    using mem [of k] by (simp only: set_drop_distinct [OF d]) auto
  then show ?thesis
    using assms d unfolding bounded_insert_new [OF None] Let_def n_def [symmetric]
    by (simp add: bounded_inv_def n_def del: drop_append take_append)
next
  case (Some v)
  then show ?thesis using assms by (auto simp: bounded_inv_def bounded_insert_known)
qed

lemma entries_insert:
  assumes inv: "bounded_inv b"
  shows "entries (bounded_insert key value b) = queue_insert (bd_cap b) key value (entries b)"
proof -
  have keys: "fst ` set (entries b) = set (bd_order b)" by (simp add: entries_def image_image)
  have mem: "k \<in> set (bd_order b) \<longleftrightarrow> tab_get (bd_map b) k \<noteq> None" for k
    using inv by (simp add: bounded_inv_def)
  show ?thesis
  proof (cases "tab_get (bd_map b) key")
    case None
    define n where "n = length (bd_order b) + 1 - bd_cap b"
    have d: "distinct (bd_order b @ [key])" using inv None by (auto simp: bounded_inv_def)
    have k: "key \<notin> set (bd_order b)" using mem None by simp
    have "entries (bounded_insert key value b)
        = map (\<lambda>k. (k, the (tab_get (tab_insert key value (bd_map b)) k))) (drop n (bd_order b @ [key]))"
      unfolding entries_def bounded_insert_new [OF None] Let_def n_def [symmetric]
      using set_drop_distinct [OF d] by (simp del: drop_append take_append)
    also have "\<dots> = drop n (entries b @ [(key, value)])"
    proof -
      have "map (\<lambda>k. (k, the (tab_get (tab_insert key value (bd_map b)) k))) (bd_order b @ [key])
          = entries b @ [(key, value)]"
        using k by (auto simp: entries_def)
      then show ?thesis by (metis drop_map)
    qed
    also have "\<dots> = queue_insert (bd_cap b) key value (entries b)"
      using k keys by (simp add: queue_insert_def n_def entries_def)
    finally show ?thesis .
  next
    case (Some v)
    then have "key \<in> fst ` set (entries b)" using mem keys by simp
    then show ?thesis using Some by (auto simp: entries_def bounded_insert_known queue_insert_def)
  qed
qed

section \<open>The contract of the staging maps\<close>

text \<open>
  What staging relies on: a lookup after an insertion returns the value inserted, or what
  was there before, or nothing; so a property of every inserted entry is a property of
  every entry found.
\<close>

locale recent_map =
  fixes inv :: "'m \<Rightarrow> bool"
    and ins :: "string \<Rightarrow> 'v \<Rightarrow> 'm \<Rightarrow> 'm"
    and get :: "'m \<Rightarrow> string \<Rightarrow> 'v option"
  assumes ins_inv: "inv m \<Longrightarrow> inv (ins k v m)"
    and ins_get: "inv m \<Longrightarrow> get (ins k v m) k' = Some w \<Longrightarrow> (k' = k \<and> w = v) \<or> get m k' = Some w"
begin

lemma fold_all:
  assumes "inv m" "\<And>k v. get m k = Some v \<Longrightarrow> Q k v" "\<And>x. x \<in> set xs \<Longrightarrow> Q (key x) (val x)"
  shows "inv (fold (\<lambda>x. ins (key x) (val x)) xs m)
    \<and> (\<forall>k v. get (fold (\<lambda>x. ins (key x) (val x)) xs m) k = Some v \<longrightarrow> Q k v)"
  using assms
proof (induction xs arbitrary: m)
  case Nil
  then show ?case by simp
next
  case (Cons x xs)
  have "inv (ins (key x) (val x) m)" using Cons.prems(1) by (rule ins_inv)
  moreover have "Q k v" if "get (ins (key x) (val x) m) k = Some v" for k v
    using ins_get [OF Cons.prems(1) that] Cons.prems(2,3) by auto
  ultimately show ?case using Cons.IH [of "ins (key x) (val x) m"] Cons.prems(3) by simp
qed

end

lemma map_of_keyed: "map_of (map (\<lambda>k. (k, f k)) ks) k = (if k \<in> set ks then Some (f k) else None)"
  by (induction ks) auto

lemma entries_new: "entries (bounded_new cap) = []" "bd_cap (bounded_new cap) = cap"
  by (simp_all add: entries_def bounded_new_def)

lemma bounded_get_entries:
  assumes "bounded_inv b"
  shows "bounded_get b k = map_of (entries b) k"
proof (cases "k \<in> set (bd_order b)")
  case True
  then obtain v where "tab_get (bd_map b) k = Some v" using assms by (auto simp: bounded_inv_def)
  then show ?thesis using True by (simp add: bounded_get_def entries_def map_of_keyed)
next
  case False
  then have "tab_get (bd_map b) k = None" using assms by (auto simp: bounded_inv_def)
  moreover have "map_of (entries b) k = None"
    using False by (auto simp: entries_def map_of_eq_None_iff)
  ultimately show ?thesis by (simp add: bounded_get_def)
qed

lemma bounded_get_insert:
  assumes "bounded_inv b" "bounded_get (bounded_insert key value b) k = Some w"
  shows "(k = key \<and> w = value) \<or> bounded_get b k = Some w"
  using assms(2)
proof (cases "tab_get (bd_map b) key")
  case None
  then show ?thesis
    using assms(2) by (auto simp: bounded_get_def bounded_insert_new Let_def split: if_splits)
next
  case (Some v)
  then show ?thesis
    using assms(2) by (auto simp: bounded_get_def bounded_insert_known split: if_splits)
qed

interpretation bounded: recent_map bounded_inv bounded_insert bounded_get
  by unfold_locales (auto simp: bounded_insert_inv dest: bounded_get_insert)

lemma bounded_new_inv: "bounded_inv (bounded_new cap)"
  by (simp add: bounded_inv_def bounded_new_def)

lemma bounded_len_entries: "bounded_inv b \<Longrightarrow> bounded_len b = length (entries b)"
proof -
  assume inv: "bounded_inv b"
  have d: "distinct (map fst (bd_map b))" "distinct (bd_order b)"
    using inv tab_ok_distinct by (auto simp: bounded_inv_def)
  have "set (bd_order b) = set (map fst (bd_map b))"
  proof (rule set_eqI)
    fix k
    have "k \<in> set (bd_order b) \<longleftrightarrow> map_of (bd_map b) k \<noteq> None"
      using inv by (auto simp: bounded_inv_def tab_get_def)
    then show "k \<in> set (bd_order b) \<longleftrightarrow> k \<in> set (map fst (bd_map b))"
      by (simp add: map_of_eq_None_iff)
  qed
  then show ?thesis
    using distinct_card [OF d(1)] distinct_card [OF d(2)] by (simp add: bounded_len_def entries_def)
qed

interpretation queue: functional_refinement "\<lambda>(k, v). bounded_insert k v" "\<lambda>(k, v). queue_insert cap k v"
    entries "\<lambda>b. bounded_inv b \<and> bd_cap b = cap" "\<lambda>_ _. True"
  by unfold_locales (auto simp: bounded_insert_inv entries_insert)

lemma always_admissible [simp]: "admissible (\<lambda>_ _. True) f acts s"
  by (induction acts arbitrary: s) simp_all

text \<open>Property C26. The bounded map refines a bounded queue: after any sequence of insertions into a
  new map, its entries in insertion order are those of the queue that replaces the value
  of a known key in place and drops the oldest entries over the capacity; lookups read the
  queue, the size is its length and never exceeds the capacity.\<close>

theorem bounded_refines_queue:
  "entries (fold (\<lambda>(k, v). bounded_insert k v) kvs (bounded_new cap))
     = fold (\<lambda>(k, v). queue_insert cap k v) kvs []
   \<and> bounded_get (fold (\<lambda>(k, v). bounded_insert k v) kvs (bounded_new cap)) key
     = map_of (fold (\<lambda>(k, v). queue_insert cap k v) kvs []) key
   \<and> bounded_len (fold (\<lambda>(k, v). bounded_insert k v) kvs (bounded_new cap))
     = length (fold (\<lambda>(k, v). queue_insert cap k v) kvs [])
   \<and> bounded_len (fold (\<lambda>(k, v). bounded_insert k v) kvs (bounded_new cap)) \<le> cap"
proof -
  let ?b = "fold (\<lambda>(k, v). bounded_insert k v) kvs (bounded_new cap)"
  have b: "bounded_inv ?b" "bd_cap ?b = cap" "entries ?b = fold (\<lambda>(k, v). queue_insert cap k v) kvs []"
    using queue.run_refines [of "bounded_new cap" cap kvs] by (simp_all add: entries_new bounded_new_inv)
  have "length (entries ?b) \<le> cap" using b(1,2) by (simp add: bounded_inv_def entries_def)
  then show ?thesis using bounded_get_entries [OF b(1)] bounded_len_entries [OF b(1)] b(3) by simp
qed

section \<open>What is staged\<close>

definition staging_inv :: "Staging \<Rightarrow> bool" where
  "staging_inv s =
     (bounded_inv (sg_block_daa s) \<and> bounded_inv (sg_tx_bodies s)
      \<and> (\<forall>txid raw. staged_tx s txid = Some raw \<longrightarrow> rt_tx_id raw = txid \<and> txid \<noteq> []))"

lemma staging_new_inv: "staging_inv staging_new"
  by (simp add: staging_inv_def staging_new_def bounded_new_inv staged_tx_def bounded_get_def)
    (simp add: bounded_new_def)

lemma raw_from_proto_id: "raw_from_proto tx = Some raw \<Longrightarrow> rt_tx_id raw \<noteq> []"
  by (auto simp: raw_from_proto_def split: option.splits if_splits)

lemma fold_stage_tx:
  "fold stage_tx txs b = fold (\<lambda>raw. bounded_insert (rt_tx_id raw) raw) (List.map_filter raw_from_proto txs) b"
  by (induction txs arbitrary: b) (auto simp: stage_tx_def List.map_filter_simps split: option.splits)

lemma stage_block_inv:
  assumes "staging_inv s"
  shows "staging_inv (stage_block block s)"
proof -
  let ?raws = "List.map_filter raw_from_proto (bl_transactions block)"
  have "rt_tx_id raw \<noteq> []" if "raw \<in> set ?raws" for raw
    using that raw_from_proto_id by (auto simp: List.map_filter_def)
  then have "bounded_inv (fold (\<lambda>raw. bounded_insert (rt_tx_id raw) raw) ?raws (sg_tx_bodies s))
    \<and> (\<forall>k v. bounded_get (fold (\<lambda>raw. bounded_insert (rt_tx_id raw) raw) ?raws (sg_tx_bodies s)) k = Some v
         \<longrightarrow> rt_tx_id v = k \<and> k \<noteq> [])"
    using assms by (intro bounded.fold_all) (auto simp: staging_inv_def staged_tx_def)
  then show ?thesis
    using assms
    by (auto simp: staging_inv_def stage_block_def staged_tx_def fold_stage_tx bounded_insert_inv Let_def
        split: option.splits)
qed

interpretation staging: invariant_system "\<lambda>s. s = staging_new" "\<lambda>s s'. \<exists>block. s' = stage_block block s"
    staging_inv
  by unfold_locales (auto simp: staging_new_inv stage_block_inv)

end
