(* ===== verification/NodeClient.thy ===== *)
theory NodeClient
  imports Staging "HOL-Library.Multiset"
begin

text \<open>
  \<open>src/node.rs\<close>: the client of the node's single message stream. Requests carry an id the
  client chooses; the connection loop pairs each answer with the caller that waits for it,
  hands push messages to the indexer's bounded queue, and fails every waiting caller when
  the stream breaks. The stream, the timers and the connection itself (tonic, tokio) are
  the environment: they appear as the events the loop receives.
\<close>

section \<open>Errors and messages\<close>

datatype NodeError = Unreachable string | Timeout | Rpc string | Protocol string

record RpcAcceptedTransactionIds =
  ac_accepting_block_hash :: string
  ac_accepted_transaction_ids :: "string list"

record VirtualChain =
  vc_removed_chain_block_hashes :: "string list"
  vc_added_chain_block_hashes :: "string list"
  vc_accepted_transaction_ids :: "RpcAcceptedTransactionIds list"

datatype Notification = Connected u64 | BlockAdded RpcBlock | VirtualChainChanged VirtualChain

text \<open>
  An answer of the node: the name of its payload variant, the message of its error field,
  if any, and the rest of the message.
\<close>

record 'b Answer =
  an_variant :: string
  an_error :: "string option"
  an_body :: 'b

datatype 'b Payload =
  BlockAddedNotification "RpcBlock option"
| VirtualChainChangedNotification VirtualChain
| Response "'b Answer"

section \<open>Calls\<close>

text \<open>The three ways \<open>call\<close> ends once its command is queued.\<close>

datatype 'r waited = Elapsed | Dropped | Replied "NodeError + 'r"

definition call :: "bool \<Rightarrow> 'r waited \<Rightarrow> NodeError + 'r" where
  "call queued outcome =
     (if \<not> queued then Inl (Unreachable ''node client task is gone'')
      else case outcome of
             Elapsed \<Rightarrow> Inl Timeout
           | Dropped \<Rightarrow> Inl (Unreachable ''connection to node lost'')
           | Replied r \<Rightarrow> r)"

text \<open>The body of every method the \<open>rpc_method!\<close> macro generates.\<close>

definition rpc_method :: "string \<Rightarrow> string \<Rightarrow> NodeError + 'b Payload \<Rightarrow> NodeError + 'b" where
  "rpc_method name resp_variant result =
     (case result of
        Inl e \<Rightarrow> Inl e
      | Inr (Response resp) \<Rightarrow>
          if an_variant resp = resp_variant
          then (case an_error resp of
                  Some message \<Rightarrow> if message \<noteq> [] then Inl (Rpc message) else Inr (an_body resp)
                | None \<Rightarrow> Inr (an_body resp))
          else Inl (Protocol (''unexpected node response for '' @ name))
      | Inr _ \<Rightarrow> Inl (Protocol (''unexpected node response for '' @ name)))"

text \<open>The methods of the client: name, request variant, response variant.\<close>

definition rpc_methods :: "(string \<times> string \<times> string) list" where
  "rpc_methods =
     [(''get_balance_by_address'', ''GetBalanceByAddressRequest'', ''GetBalanceByAddressResponse''),
      (''get_utxos_by_addresses'', ''GetUtxosByAddressesRequest'', ''GetUtxosByAddressesResponse''),
      (''submit_transaction'', ''SubmitTransactionRequest'', ''SubmitTransactionResponse''),
      (''get_block_dag_info'', ''GetBlockDagInfoRequest'', ''GetBlockDagInfoResponse''),
      (''get_coin_supply'', ''GetCoinSupplyRequest'', ''GetCoinSupplyResponse''),
      (''get_server_info'', ''GetServerInfoRequest'', ''GetServerInfoResponse''),
      (''estimate_network_hashes_per_second'', ''EstimateNetworkHashesPerSecondRequest'', ''EstimateNetworkHashesPerSecondResponse''),
      (''get_block'', ''GetBlockRequest'', ''GetBlockResponse''),
      (''get_virtual_chain_from_block'', ''GetVirtualChainFromBlockRequest'', ''GetVirtualChainFromBlockResponse''),
      (''get_blocks'', ''GetBlocksRequest'', ''GetBlocksResponse''),
      (''get_mempool_entries'', ''GetMempoolEntriesRequest'', ''GetMempoolEntriesResponse''),
      (''get_service_providers'', ''GetServiceProvidersRequest'', ''GetServiceProvidersResponse''),
      (''notify_block_added'', ''NotifyBlockAddedRequest'', ''NotifyBlockAddedResponse''),
      (''notify_virtual_chain_changed'', ''NotifyVirtualChainChangedRequest'', ''NotifyVirtualChainChangedResponse'')]"

text \<open>A method of the table, on the answer its caller gets from the connection loop.\<close>

definition rpc_call :: "string \<times> string \<times> string \<Rightarrow> bool \<Rightarrow> 'b Payload waited \<Rightarrow> NodeError + 'b" where
  "rpc_call m queued outcome = (case m of (name, req_variant, resp_variant) \<Rightarrow>
     rpc_method name resp_variant (call queued outcome))"

section \<open>The connection loop\<close>

definition NOTIF_QUEUE :: nat where
  "NOTIF_QUEUE = 4096"

definition CMD_QUEUE :: nat where
  "CMD_QUEUE = 256"

definition RECONNECT_MAX :: nat where
  "RECONNECT_MAX = 15"

definition next_backoff :: "nat \<Rightarrow> nat" where
  "next_backoff backoff = min (backoff * 2) RECONNECT_MAX"

text \<open>
  Callers are named by the values of a type of reply handles. The loop's state: the waiting
  callers by id, the next id, the indexer's queue (absent without an indexer), and the
  answers given so far.
\<close>

record ('c, 'b) conn =
  cn_pending :: "(u64, 'c) tab"
  cn_next_id :: u64
  cn_notifs :: "Notification list option"
  cn_replies :: "('c \<times> (NodeError + 'b Payload)) list"

text \<open>
  \<open>try_send\<close> drops the notification when the queue is full. It also drops it when the
  receiver is gone, that is after the indexer task ended; nobody reads the queue then, so
  that case is not told apart.
\<close>

definition forward :: "Notification \<Rightarrow> Notification list option \<Rightarrow> Notification list option" where
  "forward n queue =
     (case queue of
        None \<Rightarrow> None
      | Some q \<Rightarrow> Some (if length q < NOTIF_QUEUE then q @ [n] else q))"

definition fail_all :: "('c, 'b) conn \<Rightarrow> ('c, 'b) conn" where
  "fail_all s =
     s\<lparr> cn_pending := [],
        cn_replies := cn_replies s
          @ map (\<lambda>(_, c). (c, Inl (Unreachable ''connection to node lost''))) (cn_pending s) \<rparr>"

definition route :: "'b Payload option \<Rightarrow> u64 \<Rightarrow> ('c, 'b) conn \<Rightarrow> ('c, 'b) conn" where
  "route payload i s =
     (case payload of
        Some (BlockAddedNotification block) \<Rightarrow>
          (case block of
             None \<Rightarrow> s
           | Some b \<Rightarrow> s\<lparr> cn_notifs := forward (BlockAdded b) (cn_notifs s) \<rparr>)
      | Some (VirtualChainChangedNotification vc) \<Rightarrow>
          s\<lparr> cn_notifs := forward (VirtualChainChanged vc) (cn_notifs s) \<rparr>
      | p \<Rightarrow>
          (case tab_get (cn_pending s) i of
             None \<Rightarrow> s
           | Some c \<Rightarrow>
               s\<lparr> cn_pending := tab_remove i (cn_pending s),
                  cn_replies := cn_replies s
                    @ [(c, case p of
                             Some answer \<Rightarrow> Inr answer
                           | None \<Rightarrow> Inl (Protocol ''node sent an empty response payload''))] \<rparr>))"

text \<open>
  \<open>Cmd c sent\<close> is a command of caller \<open>c\<close>; \<open>sent\<close> tells whether the outgoing stream took it.
  \<open>IndexerTakes\<close> is the indexer receiving the oldest notification of its queue.
\<close>

datatype ('c, 'b) event =
  CmdClosed
| Cmd 'c bool
| Message u64 "'b Payload option"
| StreamError
| StreamEnd
| IndexerTakes

datatype ending = Shutdown | Reconnect

text \<open>One turn of the \<open>select!\<close> loop: the state after it, and how the loop ends, if it does.\<close>

definition serve_step :: "('c, 'b) event \<Rightarrow> ('c, 'b) conn \<Rightarrow> ('c, 'b) conn \<times> ending option" where
  "serve_step ev s =
     (case ev of
        CmdClosed \<Rightarrow> (s, Some Shutdown)
      | Cmd c sent \<Rightarrow>
          (let i = cn_next_id s; s = s\<lparr> cn_next_id := i + 1 \<rparr>
           in if sent then (s\<lparr> cn_pending := tab_insert i c (cn_pending s) \<rparr>, None)
              else (fail_all (s\<lparr> cn_replies := cn_replies s
                                  @ [(c, Inl (Unreachable ''node stream closed''))] \<rparr>), Some Reconnect))
      | Message i payload \<Rightarrow> (route payload i s, None)
      | StreamError \<Rightarrow> (fail_all s, Some Reconnect)
      | StreamEnd \<Rightarrow> (fail_all s, Some Reconnect)
      | IndexerTakes \<Rightarrow> (s\<lparr> cn_notifs := map_option tl (cn_notifs s) \<rparr>, None))"

text \<open>The loop over the events to come; the third component is what it did not consume.\<close>

fun serve_loop ::
  "('c, 'b) event list \<Rightarrow> ('c, 'b) conn \<Rightarrow> ('c, 'b) conn \<times> ending option \<times> ('c, 'b) event list" where
  "serve_loop [] s = (s, None, [])"
| "serve_loop (ev # evs) s =
     (case serve_step ev s of
        (s', Some stop) \<Rightarrow> (s', Some stop, evs)
      | (s', None) \<Rightarrow> serve_loop evs s')"

definition serve_start :: "Notification list option \<Rightarrow> u64 \<Rightarrow> ('c, 'b) conn" where
  "serve_start queue generation =
     \<lparr> cn_pending = [], cn_next_id = 1, cn_notifs = forward (Connected generation) queue, cn_replies = [] \<rparr>"

section \<open>The actor: connect, serve, reconnect\<close>

text \<open>
  One attempt to connect: it fails with a message while some callers are queued, or it
  succeeds, the message stream opens or not, and the loop runs on the events that follow.
\<close>

datatype ('c, 'b) attempt = ConnectError string "'c list" | ConnectOk bool "('c, 'b) event list"

record ('c, 'b) actor_state =
  at_backoff :: nat
  at_generation :: u64
  at_notifs :: "Notification list option"
  at_replies :: "('c \<times> (NodeError + 'b Payload)) list"

definition actor_init :: "Notification list option \<Rightarrow> ('c, 'b) actor_state" where
  "actor_init queue = \<lparr> at_backoff = 1, at_generation = 0, at_notifs = queue, at_replies = [] \<rparr>"

definition actor_step ::
  "('c, 'b) attempt \<Rightarrow> ('c, 'b) actor_state \<Rightarrow> ('c, 'b) actor_state \<times> ending option" where
  "actor_step att a =
     (case att of
        ConnectError e queued \<Rightarrow>
          (a\<lparr> at_replies := at_replies a
                @ map (\<lambda>c. (c, Inl (Unreachable (''cannot reach keryx node: '' @ e)))) queued,
              at_backoff := next_backoff (at_backoff a) \<rparr>, Some Reconnect)
      | ConnectOk opened evs \<Rightarrow>
          (let generation = at_generation a + 1;
               a = a\<lparr> at_backoff := 1, at_generation := generation \<rparr>
           in if \<not> opened then (a, Some Reconnect)
              else let (s, stop, rest) = serve_loop evs (serve_start (at_notifs a) generation)
                   in (a\<lparr> at_notifs := cn_notifs s, at_replies := at_replies a @ cn_replies s \<rparr>, stop)))"

text \<open>The attempts until the client shuts down.\<close>

fun actor :: "('c, 'b) attempt list \<Rightarrow> ('c, 'b) actor_state \<Rightarrow> ('c, 'b) actor_state" where
  "actor [] a = a"
| "actor (att # atts) a =
     (case actor_step att a of
        (a', Some Reconnect) \<Rightarrow> actor atts a'
      | (a', _) \<Rightarrow> a')"

text \<open>
  The handle the process keeps: the address its actor connects to, the time a call waits, and
  the queue of notifications shared with the indexer, which only the indexed client has.
\<close>

record NodeHandle =
  nd_url :: string
  nd_timeout_secs :: u64
  nd_notifs :: "Notification list option"

definition spawn_inner :: "string \<Rightarrow> u64 \<Rightarrow> Notification list option \<Rightarrow> NodeHandle" where
  "spawn_inner url timeout notifs = \<lparr> nd_url = url, nd_timeout_secs = timeout, nd_notifs = notifs \<rparr>"

definition node_spawn :: "string \<Rightarrow> u64 \<Rightarrow> NodeHandle" where
  "node_spawn url timeout = spawn_inner url timeout None"

definition spawn_indexed :: "string \<Rightarrow> u64 \<Rightarrow> NodeHandle" where
  "spawn_indexed url timeout = spawn_inner url timeout (Some [])"

section \<open>Calls and answers fit together\<close>

lemma rpc_methods_distinct: "distinct (map fst rpc_methods)" "distinct (map (snd \<circ> snd) rpc_methods)"
  by (code_simp, code_simp)

lemma rpc_methods_same:
  assumes "(name, req, resp) \<in> set rpc_methods" "(name', req', resp') \<in> set rpc_methods"
  shows "resp = resp' \<longleftrightarrow> name = name'"
proof -
  have "inj_on fst (set rpc_methods)" "inj_on (snd \<circ> snd) (set rpc_methods)"
    using rpc_methods_distinct by (auto simp: distinct_map)
  then show ?thesis using assms by (fastforce simp: inj_on_def)
qed

text \<open>
  A method call returns exactly what the node answered to it: the body when
  the answer is of the method's own kind and carries no error text, the node's error text
  when it carries one, and a protocol error when the answer belongs to any other method
  of the client.
\<close>

theorem rpc_call_outcome:
  assumes "(name, req, resp) \<in> set rpc_methods" "(name', req', resp') \<in> set rpc_methods"
    and "an_variant answer = resp'"
  shows "rpc_call (name, req, resp) True (Replied (Inr (Response answer))) =
    (if name' \<noteq> name then Inl (Protocol (''unexpected node response for '' @ name))
     else case an_error answer of
            Some message \<Rightarrow> if message = [] then Inr (an_body answer) else Inl (Rpc message)
          | None \<Rightarrow> Inr (an_body answer))"
  using rpc_methods_same [OF assms(1,2)] assms(3)
  by (auto simp: rpc_call_def call_def rpc_method_def split: option.split)

theorem rpc_call_outcome_witness:
  "rpc_call (''get_block'', ''GetBlockRequest'', ''GetBlockResponse'') True
     (Replied (Inr (Response \<lparr> an_variant = ''GetBlocksResponse'', an_error = None, an_body = () \<rparr>)))
   = Inl (Protocol ''unexpected node response for get_block'')"
  using rpc_call_outcome [of "''get_block''" "''GetBlockRequest''" "''GetBlockResponse''"
      "''get_blocks''" "''GetBlocksRequest''" "''GetBlocksResponse''"
      "\<lparr> an_variant = ''GetBlocksResponse'', an_error = None, an_body = () \<rparr>"]
  by (simp add: rpc_methods_def)

section \<open>Every caller gets one answer\<close>

definition waiting :: "('c, 'b) conn \<Rightarrow> 'c multiset" where
  "waiting s = mset (map snd (cn_pending s))"

definition answered :: "('c, 'b) conn \<Rightarrow> 'c multiset" where
  "answered s = mset (map fst (cn_replies s))"

text \<open>The callers of the commands of a history, in order; the \<open>i\<close>th of them asked with id \<open>i\<close>.\<close>

fun commands :: "('c, 'b) event list \<Rightarrow> 'c list" where
  "commands [] = []"
| "commands (Cmd c sent # evs) = c # commands evs"
| "commands (_ # evs) = commands evs"

definition asked :: "('c, 'b) event list \<Rightarrow> u64 \<Rightarrow> 'c \<Rightarrow> bool" where
  "asked h i c = (0 < unat i \<and> unat i \<le> length (commands h) \<and> commands h ! (unat i - 1) = c)"

definition conn_inv :: "('c, 'b) event list \<Rightarrow> ('c, 'b) conn \<Rightarrow> bool" where
  "conn_inv h s =
     (tab_ok (cn_pending s)
      \<and> cn_next_id s = of_nat (Suc (length (commands h)))
      \<and> (\<forall>i c. tab_get (cn_pending s) i = Some c \<longrightarrow> asked h i c)
      \<and> answered s + waiting s = mset (commands h)
      \<and> (\<forall>c p. (c, Inr p) \<in> set (cn_replies s) \<longrightarrow> (\<exists>i. Message i (Some p) \<in> set h \<and> asked h i c)))"

lemma commands_append [simp]: "commands (g @ h) = commands g @ commands h"
  by (induction g rule: commands.induct) auto

lemma asked_append: "asked h i c \<Longrightarrow> asked (h @ g) i c"
  by (auto simp: asked_def nth_append)

lemma mset_tab_insert:
  "tab_get t k = None \<Longrightarrow> mset (map snd (tab_insert k v t)) = add_mset v (mset (map snd t))"
  unfolding tab_get_def by (induction k v t rule: tab_insert.induct) (auto split: if_splits)

lemma count_values: "count (mset (map snd t)) x = length (filter (\<lambda>p. snd p = x) t)"
  by (induction t) auto

lemma mset_tab_remove:
  assumes "tab_ok t" "tab_get t k = Some v"
  shows "mset (map snd t) = add_mset v (mset (map snd (tab_remove k t)))"
proof (rule multiset_eqI)
  fix x
  show "count (mset (map snd t)) x = count (add_mset v (mset (map snd (tab_remove k t)))) x"
    using tab_remove_length [OF assms, of "\<lambda>p. snd p = x"]
    by (simp only: count_values count_add_mset) (auto simp del: mset_map)
qed

lemma conn_inv_start: "conn_inv [] (serve_start queue generation)"
  by (simp add: conn_inv_def serve_start_def answered_def waiting_def)

lemma fail_all_inv:
  assumes "conn_inv h s"
  shows "conn_inv h (fail_all s)" "waiting (fail_all s) = {#}"
  using assms by (auto simp: conn_inv_def fail_all_def waiting_def answered_def case_prod_beta comp_def)

text \<open>An event that carries no command leaves the invariant of the unchanged state in place.\<close>

lemma conn_inv_more:
  assumes "conn_inv h s" "commands g = []"
  shows "conn_inv (h @ g) s"
  using assms asked_append [of h _ _ g] unfolding conn_inv_def by fastforce

lemma conn_inv_notifs: "conn_inv h s \<Longrightarrow> conn_inv h (s\<lparr> cn_notifs := q \<rparr>)"
  by (simp add: conn_inv_def answered_def waiting_def)

lemma answer_inv:
  assumes "conn_inv h s" "tab_get (cn_pending s) i = Some c"
    and "\<And>p. r = Inr p \<Longrightarrow> Message i (Some p) \<in> set h"
  shows "conn_inv h (s\<lparr> cn_pending := tab_remove i (cn_pending s), cn_replies := cn_replies s @ [(c, r)] \<rparr>)"
proof -
  have ok: "tab_ok (cn_pending s)" and a: "asked h i c" using assms by (auto simp: conn_inv_def)
  show ?thesis
    using assms(1) mset_tab_remove [OF ok assms(2)] assms(3) a
    by (auto simp: conn_inv_def answered_def waiting_def split: if_splits)
qed

lemma route_inv:
  assumes "conn_inv h s"
  shows "conn_inv (h @ [Message i p]) (route p i s)"
proof -
  have more: "conn_inv (h @ [Message i p]) s" using assms by (rule conn_inv_more) simp
  show ?thesis
    using more answer_inv [OF more, of i] conn_inv_notifs [OF more]
    by (auto simp: route_def split: option.split Payload.split)
qed

lemma command_inv:
  assumes inv: "conn_inv h s" and room: "length (commands h) + 1 < 2 ^ 64"
  shows "conn_inv (h @ [Cmd c b]) (s\<lparr> cn_next_id := cn_next_id s + 1,
      cn_pending := tab_insert (cn_next_id s) c (cn_pending s) \<rparr>)" (is "conn_inv ?h ?s")
proof -
  let ?i = "cn_next_id s"
  have i: "unat ?i = Suc (length (commands h))"
    using inv room by (simp add: conn_inv_def unat_of_nat take_bit_eq_mod del: of_nat_Suc)
  have mine: "asked ?h ?i c" using i by (simp add: asked_def nth_append)
  have "tab_get (cn_pending s) ?i = None"
  proof (cases "tab_get (cn_pending s) ?i")
    case (Some d)
    then have "asked h ?i d" using inv by (simp add: conn_inv_def)
    then show ?thesis using i by (simp add: asked_def)
  qed
  then have "answered ?s + waiting ?s = mset (commands ?h)"
    using inv mset_tab_insert [of "cn_pending s" ?i c] by (simp add: conn_inv_def answered_def waiting_def)
  moreover have "asked ?h j d" if "tab_get (cn_pending ?s) j = Some d" for j d
    using that mine asked_append [of h j d "[Cmd c b]"] inv by (auto simp: conn_inv_def split: if_splits)
  moreover have "\<exists>j. Message j (Some p) \<in> set ?h \<and> asked ?h j d" if "(d, Inr p) \<in> set (cn_replies ?s)" for d p
    using that asked_append [of h _ d "[Cmd c b]"] inv by (fastforce simp: conn_inv_def)
  ultimately show ?thesis using inv by (simp add: conn_inv_def)
qed

text \<open>A command the stream refuses is answered at once: as if it had been queued and answered.\<close>

lemma refused_inv:
  assumes inv: "conn_inv h s" and room: "length (commands h) + 1 < 2 ^ 64"
  shows "conn_inv (h @ [Cmd c b]) (s\<lparr> cn_next_id := cn_next_id s + 1,
      cn_replies := cn_replies s @ [(c, Inl e)] \<rparr>)"
proof -
  let ?s = "s\<lparr> cn_next_id := cn_next_id s + 1, cn_pending := tab_insert (cn_next_id s) c (cn_pending s) \<rparr>"
  have ok: "tab_ok (cn_pending s)" using inv by (simp add: conn_inv_def)
  have "conn_inv (h @ [Cmd c b]) ?s" using command_inv [OF assms] .
  then show ?thesis
    using mset_tab_remove [of "cn_pending ?s" "cn_next_id s" c] ok asked_append [of h _ _ "[Cmd c b]"] inv
    by (auto simp: conn_inv_def answered_def waiting_def)
qed

lemma serve_step_inv:
  assumes inv: "conn_inv h s" and room: "length (commands h) + 1 < 2 ^ 64" and st: "serve_step ev s = (s', stop)"
  shows "conn_inv (h @ [ev]) s' \<and> (stop = Some Reconnect \<longrightarrow> waiting s' = {#})"
proof (cases ev)
  case (Cmd c sent)
  then show ?thesis
    using st command_inv [OF inv room, of c sent] fail_all_inv [OF refused_inv [OF inv room, of c sent]]
    by (auto simp: serve_step_def Let_def split: if_splits)
next
  case (Message i p)
  then show ?thesis using st route_inv [OF inv] by (auto simp: serve_step_def)
next
  case IndexerTakes
  then show ?thesis
    using st conn_inv_notifs [OF conn_inv_more [OF inv, of "[ev]"]] by (auto simp: serve_step_def)
qed (use st fail_all_inv [OF conn_inv_more [OF inv, of "[ev]"]] conn_inv_more [OF inv, of "[ev]"]
     in \<open>auto simp: serve_step_def\<close>)

lemma serve_loop_inv:
  assumes "conn_inv h s" "length (commands (h @ evs)) + 1 < 2 ^ 64" "serve_loop evs s = (s', stop, rest)"
  shows "\<exists>g. evs = g @ rest \<and> conn_inv (h @ g) s' \<and> (stop = Some Reconnect \<longrightarrow> waiting s' = {#})"
  using assms
proof (induction evs arbitrary: h s)
  case Nil
  then show ?case by simp
next
  case (Cons ev evs)
  obtain s1 st where s1: "serve_step ev s = (s1, st)" by (cases "serve_step ev s")
  have inv: "conn_inv (h @ [ev]) s1 \<and> (st = Some Reconnect \<longrightarrow> waiting s1 = {#})"
    using serve_step_inv [OF Cons.prems(1) _ s1] Cons.prems(2) by simp
  show ?case
  proof (cases st)
    case None
    then show ?thesis
      using Cons.IH [of "h @ [ev]" s1] inv Cons.prems(2,3) s1 by (fastforce intro: exI [of _ "ev # _"])
  next
    case (Some e)
    then show ?thesis using inv Cons.prems(3) s1 by (intro exI [of _ "[ev]"]) auto
  qed
qed

text \<open>
  Property C28. While a connection lasts, and with fewer than \<open>2 ^ 64 - 1\<close> commands on it,
  the callers answered and the callers still waiting are exactly the callers whose
  commands the loop took from the channel, each as often as it asked; when the loop asks
  for a reconnect nobody is left waiting, so every one of them has been answered exactly
  once.
\<close>

theorem serve_answers_once:
  assumes "length (commands evs) + 1 < 2 ^ 64" "serve_loop evs (serve_start queue generation) = (s, stop, rest)"
  shows "\<exists>taken. evs = taken @ rest \<and> answered s + waiting s = mset (commands taken)
    \<and> (stop = Some Reconnect \<longrightarrow> answered s = mset (commands taken) \<and> cn_pending s = [])"
proof -
  obtain g where g: "evs = g @ rest" "conn_inv g s" "stop = Some Reconnect \<longrightarrow> waiting s = {#}"
    using serve_loop_inv [OF conn_inv_start _ assms(2)] assms(1) by auto
  then show ?thesis by (intro exI [of _ g]) (auto simp: conn_inv_def waiting_def)
qed

theorem serve_answers_once_witness:
  "(let (s, stop, rest) =
      serve_loop [Cmd (7::nat) True, Cmd 8 True, Message 2 None, StreamEnd, Cmd 9 True]
        (serve_start None 1 :: (nat, unit) conn)
    in stop = Some Reconnect \<and> rest = [Cmd 9 True] \<and> answered s = {#7, 8#})"
proof -
  let ?evs = "[Cmd (7::nat) True, Cmd 8 True, Message 2 None, StreamEnd, Cmd 9 True]"
  obtain s stop rest where r: "serve_loop ?evs (serve_start None 1 :: (nat, unit) conn) = (s, stop, rest)"
    by (metis prod_cases3)
  have stop: "stop = Some Reconnect \<and> rest = [Cmd 9 True]"
    using r by (simp add: serve_step_def serve_start_def Let_def route_def forward_def)
  obtain taken where "?evs = taken @ rest" "stop = Some Reconnect \<longrightarrow> answered s = mset (commands taken)"
    using serve_answers_once [OF _ r] by auto
  moreover have "taken = [Cmd 7 True, Cmd 8 True, Message 2 None, StreamEnd]"
    using calculation(1) stop append_same_eq [of "[Cmd 7 True, Cmd 8 True, Message 2 None, StreamEnd]" rest taken] by simp
  ultimately show ?thesis using r stop by simp
qed

text \<open>
  Property C29. An answer reaches the caller that asked for it: a caller is handed a payload
  only if the node sent that payload under the id of a command of this very caller (the
  \<open>i\<close>th command of the connection has id \<open>i\<close>).
\<close>

theorem serve_answers_the_asker:
  assumes "length (commands evs) + 1 < 2 ^ 64" "serve_loop evs (serve_start queue generation) = (s, stop, rest)"
    and "(c, Inr payload) \<in> set (cn_replies s)"
  shows "\<exists>i. Message i (Some payload) \<in> set evs \<and> 0 < unat i \<and> unat i \<le> length (commands evs)
    \<and> commands evs ! (unat i - 1) = c"
proof -
  obtain g where g: "evs = g @ rest" "conn_inv g s"
    using serve_loop_inv [OF conn_inv_start _ assms(2)] assms(1) by auto
  then obtain i where "Message i (Some payload) \<in> set g" "asked g i c"
    using assms(3) unfolding conn_inv_def by metis
  then show ?thesis using g(1) asked_append [of g i c rest] by (intro exI [of _ i]) (auto simp: asked_def)
qed

theorem serve_answers_the_asker_witness:
  "commands [Cmd (7::nat) True, Cmd 8 True,
     Message 2 (Some (Response \<lparr> an_variant = ''R'', an_error = None, an_body = () \<rparr>))] ! (unat (2::u64) - 1) = 8"
proof -
  let ?p = "Response \<lparr> an_variant = ''R'', an_error = None, an_body = () \<rparr>"
  let ?evs = "[Cmd (7::nat) True, Cmd 8 True, Message 2 (Some ?p)]"
  obtain s stop rest where r: "serve_loop ?evs (serve_start None 1) = (s, stop, rest)"
    by (metis prod_cases3)
  have "(8, Inr ?p) \<in> set (cn_replies s)"
    using r by (auto simp: serve_step_def serve_start_def Let_def route_def forward_def tab_get_def)
  then obtain i where "Message i (Some ?p) \<in> set ?evs" "commands ?evs ! (unat i - 1) = 8"
    using serve_answers_the_asker [OF _ r, of 8 ?p] by auto
  then show ?thesis by auto
qed

section \<open>The actor keeps its bounds\<close>

definition actor_inv :: "('c, 'b) actor_state \<Rightarrow> bool" where
  "actor_inv a = (1 \<le> at_backoff a \<and> at_backoff a \<le> RECONNECT_MAX
     \<and> (\<forall>q. at_notifs a = Some q \<longrightarrow> length q \<le> NOTIF_QUEUE))"

definition queue_ok :: "Notification list option \<Rightarrow> bool" where
  "queue_ok queue = (\<forall>q. queue = Some q \<longrightarrow> length q \<le> NOTIF_QUEUE)"

lemma forward_ok: "queue_ok q \<Longrightarrow> queue_ok (forward n q)"
  by (auto simp: forward_def queue_ok_def split: option.splits)

lemma serve_step_queue: "queue_ok (cn_notifs s) \<Longrightarrow> queue_ok (cn_notifs (fst (serve_step ev s)))"
  by (cases ev) (auto simp: serve_step_def route_def fail_all_def Let_def forward_ok
      queue_ok_def [of "map_option tl q" for q] split: option.split Payload.split,
      auto simp: queue_ok_def)

lemma serve_loop_queue: "queue_ok (cn_notifs s) \<Longrightarrow> queue_ok (cn_notifs (fst (serve_loop evs s)))"
proof (induction evs arbitrary: s)
  case (Cons ev evs)
  then show ?case using serve_step_queue [OF Cons.prems, of ev] by (auto split: prod.split option.split)
qed simp

lemma actor_step_inv: "actor_inv a \<Longrightarrow> actor_inv (fst (actor_step att a))"
proof (cases att)
  case (ConnectOk opened evs)
  assume a: "actor_inv a"
  have "queue_ok (cn_notifs (fst (serve_loop evs (serve_start (at_notifs a) (at_generation a + 1)))))"
    using a by (intro serve_loop_queue) (simp add: serve_start_def forward_ok actor_inv_def queue_ok_def [symmetric])
  then show ?thesis
    using a ConnectOk
    by (auto simp: actor_step_def actor_inv_def RECONNECT_MAX_def queue_ok_def Let_def split: prod.split)
qed (auto simp: actor_step_def actor_inv_def next_backoff_def RECONNECT_MAX_def)

interpretation actor: invariant_system "\<lambda>a. \<exists>queue. a = actor_init queue \<and> queue_ok queue"
  "\<lambda>a a'. \<exists>att. a' = fst (actor_step att a)" actor_inv
proof unfold_locales
  show "actor_inv a" if "\<exists>queue. a = actor_init queue \<and> queue_ok queue" for a
    using that by (auto simp: actor_init_def actor_inv_def RECONNECT_MAX_def queue_ok_def)
next
  show "actor_inv a'" if "actor_inv a" "\<exists>att. a' = fst (actor_step att a)" for a a'
    using that actor_step_inv by blast
qed

lemma actor_steps: "(\<lambda>a a'. \<exists>att. a' = fst (actor_step att a))\<^sup>*\<^sup>* a (actor atts a)"
proof (induction atts arbitrary: a)
  case (Cons att atts)
  obtain a' stop where st: "actor_step att a = (a', stop)" by (cases "actor_step att a")
  have one: "\<exists>att. a' = fst (actor_step att a)" using st by (metis fst_conv)
  have "actor (att # atts) a = a' \<or> actor (att # atts) a = actor atts a'"
    using st by (auto split: option.split ending.split)
  then show ?case
    using one Cons.IH [of a'] by (metis (mono_tags, lifting) converse_rtranclp_into_rtranclp r_into_rtranclp)
qed simp

lemma serve_loop_indexed: "cn_notifs s \<noteq> None \<Longrightarrow> cn_notifs (fst (serve_loop evs s)) \<noteq> None"
proof (induction evs arbitrary: s)
  case (Cons ev evs)
  have "cn_notifs (fst (serve_step ev s)) \<noteq> None"
    using Cons.prems
    by (cases ev) (auto simp: serve_step_def route_def fail_all_def forward_def Let_def split: option.split Payload.split)
  then show ?case using Cons.IH by (auto split: prod.split option.split)
qed simp

lemma actor_indexed: "at_notifs a \<noteq> None \<Longrightarrow> at_notifs (actor atts a) \<noteq> None"
proof (induction atts arbitrary: a)
  case (Cons att atts)
  have "at_notifs (fst (actor_step att a)) \<noteq> None"
  proof (cases att)
    case (ConnectOk opened evs)
    have "cn_notifs (fst (serve_loop evs (serve_start (at_notifs a) (at_generation a + 1)))) \<noteq> None"
      using Cons.prems by (intro serve_loop_indexed) (auto simp: serve_start_def forward_def)
    then show ?thesis using Cons.prems ConnectOk by (auto simp: actor_step_def Let_def split: prod.split)
  qed (use Cons.prems in \<open>simp add: actor_step_def\<close>)
  then show ?case using Cons.IH by (auto split: prod.split option.split ending.split)
qed simp

text \<open>
  Over any sequence of connection attempts the pause before the next attempt
  stays between one second and \<open>RECONNECT_MAX\<close>, and the indexer's queue never holds more
  than \<open>NOTIF_QUEUE\<close> notifications.
\<close>

theorem actor_bounds:
  "1 \<le> at_backoff (actor atts (actor_init (Some [])))
   \<and> at_backoff (actor atts (actor_init (Some []))) \<le> RECONNECT_MAX
   \<and> (case at_notifs (actor atts (actor_init (Some []))) of None \<Rightarrow> False | Some q \<Rightarrow> length q \<le> NOTIF_QUEUE)"
proof -
  let ?a = "actor atts (actor_init (Some []))"
  have "actor_inv ?a"
    by (rule actor.reach_inv [OF actor_steps]) (auto simp: queue_ok_def)
  moreover have "at_notifs ?a \<noteq> None"
    by (rule actor_indexed) (simp add: actor_init_def)
  ultimately show ?thesis by (auto simp: actor_inv_def)
qed

end
