(* ===== verification/Json.thy ===== *)
theory Json
  imports RustText
begin

text \<open>
  JSON values as the handlers build them with \<open>json!\<close>: objects keep the members in the
  order written. Decimal rendering of integers (\<open>to_string\<close>) with its round trip.
\<close>

datatype json = JNull | JBool bool | JNum int | JStr string | JArr "json list" | JObj "(string \<times> json) list"

definition json_u64 :: "u64 \<Rightarrow> json" where
  "json_u64 w = JNum (uint w)"

definition json_u32 :: "u32 \<Rightarrow> json" where
  "json_u32 w = JNum (uint w)"

definition json_opt :: "('a \<Rightarrow> json) \<Rightarrow> 'a option \<Rightarrow> json" where
  "json_opt f r = (case r of None \<Rightarrow> JNull | Some x \<Rightarrow> f x)"

fun json_get :: "json \<Rightarrow> string \<Rightarrow> json option" where
  "json_get (JObj members) k = map_of members k"
| "json_get _ k = None"

section \<open>Decimals\<close>

definition digit_char :: "nat \<Rightarrow> char" where
  "digit_char n = char_of (48 + n)"

fun show_nat :: "nat \<Rightarrow> string" where
  "show_nat n = (if n < 10 then [digit_char n] else show_nat (n div 10) @ [digit_char (n mod 10)])"

declare show_nat.simps [simp del]

definition show_u64 :: "u64 \<Rightarrow> string" where
  "show_u64 w = show_nat (unat w)"

lemma all_less_10: "(\<forall>n<10. P n) \<longleftrightarrow> list_all P [0..<10]" for P :: "nat \<Rightarrow> bool"
  by (auto simp: list_all_iff)

lemma digit_char_props: "n < 10 \<Longrightarrow> is_ascii_digit (digit_char n) \<and> digit_val (digit_char n) = n"
proof -
  have "\<forall>n<10. is_ascii_digit (digit_char n) \<and> digit_val (digit_char n) = n"
    unfolding all_less_10 by code_simp
  then show "n < 10 \<Longrightarrow> ?thesis" by simp
qed

lemma nat_of_digits_append: "nat_of_digits (s @ [c]) = 10 * nat_of_digits s + digit_val c"
  by (simp add: nat_of_digits_def)

lemma show_nat_digits:
  "list_all is_ascii_digit (show_nat n) \<and> nat_of_digits (show_nat n) = n \<and> show_nat n \<noteq> []"
proof (induction n rule: show_nat.induct)
  case (1 n)
  show ?case
  proof (cases "n < 10")
    case True
    then show ?thesis
      using digit_char_props [OF True] by (subst (1 2 3) show_nat.simps) (simp add: nat_of_digits_def)
  next
    case False
    have "show_nat n = show_nat (n div 10) @ [digit_char (n mod 10)]"
      using False by (subst show_nat.simps) simp
    then show ?thesis
      using 1 False digit_char_props [of "n mod 10"] by (simp add: nat_of_digits_append)
  qed
qed

lemma digit_not_plus: "is_ascii_digit c \<Longrightarrow> c \<noteq> CHR ''+''"
  by (auto simp: is_ascii_digit_def)

lemma parse_show_u64: "parse_u64 (show_u64 w) = Some w"
proof -
  have d: "list_all is_ascii_digit (show_u64 w)" "nat_of_digits (show_u64 w) = unat w" "show_u64 w \<noteq> []"
    using show_nat_digits [of "unat w"] by (simp_all add: show_u64_def)
  obtain c r where cr: "show_u64 w = c # r" using d(3) by (cases "show_u64 w") auto
  have "c \<noteq> CHR ''+''" using d(1) cr digit_not_plus by auto
  then show ?thesis
    using d cr unsigned_less [of w, where ?'a = nat] by (simp add: parse_u64_def)
qed

lemma show_u64_inject [simp]: "show_u64 v = show_u64 w \<longleftrightarrow> v = w"
  using parse_show_u64 by (metis option.inject)

end
