(* ===== verification/HttpError.thy ===== *)
theory HttpError
  imports NodeClient Json
begin

text \<open>
  \<open>src/error.rs\<close>: the errors of the endpoints and the responses they become. A handler
  either answers, fails with such an error, or panics (which drops the connection).
\<close>

datatype ApiError =
  BadRequest string
| NotFound string
| Unavailable string
| Upstream string
| Internal string
| Node NodeError

datatype 'a outcome = Done 'a | Failed ApiError | Crashed

definition store_error_text :: "StoreError \<Rightarrow> string" where
  "store_error_text e = (case e of Db m \<Rightarrow> ''index db: '' @ m | Decode m \<Rightarrow> ''index decode: '' @ m)"

definition of_store_error :: "StoreError \<Rightarrow> ApiError" where
  "of_store_error e = Internal (store_error_text e)"

definition of_node_error :: "NodeError \<Rightarrow> ApiError" where
  "of_node_error e = Node e"

text \<open>\<open>?\<close> in a handler: on a result of the store, of the node, of another fallible step.\<close>

definition on_store :: "'a res \<Rightarrow> ('a \<Rightarrow> 'b outcome) \<Rightarrow> 'b outcome" where
  "on_store r f = (case r of Inl Panic \<Rightarrow> Crashed | Inl (Err e) \<Rightarrow> Failed (of_store_error e) | Inr x \<Rightarrow> f x)"

definition on_node :: "NodeError + 'a \<Rightarrow> ('a \<Rightarrow> 'b outcome) \<Rightarrow> 'b outcome" where
  "on_node r f = (case r of Inl e \<Rightarrow> Failed (of_node_error e) | Inr x \<Rightarrow> f x)"

definition on_check :: "string + unit \<Rightarrow> 'b outcome \<Rightarrow> 'b outcome" where
  "on_check r x = (case r of Inl m \<Rightarrow> Failed (BadRequest m) | Inr _ \<Rightarrow> x)"

definition error_status :: "ApiError \<Rightarrow> nat \<times> string" where
  "error_status err =
     (case err of
        BadRequest m \<Rightarrow> (400, m)
      | NotFound m \<Rightarrow> (404, m)
      | Unavailable m \<Rightarrow> (503, m)
      | Upstream m \<Rightarrow> (502, m)
      | Internal m \<Rightarrow> (500, m)
      | Node (Rpc m) \<Rightarrow> (400, m)
      | Node Timeout \<Rightarrow> (504, ''keryx node request timed out'')
      | Node (Unreachable m) \<Rightarrow> (503, m)
      | Node (Protocol m) \<Rightarrow> (502, m))"

definition into_response :: "ApiError \<Rightarrow> nat \<times> json" where
  "into_response err = (let (status, message) = error_status err in (status, JObj [(''error'', JStr message)]))"

lemma on_simps [simp]:
  "on_store (Inr x) f = f x" "on_store (Inl (Err e)) f = Failed (of_store_error e)" "on_store (Inl Panic) f = Crashed"
  "on_node (Inr y) g = g y" "on_node (Inl ne) g = Failed (of_node_error ne)"
  "on_check (Inr ()) x' = x'" "on_check (Inl m) x' = Failed (BadRequest m)"
  by (simp_all add: on_store_def on_node_def on_check_def)

text \<open>
  Every error leaves as the wallet expects it: an object with the single member
  \<open>error\<close> and a status of the 4xx or 5xx range; the status is a client error exactly for a
  bad request, a missing resource or a request the node itself rejected, and a failure of
  the node's connection never looks like one.
\<close>

theorem error_responses:
  "(\<exists>m. snd (into_response err) = JObj [(''error'', JStr m)])
   \<and> 400 \<le> fst (into_response err) \<and> fst (into_response err) < 600
   \<and> (fst (into_response err) < 500 \<longleftrightarrow>
        (\<exists>m. err = BadRequest m \<or> err = NotFound m \<or> err = Node (Rpc m)))"
  by (cases err) (auto simp: into_response_def error_status_def split: NodeError.split)

end
