(* ===== verification/Dto.thy ===== *)
theory Dto
  imports HttpError StoreLedger
begin

text \<open>
  \<open>src/api/dto.rs\<close>: the wire shapes of the wallet, what \<open>serde\<close> accepts for them, the
  checks of a broadcast, and the conversions from and to the node's messages. JSON numbers
  with a fraction or an exponent are not represented: no field accepts them.
\<close>

section \<open>Deserialisation\<close>

definition flex_u64 :: "json \<Rightarrow> u64 option" where
  "flex_u64 j =
     (case j of
        JNum n \<Rightarrow> if 0 \<le> n \<and> n < 2 ^ 64 then Some (word_of_int n) else None
      | JStr s \<Rightarrow> parse_u64 (trim s)
      | _ \<Rightarrow> None)"

definition de_u32 :: "json \<Rightarrow> u32 option" where
  "de_u32 j = (case j of JNum n \<Rightarrow> if 0 \<le> n \<and> n < 2 ^ 32 then Some (word_of_int n) else None | _ \<Rightarrow> None)"

definition de_string :: "json \<Rightarrow> string option" where
  "de_string j = (case j of JStr s \<Rightarrow> Some s | _ \<Rightarrow> None)"

definition de_vec :: "(json \<Rightarrow> 'a option) \<Rightarrow> json \<Rightarrow> 'a list option" where
  "de_vec f j = (case j of JArr js \<Rightarrow> those (map f js) | _ \<Rightarrow> None)"

text \<open>
  The fields of a struct: an object by name, where a known field given twice is an error and
  unknown ones are ignored, or an array by position, where a surplus element is an error.
\<close>

definition struct_fields :: "string list \<Rightarrow> json \<Rightarrow> (string \<Rightarrow> json option) option" where
  "struct_fields names j =
     (case j of
        JObj members \<Rightarrow>
          if distinct (filter (\<lambda>k. k \<in> set names) (map fst members)) then Some (map_of members) else None
      | JArr js \<Rightarrow> if length js \<le> length names then Some (map_of (zip names js)) else None
      | _ \<Rightarrow> None)"

definition required :: "(json \<Rightarrow> 'a option) \<Rightarrow> (string \<Rightarrow> json option) \<Rightarrow> string \<Rightarrow> 'a option" where
  "required de f name = (case f name of None \<Rightarrow> None | Some j \<Rightarrow> de j)"

definition defaulted :: "'a \<Rightarrow> (json \<Rightarrow> 'a option) \<Rightarrow> (string \<Rightarrow> json option) \<Rightarrow> string \<Rightarrow> 'a option" where
  "defaulted x de f name = (case f name of None \<Rightarrow> Some x | Some j \<Rightarrow> de j)"

section \<open>Broadcast requests\<close>

record TxInputJson =
  ij_transaction_id :: string
  ij_index :: u32
  ij_signature_script :: string
  ij_sequence :: u64
  ij_sig_op_count :: u32

record TxOutputJson =
  oj_amount :: u64
  oj_script_version :: u32
  oj_script_public_key :: string

record TxJson =
  tj_version :: u32
  tj_inputs :: "TxInputJson list"
  tj_outputs :: "TxOutputJson list"
  tj_lock_time :: u64
  tj_subnetwork_id :: string
  tj_gas :: u64
  tj_payload :: string
  tj_mass :: u64

definition native_subnetwork :: string where
  "native_subnetwork = ''0000000000000000000000000000000000000000''"

definition one_sig_op :: u32 where
  "one_sig_op = 1"

definition de_input :: "json \<Rightarrow> TxInputJson option" where
  "de_input j =
     Option.bind (struct_fields
         [''transaction_id'', ''index'', ''signature_script'', ''sequence'', ''sig_op_count''] j) (\<lambda>f.
     Option.bind (required de_string f ''transaction_id'') (\<lambda>txid.
     Option.bind (required de_u32 f ''index'') (\<lambda>index.
     Option.bind (required de_string f ''signature_script'') (\<lambda>script.
     Option.bind (required flex_u64 f ''sequence'') (\<lambda>seq.
     Option.bind (defaulted one_sig_op de_u32 f ''sig_op_count'') (\<lambda>ops.
       Some \<lparr> ij_transaction_id = txid, ij_index = index, ij_signature_script = script,
              ij_sequence = seq, ij_sig_op_count = ops \<rparr>))))))"

definition de_output :: "json \<Rightarrow> TxOutputJson option" where
  "de_output j =
     Option.bind (struct_fields [''amount'', ''script_version'', ''script_public_key''] j) (\<lambda>f.
     Option.bind (required flex_u64 f ''amount'') (\<lambda>amount.
     Option.bind (defaulted 0 de_u32 f ''script_version'') (\<lambda>version.
     Option.bind (required de_string f ''script_public_key'') (\<lambda>script.
       Some \<lparr> oj_amount = amount, oj_script_version = version, oj_script_public_key = script \<rparr>))))"

definition de_tx :: "json \<Rightarrow> TxJson option" where
  "de_tx j =
     Option.bind (struct_fields
         [''version'', ''inputs'', ''outputs'', ''lock_time'', ''subnetwork_id'', ''gas'', ''payload'', ''mass''] j) (\<lambda>f.
     Option.bind (defaulted 0 de_u32 f ''version'') (\<lambda>version.
     Option.bind (required (de_vec de_input) f ''inputs'') (\<lambda>inputs.
     Option.bind (defaulted [] (de_vec de_output) f ''outputs'') (\<lambda>outputs.
     Option.bind (defaulted 0 flex_u64 f ''lock_time'') (\<lambda>lock_time.
     Option.bind (defaulted native_subnetwork de_string f ''subnetwork_id'') (\<lambda>subnetwork.
     Option.bind (defaulted 0 flex_u64 f ''gas'') (\<lambda>gas.
     Option.bind (defaulted [] de_string f ''payload'') (\<lambda>payload.
     Option.bind (defaulted 0 flex_u64 f ''mass'') (\<lambda>mass.
       Some \<lparr> tj_version = version, tj_inputs = inputs, tj_outputs = outputs, tj_lock_time = lock_time,
              tj_subnetwork_id = subnetwork, tj_gas = gas, tj_payload = payload, tj_mass = mass \<rparr>)))))))))"

definition is_hex :: "string \<Rightarrow> bool" where
  "is_hex s = (length s mod 2 = 0 \<and> list_all is_ascii_hexdigit s)"

fun check_inputs :: "nat \<Rightarrow> TxInputJson list \<Rightarrow> string + unit" where
  "check_inputs i [] = Inr ()"
| "check_inputs i (inp # inputs) =
     (if length (ij_transaction_id inp) \<noteq> 64 \<or> \<not> is_hex (ij_transaction_id inp)
      then Inl (''input '' @ show_nat i @ '': transaction_id must be 64 hex chars'')
      else if \<not> is_hex (ij_signature_script inp)
      then Inl (''input '' @ show_nat i @ '': signature_script must be hex'')
      else check_inputs (Suc i) inputs)"

fun check_outputs :: "nat \<Rightarrow> TxOutputJson list \<Rightarrow> string + unit" where
  "check_outputs i [] = Inr ()"
| "check_outputs i (out # outputs) =
     (if oj_script_public_key out = [] \<or> \<not> is_hex (oj_script_public_key out)
      then Inl (''output '' @ show_nat i @ '': script_public_key must be non-empty hex'')
      else check_outputs (Suc i) outputs)"

definition validate :: "TxJson \<Rightarrow> string + unit" where
  "validate tx =
     (if tj_inputs tx = [] then Inl ''transaction has no inputs''
      else if length (tj_subnetwork_id tx) \<noteq> 40 \<or> \<not> is_hex (tj_subnetwork_id tx)
      then Inl ''subnetwork_id must be 40 hex chars''
      else if \<not> is_hex (tj_payload tx) then Inl ''payload must be hex''
      else
        (case check_inputs 0 (tj_inputs tx) of
           Inl m \<Rightarrow> Inl m
         | Inr _ \<Rightarrow> check_outputs 0 (tj_outputs tx)))"

text \<open>The node's transaction message has a mass besides the fields the indexer reads.\<close>

record RpcTransactionMsg = RpcTransaction +
  tx_mass :: u64

definition input_proto :: "TxInputJson \<Rightarrow> RpcTransactionInput" where
  "input_proto inp =
     \<lparr> ti_previous_outpoint =
         Some \<lparr> ou_transaction_id = ij_transaction_id inp, ou_index = ij_index inp \<rparr>,
       ti_signature_script = ij_signature_script inp, ti_sequence = ij_sequence inp,
       ti_sig_op_count = ij_sig_op_count inp \<rparr>"

definition output_proto :: "TxOutputJson \<Rightarrow> RpcTransactionOutput" where
  "output_proto out =
     \<lparr> to_amount = oj_amount out,
       to_script_public_key =
         Some \<lparr> sp_version = oj_script_version out, sp_script_public_key = oj_script_public_key out \<rparr> \<rparr>"

definition into_proto :: "TxJson \<Rightarrow> RpcTransactionMsg" where
  "into_proto tx =
     \<lparr> tx_version = tj_version tx, tx_inputs = map input_proto (tj_inputs tx),
       tx_outputs = map output_proto (tj_outputs tx), tx_lock_time = tj_lock_time tx,
       tx_subnetwork_id = tj_subnetwork_id tx, tx_gas = tj_gas tx, tx_payload = tj_payload tx,
       tx_verbose_id = None, tx_mass = tj_mass tx \<rparr>"

section \<open>Answers of the node\<close>

record RpcUtxoEntry =
  ue_amount :: u64
  ue_script_public_key :: "RpcScriptPublicKey option"
  ue_block_daa_score :: u64
  ue_is_coinbase :: bool

record RpcUtxosByAddressesEntry =
  ub_outpoint :: "RpcOutpoint option"
  ub_utxo_entry :: "RpcUtxoEntry option"

record UtxoDto =
  ud_transaction_id :: string
  ud_index :: u32
  ud_amount_sompi :: u64
  ud_script_version :: u32
  ud_script_public_key :: string
  ud_block_daa_score :: u64
  ud_is_coinbase :: bool

definition utxo_dto :: "RpcUtxosByAddressesEntry \<Rightarrow> UtxoDto option" where
  "utxo_dto entry =
     (case (ub_outpoint entry, ub_utxo_entry entry) of
        (Some outpoint, Some utxo) \<Rightarrow>
          (let spk = unwrap_or spk_default (ue_script_public_key utxo)
           in Some \<lparr> ud_transaction_id = ou_transaction_id outpoint, ud_index = ou_index outpoint,
                     ud_amount_sompi = ue_amount utxo, ud_script_version = sp_version spk,
                     ud_script_public_key = sp_script_public_key spk,
                     ud_block_daa_score = ue_block_daa_score utxo, ud_is_coinbase = ue_is_coinbase utxo \<rparr>)
      | _ \<Rightarrow> None)"

record HistoryTx =
  ht_tx_id :: string
  ht_amount_sompi :: u64
  ht_is_spend :: bool
  ht_daa_score :: u64
  ht_block_hash :: string
  ht_address :: string
  ht_pending :: bool

record AddressHistoryResponse =
  ar_address :: string
  ar_total_received_sompi :: u64
  ar_total_tx_count :: u64
  ar_transactions :: "HistoryTx list"
  ar_history_since_daa :: "u64 option"

section \<open>Addresses\<close>

definition ADDRESS_PREFIXES :: "string list" where
  "ADDRESS_PREFIXES = [''keryx'', ''keryxtest'', ''keryxsim'', ''keryxdev'']"

definition BECH32_CHARSET :: string where
  "BECH32_CHARSET = ''qpzry9x8gf2tvdw0s3jn54khce6mua7l''"

text \<open>\<open>debug\<close> is the \<open>{:?}\<close> rendering of a string (quoted, with Unicode escapes).\<close>

definition validate_address :: "(string \<Rightarrow> string) \<Rightarrow> string \<Rightarrow> string + unit" where
  "validate_address debug address =
     (case split_once (CHR '':'') address of
        None \<Rightarrow> Inl ''invalid address: expected <prefix>:<payload>''
      | Some (prefix, payload) \<Rightarrow>
          if prefix \<notin> set ADDRESS_PREFIXES then Inl (''invalid address prefix '' @ debug prefix)
          else if payload = [] \<or> \<not> list_all (\<lambda>c. c \<in> set BECH32_CHARSET) payload
          then Inl ''invalid address payload''
          else Inr ())"

section \<open>Addresses of the index are addresses of the interface\<close>

lemma split_once_append: "sep \<notin> set a \<Longrightarrow> split_once sep (a @ sep # b) = Some (a, b)"
  by (induction a) auto

lemma prefix_for_network_listed: "prefix_for_network net \<in> set ADDRESS_PREFIXES"
  by (simp add: prefix_for_network_def ADDRESS_PREFIXES_def Let_def)

lemma charset_same: "set CHARSET = set BECH32_CHARSET"
  by (simp add: CHARSET_def BECH32_CHARSET_def)

text \<open>
  Property C38. The index and the interface agree on what an address is: every address the
  indexer attributes an output to, on any network, passes the check of the address
  endpoints, so its history can be asked for.
\<close>

theorem attributed_addresses_valid:
  assumes "script_to_address script (prefix_for_network net) = Inr (Some a)"
  shows "validate_address debug a = Inr ()"
proof -
  let ?p = "prefix_for_network net"
  obtain v p where "a = encode_address v p ?p"
    using assms script_address_Some by (fastforce simp: script_to_address_def split: sum.splits option.splits)
  then obtain body where a: "a = ?p @ CHR '':'' # body" "body \<noteq> []" "set body \<subseteq> set CHARSET"
    using encode_address_chars by metis
  have "CHR '':'' \<notin> set ?p" by (simp add: prefix_for_network_def Let_def)
  then have "split_once (CHR '':'') a = Some (?p, body)" using a(1) split_once_append by metis
  then show ?thesis
    using a(2,3) prefix_for_network_listed [of net] by (auto simp: validate_address_def list_all_iff charset_same)
qed

theorem attributed_addresses_valid_witness: "validate_address (\<lambda>s. s) sample_address = Inr ()"
proof -
  have "prefix_for_network [] = ''keryxsim''" by code_simp
  with sample_script show ?thesis using attributed_addresses_valid [of sample_spk "[]"] by simp
qed

section \<open>Broadcast checks\<close>

definition input_shape :: "TxInputJson \<Rightarrow> bool" where
  "input_shape inp = (length (ij_transaction_id inp) = 64 \<and> is_hex (ij_transaction_id inp) \<and> is_hex (ij_signature_script inp))"

definition output_shape :: "TxOutputJson \<Rightarrow> bool" where
  "output_shape out = (oj_script_public_key out \<noteq> [] \<and> is_hex (oj_script_public_key out))"

lemma check_inputs_ok: "check_inputs i inputs = Inr () \<longleftrightarrow> list_all input_shape inputs"
  by (induction i inputs rule: check_inputs.induct) (auto simp: input_shape_def)

lemma check_outputs_ok: "check_outputs i outputs = Inr () \<longleftrightarrow> list_all output_shape outputs"
  by (induction i outputs rule: check_outputs.induct) (auto simp: output_shape_def)

lemma validate_ok:
  "validate tx = Inr () \<longleftrightarrow>
     tj_inputs tx \<noteq> [] \<and> length (tj_subnetwork_id tx) = 40 \<and> is_hex (tj_subnetwork_id tx) \<and> is_hex (tj_payload tx)
     \<and> list_all input_shape (tj_inputs tx) \<and> list_all output_shape (tj_outputs tx)"
  using check_inputs_ok [of 0 "tj_inputs tx"] check_outputs_ok [of 0 "tj_outputs tx"]
  by (auto simp: validate_def split: sum.split)

lemma is_hex_ascii: "is_hex s \<Longrightarrow> is_ascii_str s"
proof -
  have "is_ascii_hexdigit c \<Longrightarrow> u8_of_char c < 0x80" for c
    by (auto simp: is_ascii_hexdigit_def is_ascii_digit_def u8_of_char_def word_less_nat_alt unat_of_nat
        less_eq_char_def)
  then show "is_hex s \<Longrightarrow> is_ascii_str s" by (auto simp: is_hex_def is_ascii_str_def list_all_iff)
qed

section \<open>Decimal strings\<close>

lemma white_space_not_digits:
  "list_all (\<lambda>w. w \<noteq> [] \<and> \<not> is_ascii_digit (hd w)) white_space"
  "list_all (\<lambda>w. w \<noteq> [] \<and> \<not> is_ascii_digit (hd w)) (map rev white_space)"
  by (code_simp, code_simp)

lemma strip_front_digits:
  assumes "list_all is_ascii_digit s" "list_all (\<lambda>w. w \<noteq> [] \<and> \<not> is_ascii_digit (hd w)) ws"
  shows "strip_front ws s = s"
proof -
  have "\<not> (w \<noteq> [] \<and> take (length w) s = w)" if "w \<in> set ws" for w
  proof
    assume w: "w \<noteq> [] \<and> take (length w) s = w"
    then have "hd w \<in> set s" by (metis hd_in_set in_set_takeD)
    then show False using assms that by (auto simp: list_all_iff)
  qed
  then have "find (\<lambda>w. w \<noteq> [] \<and> take (length w) s = w) ws = None" by (auto simp: find_None_iff)
  then show ?thesis by (simp add: strip_front.simps)
qed

lemma trim_digits: "list_all is_ascii_digit s \<Longrightarrow> trim s = s"
  by (simp add: trim_def strip_front_digits white_space_not_digits list_all_rev)

lemma flex_u64_show: "flex_u64 (JStr (show_u64 w)) = Some w"
  using show_nat_digits [of "unat w"] parse_show_u64 [of w]
  by (simp add: flex_u64_def show_u64_def trim_digits)

lemma flex_u64_num: "flex_u64 (json_u64 w) = Some w"
  using uint_bounded [of w] by (simp add: flex_u64_def json_u64_def)

lemma de_u32_num: "de_u32 (json_u32 w) = Some w"
  using uint_bounded [of w] by (simp add: de_u32_def json_u32_def)

end
