(* ===== verification/Cache.thy ===== *)
theory Cache
  imports Main
begin

text \<open>
  \<open>src/cache.rs\<close>: a cell that keeps a value for a time to live. Times are those of the
  monotonic clock, in milliseconds; \<open>now\<close> is the time of the lookup and \<open>later\<close> the time at
  which a freshly computed value is stored. \<open>Instant::elapsed\<close> saturates at zero, as
  subtraction on natural numbers does.
\<close>

record 't TtlCell =
  tc_ttl :: nat
  tc_slot :: "(nat \<times> 't) option"

definition cell_new :: "nat \<Rightarrow> 't TtlCell" where
  "cell_new ttl = \<lparr> tc_ttl = ttl, tc_slot = None \<rparr>"

definition fresh :: "nat \<Rightarrow> 't TtlCell \<Rightarrow> 't option" where
  "fresh now cell =
     (case tc_slot cell of
        Some (at, value) \<Rightarrow> if now - at < tc_ttl cell then Some value else None
      | None \<Rightarrow> None)"

definition cell_store :: "nat \<Rightarrow> 't \<Rightarrow> 't TtlCell \<Rightarrow> 't TtlCell" where
  "cell_store now value cell = cell\<lparr> tc_slot := Some (now, value) \<rparr>"

definition get_or_try_init :: "nat \<Rightarrow> nat \<Rightarrow> 'e + 't \<Rightarrow> 't TtlCell \<Rightarrow> ('e + 't) \<times> 't TtlCell" where
  "get_or_try_init now later init cell =
     (case fresh now cell of
        Some value \<Rightarrow> (Inr value, cell)
      | None \<Rightarrow>
          (case init of
             Inl e \<Rightarrow> (Inl e, cell)
           | Inr value \<Rightarrow> (Inr value, cell_store later value cell)))"

definition get_or_init :: "nat \<Rightarrow> nat \<Rightarrow> 't \<Rightarrow> 't TtlCell \<Rightarrow> 't \<times> 't TtlCell" where
  "get_or_init now later init cell =
     (case fresh now cell of
        Some value \<Rightarrow> (value, cell)
      | None \<Rightarrow> (init, cell_store later init cell))"

text \<open>The cells of the process, with their times to live.\<close>

record ('i, 'f, 'v) Caches =
  ca_info :: "'i TtlCell"
  ca_hashrate :: "'f TtlCell"
  ca_block_reward :: "'f TtlCell"
  ca_market :: "'v TtlCell"
  ca_node_version :: "string TtlCell"
  ca_ai_providers :: "'v TtlCell"

definition caches_default :: "('i, 'f, 'v) Caches" where
  "caches_default =
     \<lparr> ca_info = cell_new 2000, ca_hashrate = cell_new 30000, ca_block_reward = cell_new 30000,
       ca_market = cell_new 30000, ca_node_version = cell_new 30000, ca_ai_providers = cell_new 3000 \<rparr>"

section \<open>What a cell serves\<close>

text \<open>The answers of a cell to a sequence of requests, each with its times and what its \<open>init\<close> would give.\<close>

fun cell_answers :: "(nat \<times> nat \<times> ('e + 't)) list \<Rightarrow> 't TtlCell \<Rightarrow> ('e + 't) list" where
  "cell_answers [] cell = []"
| "cell_answers ((now, later, init) # reqs) cell =
     (let (r, cell) = get_or_try_init now later init cell in r # cell_answers reqs cell)"

text \<open>Every value in the slot comes from a request of the history.\<close>

definition slot_from :: "(nat \<times> nat \<times> ('e + 't)) list \<Rightarrow> 't TtlCell \<Rightarrow> bool" where
  "slot_from h cell = (\<forall>at v. tc_slot cell = Some (at, v) \<longrightarrow> (\<exists>now. (now, at, Inr v) \<in> set h))"

lemma get_or_try_init_cases:
  assumes "get_or_try_init now later init cell = (r, cell')" "slot_from h cell"
  shows "slot_from (h @ [(now, later, init)]) cell' \<and> tc_ttl cell' = tc_ttl cell
    \<and> (\<forall>e. r = Inl e \<longrightarrow> init = Inl e)
    \<and> (\<forall>v. r = Inr v \<longrightarrow> init = Inr v \<or> (\<exists>start at. (start, at, Inr v) \<in> set h \<and> now - at < tc_ttl cell))"
  using assms
  by (auto simp: get_or_try_init_def fresh_def cell_store_def slot_from_def split: option.splits sum.splits if_splits)

lemma cell_answers_from:
  assumes "slot_from h cell" "i < length reqs" "reqs ! i = (now, later, init)"
  shows "(\<forall>e. cell_answers reqs cell ! i = Inl e \<longrightarrow> init = Inl e)
    \<and> (\<forall>v. cell_answers reqs cell ! i = Inr v \<longrightarrow>
        init = Inr v \<or> (\<exists>start at. (start, at, Inr v) \<in> set (h @ take i reqs) \<and> now - at < tc_ttl cell))"
  using assms
proof (induction reqs arbitrary: h cell i)
  case (Cons req reqs)
  obtain n l q where req: "req = (n, l, q)" by (metis prod_cases3)
  obtain r c where c: "get_or_try_init n l q cell = (r, c)" by fastforce
  note this [THEN get_or_try_init_cases, OF Cons.prems(1)]
  with Cons.IH [of "h @ [req]" c "i - 1"] Cons.prems(2,3) req c show ?case
    by (cases i) simp_all
qed simp

text \<open>
  Property C40. What a cached endpoint serves: over any sequence of requests, a value is
  either what this request's own upstream call returned, or what an earlier request's call
  returned and the cell stored less than the time to live ago; and an error is always the
  error of this request's own call, so errors are never cached.
\<close>

theorem cache_serves_recent:
  assumes "i < length reqs" "reqs ! i = (now, later, init)"
  shows "(\<forall>e. cell_answers reqs (cell_new ttl) ! i = Inl e \<longrightarrow> init = Inl e)
    \<and> (\<forall>v. cell_answers reqs (cell_new ttl) ! i = Inr v \<longrightarrow>
        init = Inr v \<or> (\<exists>start at. (start, at, Inr v) \<in> set (take i reqs) \<and> now < at + ttl))"
proof -
  have "slot_from [] (cell_new ttl)" by (simp add: slot_from_def cell_new_def)
  from cell_answers_from [OF this assms] show ?thesis
    by (simp add: cell_new_def) (metis add.commute less_diff_conv2 linorder_not_less trans_less_add1)
qed

text \<open>Three requests within and after the time to live of 10; the last two calls fail.\<close>

definition cached_requests :: "(nat \<times> nat \<times> (string + nat)) list" where
  "cached_requests = [(0, 1, Inr 7), (5, 6, Inl ''down''), (20, 21, Inl ''gone'')]"

theorem cache_serves_recent_witness:
  "cell_answers cached_requests (cell_new 10) ! 1 = Inr 7
   \<and> (\<exists>start at. (start, at, cell_answers cached_requests (cell_new 10) ! 1) \<in> set (take 1 cached_requests) \<and> 5 < at + 10)
   \<and> cell_answers cached_requests (cell_new 10) ! 2 = Inl ''gone''"
proof -
  have answers: "cell_answers cached_requests (cell_new 10) ! 1 = Inr 7"
    "cell_answers cached_requests (cell_new 10) ! 2 = Inl ''gone''"
    by code_simp+
  have "1 < length cached_requests" "cached_requests ! 1 = (5, 6, Inl ''down'')" by (simp_all add: cached_requests_def)
  from cache_serves_recent [OF this, of 10] answers show ?thesis by simp
qed

end
