(* ===== verification/Mempool.thy ===== *)
theory Mempool
  imports StoreLedger Staging Json StoreRows
begin

text \<open>
  \<open>src/indexer/mempool.rs\<close>: the overlay of unconfirmed transactions. A snapshot of the
  node's mempool is indexed by spent outpoint and by address; each poll replaces it whole.
  The rows a snapshot shows are the ledgers of its transactions against the confirmed store.
\<close>

section \<open>The overlay\<close>

record PendingRow =
  pd_tx_id :: string
  pd_amount_sompi :: u64
  pd_is_spend :: bool

record Snapshot =
  sn_spends :: "(bytes, json) tab"
  sn_history :: "(string, PendingRow list) tab"
  sn_count :: nat

definition snapshot_empty :: Snapshot where
  "snapshot_empty = \<lparr> sn_spends = [], sn_history = [], sn_count = 0 \<rparr>"

definition mempool_outpoint_key :: "string \<Rightarrow> u32 \<Rightarrow> bytes" where
  "mempool_outpoint_key txid index = as_bytes txid @ [0xFF] @ be32 index"

definition mempool_spend_of :: "Snapshot \<Rightarrow> string \<Rightarrow> u32 \<Rightarrow> json option" where
  "mempool_spend_of sn txid index = tab_get (sn_spends sn) (mempool_outpoint_key txid index)"

definition mempool_history :: "Snapshot \<Rightarrow> string \<Rightarrow> PendingRow list" where
  "mempool_history sn address =
     (case tab_get (sn_history sn) address of None \<Rightarrow> [] | Some rows \<Rightarrow> rows)"

definition pending_count :: "Snapshot \<Rightarrow> nat" where
  "pending_count sn = sn_count sn"

section \<open>Rendering\<close>

definition render_pending_input :: "RawIn \<Rightarrow> json" where
  "render_pending_input i =
     JObj [(''transaction_id'', JStr (ri_previous_tx_id i)), (''index'', json_u32 (ri_previous_index i)),
           (''signature_script'', JStr (ri_signature_script i)),
           (''sequence'', JStr (show_u64 (ri_sequence i))),
           (''sig_op_count'', json_u32 (ri_sig_op_count i))]"

definition render_pending_output :: "RawOut \<Rightarrow> json" where
  "render_pending_output out =
     JObj [(''amount'', json_u64 (ro_amount out)), (''script_version'', json_u32 (ro_script_version out)),
           (''script_public_key'', JStr (ro_script_public_key out))]"

definition render_pending :: "RawTx \<Rightarrow> json" where
  "render_pending raw =
     JObj [(''tx_id'', JStr (rt_tx_id raw)), (''version'', json_u32 (rt_version raw)),
           (''inputs'', JArr (map render_pending_input (rt_inputs raw))),
           (''outputs'', JArr (map render_pending_output (rt_outputs raw))),
           (''lock_time'', json_u64 (rt_lock_time raw)),
           (''subnetwork_id'', JStr (rt_subnetwork_id raw)), (''gas'', json_u64 (rt_gas raw)),
           (''payload'', JStr (rt_payload raw)), (''block_hash'', JNull), (''daa_score'', JNum 0),
           (''is_coinbase'', JBool (rt_is_coinbase raw))]"

section \<open>Building a snapshot\<close>

text \<open>
  Inputs are resolved through the store's id lookup; \<open>if let Ok(Some(..))\<close> takes a failed
  lookup for an unknown transaction, and \<open>io\<close> tells which lookups fail.
\<close>

definition pending_debit ::
  "(string \<Rightarrow> StoreError option) \<Rightarrow> db \<Rightarrow> string \<Rightarrow> RawIn \<Rightarrow> (string \<times> u64 \<times> u64) list
     \<Rightarrow> (string \<times> u64 \<times> u64) list res" where
  "pending_debit io d prefix inp acc =
     (case tx_by_id (io (ri_previous_tx_id inp)) (ri_previous_tx_id inp) d of
        Inr (Some funding) \<Rightarrow>
          (case nth_opt (it_outputs funding) (unat (ri_previous_index inp)) of
             None \<Rightarrow> Inr acc
           | Some out \<Rightarrow> debit_output prefix out acc)
      | _ \<Rightarrow> Inr acc)"

definition pending_row :: "RawTx \<Rightarrow> u64 \<times> u64 \<Rightarrow> PendingRow" where
  "pending_row raw cd =
     (let net = net_i64 (fst cd) (snd cd)
      in \<lparr> pd_tx_id = rt_tx_id raw, pd_amount_sompi = unsigned_abs net, pd_is_spend = (net < 0) \<rparr>)"

definition push_row ::
  "RawTx \<Rightarrow> string \<times> u64 \<times> u64 \<Rightarrow> (string, PendingRow list) tab \<Rightarrow> (string, PendingRow list) tab" where
  "push_row raw entry history =
     (let rows = (case tab_get history (fst entry) of None \<Rightarrow> [] | Some rows \<Rightarrow> rows)
      in tab_insert (fst entry) (rows @ [pending_row raw (snd entry)]) history)"

definition snapshot_tx ::
  "(string \<Rightarrow> StoreError option) \<Rightarrow> ext \<Rightarrow> db \<Rightarrow> string \<Rightarrow> RawTx \<Rightarrow> Snapshot \<Rightarrow> Snapshot res" where
  "snapshot_tx io e d prefix raw sn =
     (let rendered = render_pending raw;
          spends = (if rt_is_coinbase raw then sn_spends sn
                    else fold (\<lambda>inp. tab_insert
                           (mempool_outpoint_key (ri_previous_tx_id inp) (ri_previous_index inp)) rendered)
                           (rt_inputs raw) (sn_spends sn))
      in
        bind_res (fold_res (credit_output prefix) (rt_outputs raw) []) (\<lambda>acc.
        bind_res (if rt_is_coinbase raw then Inr acc
                  else fold_res (pending_debit io d prefix) (rt_inputs raw) acc) (\<lambda>acc.
          Inr \<lparr> sn_spends = spends, sn_history = fold (push_row raw) (ledger_order e acc) (sn_history sn),
                sn_count = sn_count sn + 1 \<rparr>)))"

definition build_snapshot ::
  "(string \<Rightarrow> StoreError option) \<Rightarrow> ext \<Rightarrow> RawTx list \<Rightarrow> db \<Rightarrow> string \<Rightarrow> Snapshot res" where
  "build_snapshot io e txs d prefix = fold_res (snapshot_tx io e d prefix) txs snapshot_empty"

text \<open>
  \<open>spawn_poller\<close> starts nothing when the interval is zero; otherwise one more poller for the
  prefix runs. One round of its loop: without an open store, or when the node does not answer, the
  overlay stays as it is; otherwise the whole snapshot is replaced.
\<close>

definition spawn_poller :: "string \<Rightarrow> u64 \<Rightarrow> string list \<Rightarrow> string list" where
  "spawn_poller prefix poll_ms pollers = (if poll_ms = 0 then pollers else pollers @ [prefix])"

definition poll ::
  "(string \<Rightarrow> StoreError option) \<Rightarrow> ext \<Rightarrow> string \<Rightarrow> db option \<Rightarrow> RpcTransaction option list option
     \<Rightarrow> Snapshot \<Rightarrow> Snapshot res" where
  "poll io e prefix store answer sn =
     (case store of
        None \<Rightarrow> Inr sn
      | Some d \<Rightarrow>
          (case answer of
             None \<Rightarrow> Inr sn
           | Some mempool_entries \<Rightarrow>
               build_snapshot io e
                 (List.map_filter (\<lambda>t. Option.bind t raw_from_proto) mempool_entries) d prefix))"

section \<open>Pending rows and ledgers\<close>

interpretation pending: accounting "pending_debit (\<lambda>_. None) d prefix"
    "debit_of prefix (TX_BY_ID d) (TX d)" "\<lambda>v (c, b). (c, b + v)"
proof unfold_locales
  fix x acc acc'
  assume "pending_debit (\<lambda>_. None) d prefix x acc = Inr acc'"
  then show "acc' = (case debit_of prefix (TX_BY_ID d) (TX d) x of None \<Rightarrow> acc
      | Some (a, v) \<Rightarrow> acc_entry a (case_prod (\<lambda>c b. (c, b + v))) acc)"
    by (auto simp: pending_debit_def debit_of_def funding_output_def tx_by_id_def debit_output_def
        case_prod_beta split: option.splits sum.splits)
qed (auto simp: add.assoc)

lemma pending_debit_same: "pending_debit (\<lambda>_. None) d prefix = debit_input prefix (TX_BY_ID d) (TX d)"
  by (intro ext) (simp add: pending_debit_def debit_input_def tx_by_id_def split: option.splits)

lemma snapshot_tx_ledger:
  assumes "compute_ledger e raw prefix (TX_BY_ID d) (TX d) = Inr l"
  shows "\<exists>acc. l = ledger_entries (ledger_order e acc) \<and> snapshot_tx (\<lambda>_. None) e d prefix raw sn = Inr
    \<lparr> sn_spends = (if rt_is_coinbase raw then sn_spends sn
        else fold (\<lambda>inp. tab_insert (mempool_outpoint_key (ri_previous_tx_id inp) (ri_previous_index inp))
               (render_pending raw)) (rt_inputs raw) (sn_spends sn)),
      sn_history = fold (push_row raw) (ledger_order e acc) (sn_history sn), sn_count = sn_count sn + 1 \<rparr>"
proof -
  obtain acc1 acc where acc: "fold_res (credit_output prefix) (rt_outputs raw) [] = Inr acc1"
    "fold_res (debit_input prefix (TX_BY_ID d) (TX d)) (spent_inputs raw) acc1 = Inr acc"
    "l = ledger_entries (ledger_order e acc)"
    using assms by (rule compute_ledger_cases)
  have "(if rt_is_coinbase raw then Inr acc1
         else fold_res (debit_input prefix (TX_BY_ID d) (TX d)) (rt_inputs raw) acc1) = Inr acc"
    using acc(2) by (simp add: spent_inputs_def split: if_splits)
  then show ?thesis
    using acc(1,3)
    by (intro exI [of _ acc]) (auto simp: snapshot_tx_def pending_debit_same Let_def split: if_splits)
qed

definition rows_at :: "(string, PendingRow list) tab \<Rightarrow> string \<Rightarrow> PendingRow list" where
  "rows_at h a = (case tab_get h a of None \<Rightarrow> [] | Some rows \<Rightarrow> rows)"

lemma rows_at_push:
  "rows_at (push_row raw en h) a = rows_at h a @ (if fst en = a then [pending_row raw (snd en)] else [])"
  by (simp add: rows_at_def push_row_def Let_def)

lemma rows_at_fold:
  "rows_at (fold (push_row raw) ens h) a
     = rows_at h a @ map (\<lambda>en. pending_row raw (snd en)) (filter (\<lambda>en. fst en = a) ens)"
  by (induction ens arbitrary: h) (simp_all add: rows_at_push)

text \<open>The rows of a ledger at an address, and a stored history row seen as a pending one.\<close>

definition ledger_pending :: "RawTx \<Rightarrow> LedgerEntry list \<Rightarrow> string \<Rightarrow> PendingRow list" where
  "ledger_pending raw l a =
     map (\<lambda>x. pending_row raw (le_credit x, le_debit x)) (filter (\<lambda>x. le_address x = a) l)"

definition as_pending :: "HistRow \<Rightarrow> PendingRow" where
  "as_pending r = \<lparr> pd_tx_id = hr_tx_id r, pd_amount_sompi = hr_amount_sompi r, pd_is_spend = hr_is_spend r \<rparr>"

lemma ledger_pending_entries:
  "ledger_pending raw (ledger_entries ens) a = map (\<lambda>en. pending_row raw (snd en)) (filter (\<lambda>en. fst en = a) ens)"
  by (induction ens) (auto simp: ledger_pending_def ledger_entries_def)

lemma as_pending_indexed:
  "map as_pending (map (hist_row_of (build_indexed raw n grp l)) (filter (\<lambda>x. le_address x = a) l))
     = ledger_pending raw l a"
  by (simp add: ledger_pending_def as_pending_def hist_row_of_def build_indexed_def pending_row_def Let_def)

lemma snapshot_tx_history:
  assumes "compute_ledger e raw prefix (TX_BY_ID d) (TX d) = Inr l"
  shows "\<exists>sn'. snapshot_tx (\<lambda>_. None) e d prefix raw sn = Inr sn'
    \<and> (\<forall>a. mempool_history sn' a = mempool_history sn a @ ledger_pending raw l a)"
proof -
  obtain acc where "l = ledger_entries (ledger_order e acc)" "\<exists>sn'. snapshot_tx (\<lambda>_. None) e d prefix raw sn = Inr sn'
      \<and> sn_history sn' = fold (push_row raw) (ledger_order e acc) (sn_history sn)"
    using snapshot_tx_ledger [OF assms, of sn] by auto
  then show ?thesis
    using rows_at_fold [of raw "ledger_order e acc" "sn_history sn"]
    by (auto simp: mempool_history_def ledger_pending_entries rows_at_def [symmetric])
qed

lemma build_snapshot_history:
  assumes "\<And>raw. raw \<in> set txs \<Longrightarrow> compute_ledger e raw prefix (TX_BY_ID d) (TX d) = Inr (l raw)"
  shows "\<exists>sn. build_snapshot (\<lambda>_. None) e txs d prefix = Inr sn
    \<and> (\<forall>a. mempool_history sn a = concat (map (\<lambda>raw. ledger_pending raw (l raw) a) txs))"
proof -
  have "\<exists>sn. fold_res (snapshot_tx (\<lambda>_. None) e d prefix) txs sn0 = Inr sn
    \<and> (\<forall>a. mempool_history sn a = mempool_history sn0 a @ concat (map (\<lambda>raw. ledger_pending raw (l raw) a) txs))" for sn0
    using assms
  proof (induction txs arbitrary: sn0)
    case (Cons raw txs)
    from snapshot_tx_history [OF Cons.prems, of raw sn0]
    obtain sn1 where "snapshot_tx (\<lambda>_. None) e d prefix raw sn0 = Inr sn1"
      "\<forall>a. mempool_history sn1 a = mempool_history sn0 a @ ledger_pending raw (l raw) a" by auto
    with Cons.IH [of sn1] Cons.prems show ?case by auto
  qed simp
  from this [of snapshot_empty] show ?thesis
    by (simp add: build_snapshot_def mempool_history_def snapshot_empty_def)
qed

text \<open>Inputs whose funding transaction the store does not have carry no debit: the ledger
  is that of the transaction without them.\<close>

definition known_inputs :: "db \<Rightarrow> RawTx \<Rightarrow> RawTx" where
  "known_inputs d raw =
     raw\<lparr> rt_inputs := filter (\<lambda>i. tab_get (TX_BY_ID d) (ri_previous_tx_id i) \<noteq> None) (rt_inputs raw) \<rparr>"

lemma debit_known_inputs:
  "fold_res (debit_input prefix (TX_BY_ID d) t) (filter (\<lambda>i. tab_get (TX_BY_ID d) (ri_previous_tx_id i) \<noteq> None) is) acc
     = fold_res (debit_input prefix (TX_BY_ID d) t) is acc"
proof (induction "is" arbitrary: acc)
  case (Cons i xs)
  then show ?case
    by (cases "tab_get (TX_BY_ID d) (ri_previous_tx_id i)")
      (auto simp: debit_input_def split: sum.split option.split)
qed simp

lemma compute_ledger_known:
  "compute_ledger e (known_inputs d raw) prefix (TX_BY_ID d) t = compute_ledger e raw prefix (TX_BY_ID d) t"
  by (cases "rt_is_coinbase raw")
    (simp_all add: compute_ledger_def known_inputs_def debit_known_inputs del: not_None_eq)

section \<open>Spends\<close>

lemma mempool_key_inject [simp, key_simps]:
  "mempool_outpoint_key a i = mempool_outpoint_key b j \<longleftrightarrow> a = b \<and> i = j"
  using outpoint_key_inject by (simp add: mempool_outpoint_key_def outpoint_key_def)

definition spends_outpoint :: "string \<Rightarrow> u32 \<Rightarrow> RawTx \<Rightarrow> bool" where
  "spends_outpoint txid index raw =
     list_ex (\<lambda>i. ri_previous_tx_id i = txid \<and> ri_previous_index i = index) (spent_inputs raw)"

lemma snapshot_tx_spend:
  assumes "snapshot_tx io e d prefix raw sn = Inr sn'"
  shows "sn_count sn' = sn_count sn + 1
    \<and> mempool_spend_of sn' txid index =
        (if spends_outpoint txid index raw then Some (render_pending raw) else mempool_spend_of sn txid index)"
proof -
  have "sn_count sn' = sn_count sn + 1"
    "sn_spends sn' = fold (\<lambda>inp. tab_insert (mempool_outpoint_key (ri_previous_tx_id inp) (ri_previous_index inp))
       (render_pending raw)) (spent_inputs raw) (sn_spends sn)"
    using assms by (auto simp: snapshot_tx_def spent_inputs_def Let_def split: if_splits)
  then show ?thesis by (auto simp: mempool_spend_of_def spends_outpoint_def list_ex_iff image_iff)
qed

lemma find_append: "find P (xs @ ys) = (case find P xs of None \<Rightarrow> find P ys | Some x \<Rightarrow> Some x)"
  by (induction xs) auto

lemma snapshot_txs_spend:
  assumes "fold_res (snapshot_tx io e d prefix) txs sn = Inr sn'"
  shows "sn_count sn' = sn_count sn + length txs
    \<and> mempool_spend_of sn' txid index =
        (case find (spends_outpoint txid index) (rev txs) of
           Some raw \<Rightarrow> Some (render_pending raw) | None \<Rightarrow> mempool_spend_of sn txid index)"
  using assms
proof (induction txs arbitrary: sn)
  case (Cons raw txs)
  then obtain sn1 where s: "snapshot_tx io e d prefix raw sn = Inr sn1"
    "fold_res (snapshot_tx io e d prefix) txs sn1 = Inr sn'"
    by (auto split: sum.splits)
  show ?case
    using Cons.IH [OF s(2)] snapshot_tx_spend [OF s(1), of txid index]
    by (auto simp: find_append split: option.splits)
qed simp

lemma build_snapshot_spend:
  assumes "build_snapshot io e txs d prefix = Inr sn"
  shows "mempool_spend_of sn txid index = map_option render_pending (find (spends_outpoint txid index) (rev txs))
    \<and> pending_count sn = length txs"
  using snapshot_txs_spend [of io e d prefix txs snapshot_empty sn txid index] assms
  by (auto simp: build_snapshot_def pending_count_def mempool_spend_of_def snapshot_empty_def
      split: option.splits)

text \<open>A snapshot answers a spend lookup with the last pending non-coinbase transaction
  that has the outpoint among its inputs, rendered as pending, and with nothing when
  there is none; its count is the number of pending transactions.\<close>

theorem snapshot_spend_exact:
  assumes "build_snapshot io e txs d prefix = Inr sn"
  shows "mempool_spend_of sn txid index = map_option render_pending (find (spends_outpoint txid index) (rev txs))
    \<and> pending_count sn = length txs"
  by (rule build_snapshot_spend [OF assms])

definition pending_sample :: RawTx where
  "pending_sample = sample_tx ''cc'' False [\<lparr> ri_previous_tx_id = ''aa'', ri_previous_index = 1,
     ri_signature_script = [], ri_sequence = 0, ri_sig_op_count = 0 \<rparr>] []"

theorem snapshot_spend_exact_witness:
  "\<exists>sn. build_snapshot (\<lambda>_. None) ext_sample [pending_sample] empty_db ''keryxsim'' = Inr sn
     \<and> mempool_spend_of sn ''aa'' 1 = Some (render_pending pending_sample) \<and> mempool_spend_of sn ''aa'' 0 = None"
proof -
  have "\<exists>sn. build_snapshot (\<lambda>_. None) ext_sample [pending_sample] empty_db ''keryxsim'' = Inr sn"
    by (simp add: build_snapshot_def snapshot_tx_def pending_sample_def sample_tx_def pending_debit_def
        tx_by_id_def empty_db_def)
  then obtain sn where sn: "build_snapshot (\<lambda>_. None) ext_sample [pending_sample] empty_db ''keryxsim'' = Inr sn"
    by blast
  have "spends_outpoint ''aa'' 1 pending_sample" "\<not> spends_outpoint ''aa'' 0 pending_sample"
    by (simp_all add: spends_outpoint_def pending_sample_def sample_tx_def spent_inputs_def)
  then show ?thesis
    using snapshot_spend_exact [OF sn, of "''aa''" 1] snapshot_spend_exact [OF sn, of "''aa''" 0] sn by simp
qed

end
