(* ===== verification/Indexer.thy ===== *)
theory Indexer
  imports Mempool NodeClient StoreSteps
begin

text \<open>
  \<open>src/indexer/mod.rs\<close>: the indexer task. It consumes the node's notifications one by
  one, opens the store on the first connection, backfills after every connection, stages
  the blocks it sees, unwinds the chain blocks a reorganisation removes and applies the
  acceptance lists of the added ones. What the node answers and what the storage reports
  during one notification are parameters of the step.
\<close>

section \<open>State\<close>

definition EXPIRE_INTERVAL_DAA :: u64 where
  "EXPIRE_INTERVAL_DAA = 900"

definition DAA_PER_DAY :: u64 where
  "DAA_PER_DAY = 864000"

datatype IndexerState = Connecting | Backfilling | Live

fun state_as_str :: "IndexerState \<Rightarrow> string" where
  "state_as_str Connecting = ''connecting''"
| "state_as_str Backfilling = ''backfilling''"
| "state_as_str Live = ''live''"

record IndexerStatus =
  st_state :: IndexerState
  st_window_days :: u64
  st_checkpoint_daa :: "u64 option"
  st_window_low_daa :: "u64 option"
  st_total_txs :: u64
  st_chain_blocks :: u64
  st_resolve_misses :: u64
  st_staged_blocks :: nat
  st_generation :: u64

record Ctx =
  cx_window_daa :: u64
  cx_last_expire_daa :: u64
  cx_total_misses :: u64

text \<open>
  The whole task: the shared status, the prefix of the opened store (none before
  \<open>store_cell\<close> is set), the database on disk, the staging area, the bookkeeping, the
  interval \<open>mempool_poll_ms\<close>, the prefixes of the mempool pollers running, and whether the task still runs (a panic ends
  it).
\<close>

record engine =
  en_status :: IndexerStatus
  en_store :: "string option"
  en_db :: db
  en_staging :: Staging
  en_ctx :: Ctx
  en_poll_ms :: u64
  en_pollers :: "string list"
  en_alive :: bool

definition saturating_mul :: "u64 \<Rightarrow> u64 \<Rightarrow> u64" where
  "saturating_mul a b = (if unat a * unat b < 2 ^ 64 then a * b else - 1)"

definition indexer_spawn :: "u64 \<Rightarrow> db \<Rightarrow> u64 \<Rightarrow> engine" where
  "indexer_spawn window_days disk mempool_poll_ms =
     \<lparr> en_status =
         \<lparr> st_state = Connecting, st_window_days = window_days, st_checkpoint_daa = None,
           st_window_low_daa = None, st_total_txs = 0, st_chain_blocks = 0, st_resolve_misses = 0,
           st_staged_blocks = 0, st_generation = 0 \<rparr>,
       en_store = None, en_db = disk, en_staging = staging_new,
       en_ctx = \<lparr> cx_window_daa = saturating_mul window_days DAA_PER_DAY, cx_last_expire_daa = 0,
                  cx_total_misses = 0 \<rparr>,
       en_poll_ms = mempool_poll_ms, en_pollers = [], en_alive = True \<rparr>"

text \<open>What the endpoints see: the handle's \<open>json\<close>.\<close>

definition indexer_json :: "IndexerStatus \<Rightarrow> Snapshot \<Rightarrow> json" where
  "indexer_json s sn =
     JObj [(''state'', JStr (state_as_str (st_state s))),
           (''window_days'', json_u64 (st_window_days s)),
           (''checkpoint_daa'', json_opt json_u64 (st_checkpoint_daa s)),
           (''window_low_daa'', json_opt json_u64 (st_window_low_daa s)),
           (''total_txs'', json_u64 (st_total_txs s)),
           (''chain_blocks'', json_u64 (st_chain_blocks s)),
           (''resolve_misses'', json_u64 (st_resolve_misses s)),
           (''staged_blocks'', JNum (int (st_staged_blocks s))),
           (''mempool_pending'', JNum (int (pending_count sn))),
           (''generation'', json_u64 (st_generation s))]"

definition edit :: "(IndexerStatus \<Rightarrow> IndexerStatus) \<Rightarrow> engine \<Rightarrow> engine" where
  "edit f s = s\<lparr> en_status := f (en_status s) \<rparr>"

section \<open>The environment of one notification\<close>

record DagInfo =
  di_network_name :: string
  di_sink :: string

text \<open>
  The node's answers to the calls a notification causes; \<open>get_block\<close> may be called once
  per acceptance list, so its answer depends on the list's position too.
\<close>

record node_env =
  nd_open_info :: "NodeError + DagInfo"
  nd_start_info :: "NodeError + DagInfo"
  nd_notify_block_added :: "NodeError + unit"
  nd_notify_virtual_chain :: "NodeError + unit"
  nd_virtual_chain :: "string \<Rightarrow> NodeError + VirtualChain"
  nd_get_blocks :: "string \<Rightarrow> NodeError + RpcBlock list"
  nd_get_block :: "nat \<Rightarrow> string \<Rightarrow> NodeError + RpcBlock option"

text \<open>The storage errors of the store calls a notification causes.\<close>

record store_io =
  io_open :: "StoreError option"
  io_start :: "StoreError option"
  io_unwind :: "nat \<Rightarrow> StoreError option"
  io_apply :: "StoreError option"
  io_expire :: "StoreError option"
  io_checkpoint :: "StoreError option"
  io_window_low :: "StoreError option"
  io_chain_blocks :: "StoreError option"

definition ok_flatten :: "'a option res \<Rightarrow> 'a option" where
  "ok_flatten r = (case r of Inl _ \<Rightarrow> None | Inr x \<Rightarrow> x)"

section \<open>Groups\<close>

definition resolve_daa :: "NodeError + RpcBlock option \<Rightarrow> u64" where
  "resolve_daa answer =
     (case answer of
        Inl _ \<Rightarrow> 0
      | Inr block \<Rightarrow> unwrap_or 0 (Option.bind block bl_header_daa))"

fun pull_txs :: "Staging \<Rightarrow> string list \<Rightarrow> RawTx list \<times> u64 \<Rightarrow> RawTx list \<times> u64" where
  "pull_txs staging [] acc = acc"
| "pull_txs staging (i # ids) (txs, misses) =
     (case staged_tx staging i of
        Some raw \<Rightarrow> pull_txs staging ids (txs @ [raw], misses)
      | None \<Rightarrow> pull_txs staging ids (txs, misses + 1))"

definition build_group ::
  "node_env \<Rightarrow> Staging \<Rightarrow> nat \<times> RpcAcceptedTransactionIds \<Rightarrow> AcceptedGroup list \<times> u64
     \<Rightarrow> AcceptedGroup list \<times> u64" where
  "build_group node staging na acc =
     (let (n, a) = na; (groups, misses) = acc;
          daa = (case staged_block_daa staging (ac_accepting_block_hash a) of
                   Some daa \<Rightarrow> daa
                 | None \<Rightarrow> resolve_daa (nd_get_block node n (ac_accepting_block_hash a)));
          (txs, misses) = pull_txs staging (ac_accepted_transaction_ids a) ([], misses)
      in (groups @ [\<lparr> ag_chain_block_hash = ac_accepting_block_hash a, ag_daa_score = daa, ag_txs = txs \<rparr>],
          misses))"

definition build_groups ::
  "node_env \<Rightarrow> Staging \<Rightarrow> RpcAcceptedTransactionIds list \<Rightarrow> AcceptedGroup list \<times> u64" where
  "build_groups node staging accepted =
     fold (build_group node staging) (enumerate 0 accepted) ([], 0)"

text \<open>The retention sweep after an apply that reported the score \<open>cp\<close>.\<close>

definition sweep_due :: "Ctx \<Rightarrow> u64 \<Rightarrow> bool" where
  "sweep_due c cp =
     (0 < cx_window_daa c \<and> cx_window_daa c < cp \<and> cx_last_expire_daa c + EXPIRE_INTERVAL_DAA \<le> cp)"

definition sweep :: "StoreError option \<Rightarrow> u64 \<Rightarrow> engine \<Rightarrow> engine" where
  "sweep io cp s =
     (if sweep_due (en_ctx s) cp
      then s\<lparr> en_db := snd (expire_below io (cp - cx_window_daa (en_ctx s)) (en_db s)),
              en_ctx := (en_ctx s)\<lparr> cx_last_expire_daa := cp \<rparr> \<rparr>
      else s)"

definition apply_groups ::
  "store_io \<Rightarrow> ext \<Rightarrow> string \<Rightarrow> AcceptedGroup list \<Rightarrow> u64 \<Rightarrow> engine \<Rightarrow> engine" where
  "apply_groups io e prefix groups misses s =
     (if groups = [] then s
      else
        (case store_apply (io_apply io) e prefix groups (en_db s) of
           (Inl Panic, d) \<Rightarrow> s\<lparr> en_db := d, en_alive := False \<rparr>
         | (Inl (Err _), d) \<Rightarrow> s\<lparr> en_db := d \<rparr>
         | (Inr stats, d) \<Rightarrow>
             (let c = en_ctx s;
                  s = s\<lparr> en_db := d, en_ctx := c\<lparr> cx_total_misses := cx_total_misses c + misses \<rparr> \<rparr>;
                  s = sweep (io_expire io) (as_checkpoint_daa stats) s;
                  checkpoint_daa = map_option ck_daa_score (ok_flatten (checkpoint (io_checkpoint io) (en_db s)));
                  low = ok_flatten (window_low_daa (io_window_low io) (en_db s));
                  blocks = (case chain_blocks (io_chain_blocks io) (en_db s) of Inl _ \<Rightarrow> 0 | Inr n \<Rightarrow> n)
              in edit (\<lambda>st. st\<lparr> st_checkpoint_daa := checkpoint_daa, st_window_low_daa := low,
                               st_total_txs := as_total_txs stats, st_chain_blocks := blocks,
                               st_resolve_misses := cx_total_misses (en_ctx s),
                               st_staged_blocks := 0 \<rparr>) s)))"

section \<open>Connecting\<close>

definition open_store :: "node_env \<Rightarrow> StoreError option \<Rightarrow> db \<Rightarrow> string res \<times> db" where
  "open_store node io d =
     (let network = (case nd_open_info node of Inl _ \<Rightarrow> [] | Inr info \<Rightarrow> di_network_name info);
          prefix = prefix_for_network network;
          (opened, d) = store_open io d
      in (bind_res opened (\<lambda>_. Inr prefix), d))"

definition subscribe :: "node_env \<Rightarrow> NodeError + unit" where
  "subscribe node =
     (case nd_notify_block_added node of
        Inl err \<Rightarrow> Inl err
      | Inr _ \<Rightarrow> nd_notify_virtual_chain node)"

definition stage_from :: "node_env \<Rightarrow> VirtualChain \<Rightarrow> Staging \<Rightarrow> Staging" where
  "stage_from node vc staging =
     (case vc_added_chain_block_hashes vc of
        [] \<Rightarrow> staging
      | low # _ \<Rightarrow>
          (case nd_get_blocks node low of
             Inl _ \<Rightarrow> staging
           | Inr blocks \<Rightarrow> fold stage_block blocks staging))"

definition backfill :: "node_env \<Rightarrow> store_io \<Rightarrow> ext \<Rightarrow> string \<Rightarrow> engine \<Rightarrow> (NodeError + unit) \<times> engine" where
  "backfill node io e prefix s =
     (let start = (case ok_flatten (checkpoint (io_start io) (en_db s)) of
                     Some cp \<Rightarrow> Inr (ck_chain_block_hash cp)
                   | None \<Rightarrow> map_sum (\<lambda>x. x) di_sink (nd_start_info node))
      in case start of
           Inl err \<Rightarrow> (Inl err, s)
         | Inr start \<Rightarrow>
             if start = [] then (Inr (), s)
             else
               (case nd_virtual_chain node start of
                  Inl err \<Rightarrow> (Inl err, s)
                | Inr vc \<Rightarrow>
                    (let s = s\<lparr> en_staging := stage_from node vc (en_staging s) \<rparr>;
                         (groups, misses) = build_groups node (en_staging s) (vc_accepted_transaction_ids vc)
                     in (Inr (), apply_groups io e prefix groups misses s))))"

definition on_connected :: "node_env \<Rightarrow> store_io \<Rightarrow> ext \<Rightarrow> string \<Rightarrow> engine \<Rightarrow> engine" where
  "on_connected node io e prefix s =
     (case subscribe node of
        Inl _ \<Rightarrow> s
      | Inr _ \<Rightarrow>
          (let s = edit (\<lambda>st. st\<lparr> st_state := Backfilling \<rparr>) s;
               (outcome, s) = backfill node io e prefix s
           in if en_alive s then edit (\<lambda>st. st\<lparr> st_state := Live \<rparr>) s else s))"

fun unwind_removed :: "(nat \<Rightarrow> StoreError option) \<Rightarrow> nat \<Rightarrow> string list \<Rightarrow> db \<Rightarrow> db" where
  "unwind_removed io n [] d = d"
| "unwind_removed io n (hash # hashes) d =
     unwind_removed io (Suc n) hashes (snd (unwind_chain_block (io n) hash d))"

section \<open>The task\<close>

text \<open>The body of the \<open>while\<close> loop of \<open>run\<close>.\<close>

definition on_notification :: "node_env \<Rightarrow> store_io \<Rightarrow> ext \<Rightarrow> Notification \<Rightarrow> engine \<Rightarrow> engine" where
  "on_notification node io e n s =
     (case n of
        Connected generation \<Rightarrow>
          (let s = edit (\<lambda>st. st\<lparr> st_state := Connecting, st_generation := generation \<rparr>) s
           in case en_store s of
                Some prefix \<Rightarrow> on_connected node io e prefix s
              | None \<Rightarrow>
                  (case open_store node (io_open io) (en_db s) of
                     (Inl _, d) \<Rightarrow> s\<lparr> en_db := d \<rparr>
                   | (Inr prefix, d) \<Rightarrow>
                       on_connected node io e prefix
                         (s\<lparr> en_db := d, en_store := Some prefix,
                              en_pollers := spawn_poller prefix (en_poll_ms s) (en_pollers s) \<rparr>)))
      | BlockAdded block \<Rightarrow>
          (let staging = stage_block block (en_staging s)
           in edit (\<lambda>st. st\<lparr> st_staged_blocks := staged_blocks staging \<rparr>) (s\<lparr> en_staging := staging \<rparr>))
      | VirtualChainChanged vc \<Rightarrow>
          (case en_store s of
             None \<Rightarrow> s
           | Some prefix \<Rightarrow>
               (let s = s\<lparr> en_db := unwind_removed (io_unwind io) 0 (vc_removed_chain_block_hashes vc) (en_db s) \<rparr>;
                    (groups, misses) = build_groups node (en_staging s) (vc_accepted_transaction_ids vc)
                in apply_groups io e prefix groups misses s)))"

fun run :: "ext \<Rightarrow> (Notification \<times> node_env \<times> store_io) list \<Rightarrow> engine \<Rightarrow> engine" where
  "run e [] s = s"
| "run e ((n, node, io) # rest) s =
     (let s = on_notification node io e n s in if en_alive s then run e rest s else s)"

end
