(* ===== verification/Handlers.thy ===== *)
theory Handlers
  imports Dto Cache Indexer "HOL-Library.Product_Lexorder"
begin

text \<open>
  \<open>src/api/handlers.rs\<close>, the wallet's endpoints: information, balances and outputs straight
  from the node, histories, transactions and spends from the index and the mempool overlay,
  broadcasts to the node, market data from an upstream. What the node and the upstream
  answer, the storage errors and the clock are arguments.
\<close>

section \<open>The application\<close>

record Config =
  cf_listen :: string
  cf_node_grpc :: string
  cf_node_timeout_secs :: u64
  cf_ipfs_gateway :: "string option"
  cf_market_upstream :: "string option"
  cf_max_utxo_limit :: nat
  cf_indexer :: bool
  cf_indexer_window_days :: u64
  cf_indexer_dir :: string
  cf_mempool_poll_ms :: u64

text \<open>The values the command line and the environment leave unset.\<close>

definition config_default :: Config where
  "config_default =
     \<lparr> cf_listen = ''127.0.0.1:8787'', cf_node_grpc = ''http://127.0.0.1:22110'',
       cf_node_timeout_secs = 10, cf_ipfs_gateway = None, cf_market_upstream = None,
       cf_max_utxo_limit = 10000, cf_indexer = False, cf_indexer_window_days = 7,
       cf_indexer_dir = ''./indexer-data'', cf_mempool_poll_ms = 2000 \<rparr>"

record IndexerHandle =
  ih_status :: IndexerStatus
  ih_store :: "db option"
  ih_mempool :: Snapshot

record AppInner =
  aa_cfg :: Config
  aa_indexer :: "IndexerHandle option"

definition app_store :: "AppInner \<Rightarrow> db option" where
  "app_store app = Option.bind (aa_indexer app) ih_store"

definition clamp :: "nat \<Rightarrow> nat \<Rightarrow> nat \<Rightarrow> nat" where
  "clamp x lo hi = (if x < lo then lo else if hi < x then hi else x)"

text \<open>
  \<open>tokio::try_join!\<close> of two calls: both results, or the error of the call that failed; when
  both fail, \<open>first\<close> tells whether the first one failed first.
\<close>

definition try_join :: "bool \<Rightarrow> 'e + 'a \<Rightarrow> 'e + 'b \<Rightarrow> 'e + 'a \<times> 'b" where
  "try_join first r s =
     (case (r, s) of
        (Inr x, Inr y) \<Rightarrow> Inr (x, y)
      | (Inl e, Inr _) \<Rightarrow> Inl e
      | (Inr _, Inl e) \<Rightarrow> Inl e
      | (Inl e, Inl e') \<Rightarrow> Inl (if first then e else e'))"

section \<open>Information\<close>

text \<open>The floating-point operations of the summary, an argument of it.\<close>

record 'f f64_ops =
  f_of_u64 :: "u64 \<Rightarrow> 'f"
  f_div :: "'f \<Rightarrow> 'f \<Rightarrow> 'f"
  f_mul :: "'f \<Rightarrow> 'f \<Rightarrow> 'f"
  f_less :: "'f \<Rightarrow> 'f \<Rightarrow> bool"
  f_zero :: 'f
  f_hundred :: 'f
  f_sompi_per_krx :: 'f

record 'f InfoResponse =
  in_network :: string
  in_last_daa_score :: u64
  in_block_reward_krx :: 'f
  in_total_supply_krx :: 'f
  in_max_supply_krx :: 'f
  in_hashrate_hps :: 'f
  in_total_blocks :: u64
  in_total_txs :: u64
  in_burned_krx :: 'f
  in_total_escrow_krx :: 'f
  in_total_real_inferences :: u64
  in_mined_pct :: 'f

record DagSummary = DagInfo +
  dg_virtual_daa_score :: u64
  dg_block_count :: u64

text \<open>What the calls of one request give, and the times of its cache accesses.\<close>

record info_env =
  ie_dag :: "NodeError + DagSummary"
  ie_supply :: "NodeError + u64 \<times> u64"
  ie_dag_first :: bool
  ie_hashrate :: "NodeError + u64"
  ie_block :: "string \<Rightarrow> NodeError + RpcBlock option"
  ie_total_io :: "StoreError option"
  ie_info_at :: "nat \<times> nat"
  ie_hashrate_at :: "nat \<times> nat"
  ie_reward_at :: "nat \<times> nat"

definition coinbase_amount :: "RpcBlock option \<Rightarrow> u64 option" where
  "coinbase_amount block =
     (case block of
        None \<Rightarrow> None
      | Some b \<Rightarrow>
          (case bl_transactions b of
             [] \<Rightarrow> None
           | coinbase # _ \<Rightarrow>
               (let amounts = filter (\<lambda>a. 0 < a) (map to_amount (tx_outputs coinbase))
                in if amounts = [] then None else Some (sort amounts ! (length amounts div 2)))))"

definition coinbase_reward_krx :: "'f f64_ops \<Rightarrow> RpcBlock option \<Rightarrow> 'f option" where
  "coinbase_reward_krx fl block =
     map_option (\<lambda>a. f_div fl (f_of_u64 fl a) (f_sompi_per_krx fl)) (coinbase_amount block)"

definition build_info ::
  "'f f64_ops \<Rightarrow> AppInner \<Rightarrow> info_env \<Rightarrow> ('f InfoResponse, 'f, 'v) Caches
     \<Rightarrow> (ApiError + 'f InfoResponse) \<times> ('f InfoResponse, 'f, 'v) Caches" where
  "build_info fl app env caches =
     (case try_join (ie_dag_first env) (ie_dag env) (ie_supply env) of
        Inl err \<Rightarrow> (Inl (of_node_error err), caches)
      | Inr (dag, circulating_sompi, max_sompi) \<Rightarrow>
          (let (hashrate, cell) =
                 (case ie_hashrate_at env of (now, later) \<Rightarrow>
                    get_or_init now later
                      (case ie_hashrate env of Inl _ \<Rightarrow> f_zero fl | Inr n \<Rightarrow> f_of_u64 fl n) (ca_hashrate caches));
               caches = caches\<lparr> ca_hashrate := cell \<rparr>;
               (reward, cell) =
                 (case ie_reward_at env of (now, later) \<Rightarrow>
                    get_or_init now later
                      (case ie_block env (di_sink dag) of
                         Inl _ \<Rightarrow> f_zero fl
                       | Inr block \<Rightarrow> unwrap_or (f_zero fl) (coinbase_reward_krx fl block)) (ca_block_reward caches));
               caches = caches\<lparr> ca_block_reward := cell \<rparr>;
               circulating = f_div fl (f_of_u64 fl circulating_sompi) (f_sompi_per_krx fl);
               max_supply = f_div fl (f_of_u64 fl max_sompi) (f_sompi_per_krx fl);
               txs = (case app_store app of
                        None \<Rightarrow> 0
                      | Some d \<Rightarrow> (case total_txs (ie_total_io env) d of Inl _ \<Rightarrow> 0 | Inr n \<Rightarrow> n))
           in (Inr \<lparr> in_network = di_network_name dag, in_last_daa_score = dg_virtual_daa_score dag,
                     in_block_reward_krx = reward, in_total_supply_krx = circulating,
                     in_max_supply_krx = max_supply, in_hashrate_hps = hashrate,
                     in_total_blocks = dg_block_count dag, in_total_txs = txs,
                     in_burned_krx = f_zero fl, in_total_escrow_krx = f_zero fl,
                     in_total_real_inferences = 0,
                     in_mined_pct =
                       (if f_less fl (f_zero fl) max_supply
                        then f_mul fl (f_div fl circulating max_supply) (f_hundred fl) else f_zero fl) \<rparr>,
               caches)))"

text \<open>\<open>get_or_try_init\<close> around a computation that itself uses the other cells.\<close>

definition get_info ::
  "'f f64_ops \<Rightarrow> AppInner \<Rightarrow> info_env \<Rightarrow> ('f InfoResponse, 'f, 'v) Caches
     \<Rightarrow> 'f InfoResponse outcome \<times> ('f InfoResponse, 'f, 'v) Caches" where
  "get_info fl app env caches =
     (case ie_info_at env of (now, later) \<Rightarrow>
        (case fresh now (ca_info caches) of
           Some info \<Rightarrow> (Done info, caches)
         | None \<Rightarrow>
             (case build_info fl app env caches of
                (Inl err, caches) \<Rightarrow> (Failed err, caches)
              | (Inr info, caches) \<Rightarrow>
                  (Done info, caches\<lparr> ca_info := cell_store later info (ca_info caches) \<rparr>))))"

section \<open>Balances and outputs\<close>

definition get_balance ::
  "(string \<Rightarrow> string) \<Rightarrow> (string \<Rightarrow> NodeError + u64) \<Rightarrow> string \<Rightarrow> (string \<times> u64) outcome" where
  "get_balance debug node address =
     on_check (validate_address debug address) (on_node (node address) (\<lambda>balance. Done (address, balance)))"

definition fetch_utxos :: "NodeError + RpcUtxosByAddressesEntry list \<Rightarrow> NodeError + UtxoDto list" where
  "fetch_utxos answer = map_sum (\<lambda>e. e) (List.map_filter utxo_dto) answer"

text \<open>
  Largest amount first, then by transaction id and index. The sort need not be stable, which
  shows only between entries that agree in all three.
\<close>

definition utxo_key :: "UtxoDto \<Rightarrow> int \<times> string \<times> u32" where
  "utxo_key u = (- uint (ud_amount_sompi u), ud_transaction_id u, ud_index u)"

definition get_utxos ::
  "(string \<Rightarrow> string) \<Rightarrow> AppInner \<Rightarrow> (string \<Rightarrow> NodeError + RpcUtxosByAddressesEntry list)
     \<Rightarrow> string \<Rightarrow> nat option \<Rightarrow> UtxoDto list outcome" where
  "get_utxos debug app node address limit =
     on_check (validate_address debug address)
       (let limit = clamp (unwrap_or 400 limit) 1 (max (cf_max_utxo_limit (aa_cfg app)) 1)
        in on_node (fetch_utxos (node address)) (\<lambda>utxos. Done (take limit (sort_key utxo_key utxos))))"

definition get_utxo_count ::
  "(string \<Rightarrow> string) \<Rightarrow> (string \<Rightarrow> NodeError + RpcUtxosByAddressesEntry list) \<Rightarrow> string \<Rightarrow> nat outcome" where
  "get_utxo_count debug node address =
     on_check (validate_address debug address)
       (on_node (fetch_utxos (node address)) (\<lambda>utxos. Done (length utxos)))"

section \<open>Histories\<close>

definition HISTORY_MAX_LIMIT :: nat where
  "HISTORY_MAX_LIMIT = 1000"

definition pending_history_tx :: "string \<Rightarrow> PendingRow \<Rightarrow> HistoryTx" where
  "pending_history_tx address p =
     \<lparr> ht_tx_id = pd_tx_id p, ht_amount_sompi = pd_amount_sompi p, ht_is_spend = pd_is_spend p,
       ht_daa_score = 0, ht_block_hash = [], ht_address = address, ht_pending = True \<rparr>"

definition confirmed_history_tx :: "string \<Rightarrow> HistRow \<Rightarrow> HistoryTx" where
  "confirmed_history_tx address r =
     \<lparr> ht_tx_id = hr_tx_id r, ht_amount_sompi = hr_amount_sompi r, ht_is_spend = hr_is_spend r,
       ht_daa_score = hr_daa_score r, ht_block_hash = hr_block_hash r, ht_address = address,
       ht_pending = False \<rparr>"

text \<open>\<open>io\<close> gives the storage errors of the three reads, in order.\<close>

definition get_address_history ::
  "(string \<Rightarrow> string) \<Rightarrow> (nat \<Rightarrow> StoreError option) \<Rightarrow> AppInner \<Rightarrow> string \<Rightarrow> nat option \<Rightarrow> nat option
     \<Rightarrow> AddressHistoryResponse outcome" where
  "get_address_history debug io app address limit offset =
     on_check (validate_address debug address)
       (case Option.bind (aa_indexer app) (\<lambda>h. map_option (\<lambda>d. (h, d)) (ih_store h)) of
          None \<Rightarrow>
            Done \<lparr> ar_address = address, ar_total_received_sompi = 0, ar_total_tx_count = 0,
                   ar_transactions = [], ar_history_since_daa = None \<rparr>
        | Some (indexer, d) \<Rightarrow>
            (let limit = clamp (unwrap_or 10 limit) 1 HISTORY_MAX_LIMIT; offset = unwrap_or 0 offset
             in on_store (address_history (io 0) address limit offset d) (\<lambda>rows.
                on_store (address_totals (io 1) address d) (\<lambda>(received, count).
                on_store (window_low_daa (io 2) d) (\<lambda>since.
                  Done \<lparr> ar_address = address, ar_total_received_sompi = received, ar_total_tx_count = count,
                         ar_transactions =
                           (if offset = 0
                            then map (pending_history_tx address) (mempool_history (ih_mempool indexer) address)
                            else [])
                           @ map (confirmed_history_tx address) rows,
                         ar_history_since_daa = since \<rparr>)))))"

section \<open>Transactions and spends\<close>

definition is_txid :: "string \<Rightarrow> bool" where
  "is_txid s = (length s = 64 \<and> list_all is_ascii_hexdigit s)"

definition input_to_json :: "StoredIn \<Rightarrow> json" where
  "input_to_json i =
     JObj [(''transaction_id'', JStr (si_previous_tx_id i)), (''index'', json_u32 (si_previous_index i)),
           (''signature_script'', JStr (si_signature_script i)),
           (''sequence'', JStr (show_u64 (si_sequence i))),
           (''sig_op_count'', json_u32 (si_sig_op_count i))]"

definition output_to_json :: "StoredOut \<Rightarrow> json" where
  "output_to_json out =
     JObj [(''amount'', json_u64 (so_amount out)), (''script_version'', json_u32 (so_script_version out)),
           (''script_public_key'', JStr (so_script_public_key out))]"

definition tx_to_json :: "IndexedTx \<Rightarrow> json" where
  "tx_to_json itx =
     JObj [(''tx_id'', JStr (it_tx_id itx)), (''version'', json_u32 (it_version itx)),
           (''inputs'', JArr (map input_to_json (it_inputs itx))),
           (''outputs'', JArr (map output_to_json (it_outputs itx))),
           (''lock_time'', json_u64 (it_lock_time itx)),
           (''subnetwork_id'', JStr (it_subnetwork_id itx)), (''gas'', json_u64 (it_gas itx)),
           (''payload'', JStr (it_payload itx)), (''block_hash'', JStr (it_accepting_block_hash itx)),
           (''daa_score'', json_u64 (it_accepting_daa itx)), (''is_coinbase'', JBool (it_is_coinbase itx))]"

definition require_index :: "AppInner \<Rightarrow> (db \<Rightarrow> 'a outcome) \<Rightarrow> 'a outcome" where
  "require_index app f =
     (case app_store app of
        None \<Rightarrow> Failed (NotFound ''transaction index is not enabled on this shim'')
      | Some d \<Rightarrow> f d)"

definition get_transaction :: "StoreError option \<Rightarrow> AppInner \<Rightarrow> string \<Rightarrow> json outcome" where
  "get_transaction io app txid =
     (if \<not> is_txid txid then Failed (BadRequest ''transaction id must be 64 hex chars'')
      else require_index app (\<lambda>d.
        on_store (tx_by_id io txid d) (\<lambda>found.
          (case found of
             Some itx \<Rightarrow> Done (tx_to_json itx)
           | None \<Rightarrow> Failed (NotFound ''transaction not found within the indexer window'')))))"

definition get_outpoint_spend :: "StoreError option \<Rightarrow> AppInner \<Rightarrow> string \<Rightarrow> u32 \<Rightarrow> json outcome" where
  "get_outpoint_spend io app txid index =
     (if \<not> is_txid txid then Failed (BadRequest ''transaction id must be 64 hex chars'')
      else
        (case Option.bind (aa_indexer app) (\<lambda>h. map_option (\<lambda>d. (h, d)) (ih_store h)) of
           None \<Rightarrow> Failed (NotFound ''transaction index is not enabled on this shim'')
         | Some (indexer, d) \<Rightarrow>
             (case mempool_spend_of (ih_mempool indexer) txid index of
                Some tx \<Rightarrow> Done (JObj [(''status'', JStr ''mempool''), (''transaction'', tx)])
              | None \<Rightarrow>
                  on_store (spend_of io txid index d) (\<lambda>found.
                    (case found of
                       Some itx \<Rightarrow>
                         Done (JObj [(''status'', JStr ''accepted''), (''transaction'', tx_to_json itx)])
                     | None \<Rightarrow>
                         Failed (NotFound ''outpoint has no known spending transaction in the indexer window''))))))"

section \<open>Broadcasts and market data\<close>

text \<open>The body is a transaction, or the text of its rejection by the extractor.\<close>

definition post_broadcast ::
  "(RpcTransactionMsg \<Rightarrow> NodeError + string) \<Rightarrow> string + TxJson \<Rightarrow> string outcome" where
  "post_broadcast submit payload =
     (case payload of
        Inl text \<Rightarrow> Failed (BadRequest (''invalid transaction JSON: '' @ text))
      | Inr tx \<Rightarrow> on_check (validate tx) (on_node (submit (into_proto tx)) Done))"

text \<open>An upstream's answer: no answer, a failure status, or a body that is JSON or not.\<close>

datatype http_json = NoAnswer string | BadStatus string | Body "string + json"

definition market_value :: "http_json \<Rightarrow> ApiError + json" where
  "market_value answer =
     (case answer of
        NoAnswer e \<Rightarrow> Inl (Upstream (''market upstream: '' @ e))
      | BadStatus s \<Rightarrow> Inl (Upstream (''market upstream returned '' @ s))
      | Body (Inl e) \<Rightarrow> Inl (Upstream (''market upstream: '' @ e))
      | Body (Inr j) \<Rightarrow> Inr j)"

definition get_market ::
  "AppInner \<Rightarrow> (string \<Rightarrow> http_json) \<Rightarrow> nat \<Rightarrow> nat \<Rightarrow> json TtlCell \<Rightarrow> json outcome \<times> json TtlCell" where
  "get_market app http now later cell =
     (case cf_market_upstream (aa_cfg app) of
        None \<Rightarrow> (Failed (NotFound ''market data is not configured on this shim''), cell)
      | Some url \<Rightarrow>
          (case get_or_try_init now later (market_value (http url)) cell of
             (Inl err, cell) \<Rightarrow> (Failed err, cell)
           | (Inr value, cell) \<Rightarrow> (Done value, cell)))"

end
