(* ===== verification/HandlersAi.thy ===== *)
theory HandlersAi
  imports Handlers
begin

text \<open>
  \<open>src/api/handlers.rs\<close>, the inference endpoints (capabilities, feed, one request with its
  sealed answers, providers, challenges), the IPFS proxy and the health report.
\<close>

section \<open>Feeds\<close>

definition model_name :: "string \<Rightarrow> string" where
  "model_name model_id = unwrap_or model_id (model_key model_id)"

text \<open>\<open>unwrap_or_default\<close> on a store read.\<close>

definition or_empty :: "'a list res \<Rightarrow> 'a list" where
  "or_empty r = (case r of Inl _ \<Rightarrow> [] | Inr xs \<Rightarrow> xs)"

definition capability_json :: "Capability \<Rightarrow> json" where
  "capability_json c =
     JObj [(''model'', JStr (model_name (cp_model_id c))), (''model_id_hex'', JStr (cp_model_id c)),
           (''miner_count'', JNum (int (length (cp_miner_pubkeys c)))),
           (''last_seen_daa'', json_u64 (cp_last_seen_daa c)),
           (''miner_pubkeys'', JArr (map JStr (cp_miner_pubkeys c)))]"

definition get_capabilities :: "StoreError option \<Rightarrow> ext \<Rightarrow> AppInner \<Rightarrow> json" where
  "get_capabilities io e app =
     (case app_store app of
        None \<Rightarrow> JArr []
      | Some d \<Rightarrow> JArr (map capability_json (or_empty (capabilities io e d))))"

text \<open>\<open>chars().take(n)\<close>: characters are a leading byte and its continuation bytes.\<close>

fun take_chars :: "nat \<Rightarrow> string \<Rightarrow> string" where
  "take_chars 0 s = []"
| "take_chars (Suc n) [] = []"
| "take_chars (Suc n) (c # s) =
     c # takeWhile (is_cont \<circ> u8_of_char) s @ take_chars n (dropWhile (is_cont \<circ> u8_of_char) s)"

definition infer_row :: "AiRequestRec \<Rightarrow> AiResponseRec option \<Rightarrow> json" where
  "infer_row req resp =
     JObj [(''tx_id'', JStr (qr_tx_id req)), (''model'', JStr (model_name (qr_model_id req))),
           (''prompt'', JStr (qr_prompt req)), (''sealed'', JBool (qr_private req)),
           (''sealed_recipients'', json_opt json_u32 (qr_recipient_count req)),
           (''max_tokens'', json_u32 (qr_max_tokens req)),
           (''inference_reward'', json_u64 (qr_inference_reward req)),
           (''priority_fee'', json_u64 (qr_priority_fee req)), (''daa_score'', json_u64 (qr_daa_score req)),
           (''block_hash'', JStr (qr_block_hash req)),
           (''payload_prefix'', JStr (take_chars 16 (qr_request_hash req))),
           (''result'', json_opt (JStr \<circ> pr_cid) resp), (''result_text'', JNull),
           (''result_block_hash'', json_opt (JStr \<circ> pr_result_block_hash) resp),
           (''result_daa_score'', json_opt (json_u64 \<circ> pr_daa_score) resp),
           (''request_hash'', JStr (qr_request_hash req)),
           (''result_tx_id'', json_opt JStr (Option.bind resp pr_tx_id)),
           (''responder_pubkey'', json_opt JStr (Option.bind resp pr_responder_pubkey)),
           (''result_inline'', JBool (case resp of None \<Rightarrow> False | Some r \<Rightarrow> pr_inline_body r))]"

definition get_infer :: "StoreError option \<Rightarrow> AppInner \<Rightarrow> nat option \<Rightarrow> nat option \<Rightarrow> json" where
  "get_infer io app limit offset =
     (case app_store app of
        None \<Rightarrow> JArr []
      | Some d \<Rightarrow>
          (let limit = clamp (unwrap_or 20 limit) 1 200; offset = unwrap_or 0 offset
           in JArr (map (\<lambda>(req, resp). infer_row req resp) (or_empty (inference_feed io limit offset d)))))"

section \<open>One request\<close>

definition sealed_response :: "IndexedTx \<times> AiResponse \<Rightarrow> json option" where
  "sealed_response row =
     (case row of (itx, resp) \<Rightarrow>
        map_option (\<lambda>body.
          JObj [(''responder_pubkey'', json_opt JStr (rs_responder_pubkey resp)),
                (''body'', JStr (to_hex body)), (''response_length'', json_u32 (rs_response_length resp)),
                (''tx_id'', JStr (it_tx_id itx)), (''block_hash'', JStr (it_accepting_block_hash itx)),
                (''daa_score'', json_u64 (it_accepting_daa itx))]) (rs_private_body resp))"

definition detail_json :: "InferenceDetail \<Rightarrow> json" where
  "detail_json detail =
     (let req = id_request detail; first = id_first_response detail
      in JObj [(''tx_id'', JStr (qr_tx_id req)), (''model'', JStr (model_name (qr_model_id req))),
               (''prompt'', JStr (qr_prompt req)),
               (''status'', JStr (if first \<noteq> None then ''completed'' else ''pending'')),
               (''sealed'', JBool (qr_private req)),
               (''sealed_recipients'', json_opt json_u32 (qr_recipient_count req)),
               (''sealed_responses'', JArr (List.map_filter sealed_response (id_responses detail))),
               (''result_cid'', json_opt (JStr \<circ> pr_cid) first), (''result_text'', JNull),
               (''result_block_hash'', json_opt (JStr \<circ> pr_result_block_hash) first),
               (''result_daa_score'', json_opt (json_u64 \<circ> pr_daa_score) first)])"

definition get_inference :: "StoreError option \<Rightarrow> ext \<Rightarrow> AppInner \<Rightarrow> string \<Rightarrow> json outcome" where
  "get_inference io e app txid =
     (if \<not> is_txid txid then Failed (BadRequest ''transaction id must be 64 hex chars'')
      else require_index app (\<lambda>d.
        on_store (inference_by_tx io e txid d) (\<lambda>found.
          (case found of
             None \<Rightarrow> Failed (NotFound ''inference request not found within the indexer window'')
           | Some detail \<Rightarrow> Done (detail_json detail)))))"

section \<open>Providers\<close>

definition SERVICE_PROVIDERS_MIN_NODE :: "u64 \<times> u64 \<times> u64" where
  "SERVICE_PROVIDERS_MIN_NODE = (1, 6, 4)"

definition PROVIDERS_WINDOW_DAA :: u64 where
  "PROVIDERS_WINDOW_DAA = 18000"

definition node_version :: "string \<Rightarrow> (u64 \<times> u64 \<times> u64) option" where
  "node_version v =
     (let v = dropWhile (\<lambda>c. c = CHR ''v'') (trim v);
          v = takeWhile (\<lambda>c. is_ascii_digit c \<or> c = CHR ''.'') v;
          parts = map parse_u64 (split_on (CHR ''.'') v);
          part = (\<lambda>i. if i < length parts then parts ! i else None)
      in case part 0 of
           None \<Rightarrow> None
         | Some major \<Rightarrow> Some (major, unwrap_or 0 (part 1), unwrap_or 0 (part 2)))"

text \<open>The lexicographic order of tuples.\<close>

definition version_less :: "u64 \<times> u64 \<times> u64 \<Rightarrow> u64 \<times> u64 \<times> u64 \<Rightarrow> bool" where
  "version_less v w =
     (case (v, w) of ((a, b, c), (a', b', c')) \<Rightarrow>
        a < a' \<or> (a = a' \<and> (b < b' \<or> (b = b' \<and> c < c'))))"

record ServiceProvider =
  sv_tier :: u32
  sv_model_id :: string
  sv_identity :: string
  sv_escrow_pubkey :: string

definition provider_json :: "ServiceProvider \<Rightarrow> json" where
  "provider_json p =
     JObj [(''tier'', json_u32 (sv_tier p)), (''model'', JStr (model_name (sv_model_id p))),
           (''model_id'', JStr (sv_model_id p)), (''identity'', JStr (sv_identity p)),
           (''escrow_pubkey'', JStr (sv_escrow_pubkey p))]"

text \<open>The calls one request makes and what they give; the caches' times.\<close>

record providers_env =
  pe_server_version :: "NodeError + string"
  pe_cohort :: "NodeError + u64 \<times> ServiceProvider list"
  pe_window :: "NodeError + u64 \<times> ServiceProvider list"
  pe_cohort_first :: bool
  pe_version_at :: "nat \<times> nat"
  pe_providers_at :: "nat \<times> nat"

definition providers_value :: "providers_env \<Rightarrow> ApiError + json" where
  "providers_value env =
     (case try_join (pe_cohort_first env) (pe_cohort env) (pe_window env) of
        Inl err \<Rightarrow> Inl (of_node_error err)
      | Inr ((score, cohort), (_, window)) \<Rightarrow>
          Inr (JObj [(''virtual_daa_score'', json_u64 score), (''window_daa'', json_u64 PROVIDERS_WINDOW_DAA),
                     (''cohort'', JArr (map provider_json cohort)), (''window'', JArr (map provider_json window))]))"

definition too_old :: "string \<Rightarrow> bool" where
  "too_old version =
     (case node_version version of None \<Rightarrow> True | Some v \<Rightarrow> version_less v SERVICE_PROVIDERS_MIN_NODE)"

text \<open>
  The third result lists the methods called on the node: a cell that answers from its slot
  makes no call.
\<close>

definition get_ai_providers ::
  "providers_env \<Rightarrow> string TtlCell \<Rightarrow> json TtlCell
     \<Rightarrow> json outcome \<times> (string TtlCell \<times> json TtlCell) \<times> string list" where
  "get_ai_providers env version_cell cell =
     (let (now, later) = pe_version_at env;
          calls = (if fresh now version_cell = None then [''get_server_info''] else []);
          (version, version_cell) = get_or_try_init now later (pe_server_version env) version_cell
      in case version of
           Inl err \<Rightarrow> (Failed (of_node_error err), (version_cell, cell), calls)
         | Inr version \<Rightarrow>
             if too_old version
             then (Failed (Unavailable (''keryx node '' @ version
                     @ '' cannot list service providers (needs 1.6.4 or newer)'')),
                   (version_cell, cell), calls)
             else
               (let (now, later) = pe_providers_at env;
                    calls = calls @ (if fresh now cell = None
                                     then [''get_service_providers'', ''get_service_providers''] else []);
                    (providers, cell) = get_or_try_init now later (providers_value env) cell
                in case providers of
                     Inl err \<Rightarrow> (Failed err, (version_cell, cell), calls)
                   | Inr j \<Rightarrow> (Done j, (version_cell, cell), calls)))"

section \<open>Challenges\<close>

definition challenge_json :: "AiChallengeRec \<Rightarrow> json" where
  "challenge_json c =
     JObj [(''tx_id'', JStr (cr_tx_id c)), (''request_hash_hex'', JStr (cr_request_hash c)),
           (''fraud_proven'', JBool False)]"

definition get_challenges :: "StoreError option \<Rightarrow> AppInner \<Rightarrow> nat option \<Rightarrow> json" where
  "get_challenges io app limit =
     (case app_store app of
        None \<Rightarrow> JArr []
      | Some d \<Rightarrow>
          (let limit = clamp (unwrap_or 50 limit) 1 500
           in JArr (map challenge_json (or_empty (challenges io limit d)))))"

section \<open>The IPFS proxy\<close>

definition IPFS_MAX_BYTES :: nat where
  "IPFS_MAX_BYTES = 1024 * 1024"

definition base58_char :: "char \<Rightarrow> bool" where
  "base58_char c =
     (CHR ''1'' \<le> c \<and> c \<le> CHR ''9'' \<or> CHR ''A'' \<le> c \<and> c \<le> CHR ''H'' \<or> CHR ''J'' \<le> c \<and> c \<le> CHR ''N''
      \<or> CHR ''P'' \<le> c \<and> c \<le> CHR ''Z'' \<or> CHR ''a'' \<le> c \<and> c \<le> CHR ''k'' \<or> CHR ''m'' \<le> c \<and> c \<le> CHR ''z'')"

definition is_cid_v0 :: "string \<Rightarrow> bool" where
  "is_cid_v0 s = (length s = 46 \<and> take 2 s = ''Qm'' \<and> list_all base58_char s)"

text \<open>The gateway's answer: none, a failure status, or the chunks of a body that may break off.\<close>

datatype gateway_answer = Unsent string | Status string | Chunks "(string + bytes) list"

fun read_body :: "(string + bytes) list \<Rightarrow> bytes \<Rightarrow> ApiError + bytes" where
  "read_body [] body = Inr body"
| "read_body (Inl e # chunks) body = Inl (Upstream (''ipfs gateway: '' @ e))"
| "read_body (Inr chunk # chunks) body =
     (if IPFS_MAX_BYTES < length body + length chunk
      then Inl (Upstream ''ipfs object exceeds the 1 MiB proxy limit'')
      else read_body chunks (body @ chunk))"

definition trim_end_slashes :: "string \<Rightarrow> string" where
  "trim_end_slashes s = rev (dropWhile (\<lambda>c. c = CHR ''/'') (rev s))"

definition get_ipfs ::
  "AppInner \<Rightarrow> (string \<Rightarrow> gateway_answer) \<Rightarrow> string \<Rightarrow> (string \<times> bytes) outcome" where
  "get_ipfs app http cid =
     (if \<not> is_cid_v0 cid then Failed (BadRequest ''invalid IPFS CID'')
      else
        (case cf_ipfs_gateway (aa_cfg app) of
           None \<Rightarrow> Failed (NotFound ''no IPFS gateway is configured on this shim'')
         | Some gateway \<Rightarrow>
             (case http (trim_end_slashes gateway @ ''/ipfs/'' @ cid) of
                Unsent e \<Rightarrow> Failed (Upstream (''ipfs gateway: '' @ e))
              | Status s \<Rightarrow> Failed (Upstream (''ipfs gateway returned '' @ s))
              | Chunks chunks \<Rightarrow>
                  (case read_body chunks [] of
                     Inl err \<Rightarrow> Failed err
                   | Inr body \<Rightarrow> Done (''text/plain; charset=utf-8'', body)))))"

section \<open>Health\<close>

record ServerInfo =
  sf_server_version :: string
  sf_network_id :: string
  sf_is_synced :: bool
  sf_has_utxo_index :: bool
  sf_virtual_daa_score :: u64

definition get_health :: "AppInner \<Rightarrow> NodeError + ServerInfo \<Rightarrow> json outcome" where
  "get_health app answer =
     on_node answer (\<lambda>si.
       Done (JObj [(''status'', JStr ''ok''),
                   (''node'', JObj [(''server_version'', JStr (sf_server_version si)),
                                    (''network_id'', JStr (sf_network_id si)),
                                    (''is_synced'', JBool (sf_is_synced si)),
                                    (''has_utxo_index'', JBool (sf_has_utxo_index si)),
                                    (''virtual_daa_score'', json_u64 (sf_virtual_daa_score si))]),
                   (''indexer'', (case aa_indexer app of
                                    Some h \<Rightarrow> indexer_json (ih_status h) (ih_mempool h)
                                  | None \<Rightarrow> JStr ''disabled''))]))"

end
