(* ===== verification/HandlerProps.thy ===== *)
theory HandlerProps
  imports HandlersAi StoreProps
begin

text \<open>
  What the endpoints promise: histories and spends in terms of the index and the mempool,
  broadcasts in terms of what reaches the node, pages of outputs, the proxy's limit and the
  version gate of the provider query.
\<close>

section \<open>Histories\<close>

lemma validated_parts:
  assumes "validate_address debug address = Inr ()"
  shows "\<exists>prefix payload. address = prefix @ CHR '':'' # payload \<and> prefix \<in> set ADDRESS_PREFIXES
    \<and> set payload \<subseteq> set BECH32_CHARSET"
proof -
  obtain prefix payload where s: "split_once (CHR '':'') address = Some (prefix, payload)"
    using assms by (auto simp: validate_address_def split: option.splits)
  then show ?thesis
    using assms split_once_Some [OF s] by (auto simp: validate_address_def list_all_iff split: if_splits)
qed

lemma validated_address_utf8:
  assumes "validate_address debug address = Inr ()"
  shows "utf8_str address"
proof -
  obtain prefix payload where p: "address = prefix @ CHR '':'' # payload" "prefix \<in> set ADDRESS_PREFIXES"
    "set payload \<subseteq> set BECH32_CHARSET"
    using validated_parts [OF assms] by blast
  have "list_all ascii_text ADDRESS_PREFIXES" "ascii_text BECH32_CHARSET" by (code_simp, code_simp)
  then have "\<forall>c \<in> set prefix \<union> set payload. of_char c < (128 :: nat)"
    using p(2,3) unfolding ascii_text_def list_all_iff by blast
  then show ?thesis unfolding p(1) by (intro ascii_utf8_str) (auto simp: list_all_iff)
qed

lemma history_endpoint_rows:
  assumes "aa_indexer app = Some h" "ih_store h = Some d" "store_reachable e prefix d"
    and "validate_address debug address = Inr ()"
  shows "\<exists>since n. window_low_daa None d = Inr since \<and> 1 \<le> n \<and> n \<le> 1000
    \<and> n = clamp (unwrap_or 10 limit) 1 1000
    \<and> get_address_history debug (\<lambda>_. None) app address limit offset =
      Done \<lparr> ar_address = address, ar_total_received_sompi = fst (read_totals (ADDR_TOTALS d) address),
             ar_total_tx_count = snd (read_totals (ADDR_TOTALS d) address),
             ar_transactions =
               (if unwrap_or 0 offset = 0
                then map (pending_history_tx address) (mempool_history (ih_mempool h) address) else [])
               @ map (confirmed_history_tx address) (take n (drop (unwrap_or 0 offset) (history_rows address d))),
             ar_history_since_daa = since \<rparr>"
proof -
  let ?n = "clamp (unwrap_or 10 limit) 1 1000"
  obtain since where since: "window_low_daa None d = Inr since" by (simp add: window_low_daa_def)
  have "1 \<le> ?n \<and> ?n \<le> 1000" by (simp add: clamp_def)
  then show ?thesis
    using since assms address_history_rows [OF assms(3) validated_address_utf8 [OF assms(4)], of ?n "unwrap_or 0 offset"]
    by (simp add: get_address_history_def HISTORY_MAX_LIMIT_def Let_def address_totals_def case_prod_beta)
qed

text \<open>
  The history endpoint is exact: for a valid address and a reachable index it
  answers with the pending rows of the mempool (on the first page only, marked pending and
  without a score) followed by the requested page of exactly the rows the stored
  transactions call for, newest first, at least one and at most 1000 of them being asked for;
  every row names the address; the totals are those of the index.
\<close>

theorem history_endpoint_exact:
  assumes "aa_indexer app = Some h" "ih_store h = Some d" "store_reachable e prefix d"
    and "validate_address debug address = Inr ()"
  shows "\<exists>since n. window_low_daa None d = Inr since \<and> 1 \<le> n \<and> n \<le> 1000
    \<and> n = clamp (unwrap_or 10 limit) 1 1000
    \<and> get_address_history debug (\<lambda>_. None) app address limit offset =
      Done \<lparr> ar_address = address, ar_total_received_sompi = fst (read_totals (ADDR_TOTALS d) address),
             ar_total_tx_count = snd (read_totals (ADDR_TOTALS d) address),
             ar_transactions =
               (if unwrap_or 0 offset = 0
                then map (pending_history_tx address) (mempool_history (ih_mempool h) address) else [])
               @ map (confirmed_history_tx address) (take n (drop (unwrap_or 0 offset) (history_rows address d))),
             ar_history_since_daa = since \<rparr>"
  by (rule history_endpoint_rows [OF assms])

definition sample_app :: AppInner where
  "sample_app = \<lparr> aa_cfg = config_default\<lparr> cf_max_utxo_limit := 2 \<rparr>,
     aa_indexer = Some \<lparr> ih_status = en_status (indexer_spawn 0 sample_db2 2000), ih_store = Some sample_db2,
       ih_mempool = snapshot_empty \<rparr> \<rparr>"

lemma sample_address_valid: "validate_address (\<lambda>s. s) sample_address = Inr ()"
proof -
  obtain body where "sample_address = ''keryxsim'' @ CHR '':'' # body \<and> body \<noteq> [] \<and> set body \<subseteq> set CHARSET"
    unfolding sample_address_def using encode_address_chars by blast
  then show ?thesis
    using split_once_append [of "CHR '':''" "''keryxsim''" body] charset_same
    by (auto simp: validate_address_def ADDRESS_PREFIXES_def list_all_iff)
qed

theorem history_endpoint_exact_witness:
  "\<exists>r. get_address_history (\<lambda>s. s) (\<lambda>_. None) sample_app sample_address None None = Done r
     \<and> map ht_tx_id (ar_transactions r) = [''bb'', ''aa'']"
proof -
  have rows: "map hr_tx_id (history_rows sample_address sample_db2) = [''bb'', ''aa'']"
    by (simp add: history_rows_def sample_db2_simps sample_row_def sample_row2_def build_indexed_def
        sample_entry_def sample_entry2_def hist_row_of_def sample_tx_def Let_def)
  then have "length (history_rows sample_address sample_db2) = 2" by (metis length_map length_Cons list.size(3) numeral_2_eq_2)
  then have page: "map ht_tx_id (map (confirmed_history_tx sample_address) (take 10 (history_rows sample_address sample_db2)))
      = [''bb'', ''aa'']"
    using rows by (simp add: confirmed_history_tx_def comp_def)
  have mem: "mempool_history snapshot_empty sample_address = []" by (simp add: mempool_history_def snapshot_empty_def)
  from history_endpoint_exact [OF _ _ sample_reachable2 sample_address_valid, of sample_app _ None None]
  show ?thesis using page mem by (auto simp: sample_app_def unwrap_or_def clamp_def comp_def)
qed

section \<open>Spends\<close>

lemma find_in: "find P xs = Some x \<Longrightarrow> x \<in> set xs \<and> P x"
  by (induction xs) (auto split: if_splits)

text \<open>A rendered transaction that has an outpoint among its inputs.\<close>

definition shows_spend :: "string \<Rightarrow> u32 \<Rightarrow> json \<Rightarrow> bool" where
  "shows_spend txid index tx =
     (case json_get tx ''inputs'' of
        Some (JArr ins) \<Rightarrow>
          list_ex (\<lambda>i. json_get i ''transaction_id'' = Some (JStr txid)
                       \<and> json_get i ''index'' = Some (json_u32 index)) ins
      | _ \<Rightarrow> False)"

lemma shows_spend_stored:
  "i \<in> set (it_inputs t) \<Longrightarrow> shows_spend (si_previous_tx_id i) (si_previous_index i) (tx_to_json t)"
  by (auto simp: shows_spend_def tx_to_json_def list_ex_iff input_to_json_def)

lemma shows_spend_pending: "spends_outpoint txid index raw \<Longrightarrow> shows_spend txid index (render_pending raw)"
  by (auto simp: shows_spend_def render_pending_def spends_outpoint_def spent_inputs_def list_ex_iff
      render_pending_input_def split: if_splits)

text \<open>
  Property C32. The spend endpoint answers what a hash-lock claim needs: on a reachable index
  and a mempool overlay built from the node's pending transactions, the transaction it
  shows has the outpoint asked for among its inputs; it is a pending one whenever some
  pending transaction spends the outpoint, and otherwise the accepted spender of the index.
\<close>

theorem spend_endpoint_sound:
  assumes "aa_indexer app = Some h" "ih_store h = Some d" "store_reachable e prefix d"
    and "build_snapshot rio e txs d' prefix = Inr (ih_mempool h)"
    and "get_outpoint_spend None app txid index = Done j"
  shows "\<exists>status tx. j = JObj [(''status'', JStr status), (''transaction'', tx)] \<and> shows_spend txid index tx
    \<and> (if list_ex (spends_outpoint txid index) txs
       then status = ''mempool'' \<and> tx \<in> render_pending ` set txs
       else status = ''accepted'' \<and> (\<exists>t. spend_of None txid index d = Inr (Some t) \<and> tx = tx_to_json t))"
proof -
  note mem = conjunct1 [OF build_snapshot_spend [OF assms(4)], of txid index]
  show ?thesis
  proof (cases "find (spends_outpoint txid index) (rev txs)")
    case None
    have none: "\<not> list_ex (spends_outpoint txid index) txs"
      using None by (auto simp: find_None_iff list_ex_iff)
    obtain t where t: "spend_of None txid index d = Inr (Some t)"
      "j = JObj [(''status'', JStr ''accepted''), (''transaction'', tx_to_json t)]"
      using assms(1,2,5) None mem
      by (auto simp: get_outpoint_spend_def spend_of_def split: if_splits option.splits)
    then obtain n where "tab_get (OUTPOINT_SPEND d) (outpoint_key txid index) = Some n" "tab_get (TX d) n = Some t"
      by (auto simp: spend_of_def split: option.splits)
    then have "shows_spend txid index (tx_to_json t)"
      using spender_row [OF assms(3)] shows_spend_stored by fastforce
    then show ?thesis using t none by auto
  next
    case (Some raw)
    then have raw: "raw \<in> set txs" "spends_outpoint txid index raw" using find_in by fastforce+
    then have "list_ex (spends_outpoint txid index) txs" by (auto simp: list_ex_iff)
    moreover have "j = JObj [(''status'', JStr ''mempool''), (''transaction'', render_pending raw)]"
      using assms(1,2,5) Some mem by (auto simp: get_outpoint_spend_def split: if_splits)
    ultimately show ?thesis using raw shows_spend_pending by auto
  qed
qed

definition claim_txid :: string where
  "claim_txid = replicate 64 (CHR ''a'')"

definition claim_tx :: RawTx where
  "claim_tx = sample_tx ''cc'' False [\<lparr> ri_previous_tx_id = claim_txid, ri_previous_index = 1,
     ri_signature_script = ''51'', ri_sequence = 0, ri_sig_op_count = 0 \<rparr>] []"

theorem spend_endpoint_sound_witness:
  "\<exists>sn j tx. build_snapshot (\<lambda>_. None) ext_sample [claim_tx] empty_db ''keryxsim'' = Inr sn
     \<and> get_outpoint_spend None (sample_app\<lparr> aa_indexer := Some \<lparr> ih_status = en_status (indexer_spawn 0 sample_db2 2000),
          ih_store = Some sample_db2, ih_mempool = sn \<rparr> \<rparr>) claim_txid 1 = Done j
     \<and> j = JObj [(''status'', JStr ''mempool''), (''transaction'', tx)] \<and> shows_spend claim_txid 1 tx"
proof -
  have "\<exists>sn. build_snapshot (\<lambda>_. None) ext_sample [claim_tx] empty_db ''keryxsim'' = Inr sn"
    by (simp add: build_snapshot_def snapshot_tx_def claim_tx_def sample_tx_def pending_debit_def
        tx_by_id_def empty_db_def)
  then obtain sn where sn: "build_snapshot (\<lambda>_. None) ext_sample [claim_tx] empty_db ''keryxsim'' = Inr sn" by blast
  let ?h = "\<lparr> ih_status = en_status (indexer_spawn 0 sample_db2 2000), ih_store = Some sample_db2, ih_mempool = sn \<rparr>"
  let ?app = "sample_app\<lparr> aa_indexer := Some ?h \<rparr>"
  have spends: "spends_outpoint claim_txid 1 claim_tx"
    by (simp add: spends_outpoint_def claim_tx_def sample_tx_def spent_inputs_def)
  then have "mempool_spend_of sn claim_txid 1 = Some (render_pending claim_tx)"
    using build_snapshot_spend [OF sn] by simp
  moreover have "is_txid claim_txid" by (simp add: is_txid_def claim_txid_def list_all_iff is_ascii_hexdigit_def)
  ultimately obtain j where j: "get_outpoint_spend None ?app claim_txid 1 = Done j"
    by (simp add: get_outpoint_spend_def)
  from spend_endpoint_sound [of ?app ?h, OF _ _ sample_reachable2 _ this] sn spends j show ?thesis by fastforce
qed

section \<open>Broadcasts\<close>

lemma those_map_Some: "(\<And>x. x \<in> set xs \<Longrightarrow> f x = Some (g x)) \<Longrightarrow> those (map f xs) = Some (map g xs)"
  by (induction xs) auto

lemmas field_defs = struct_fields_def required_def defaulted_def

lemma json_u32_num [simp]: "de_string (JStr s) = Some s"
  by (simp add: de_string_def)

definition input_of_raw :: "RawIn \<Rightarrow> TxInputJson" where
  "input_of_raw i = \<lparr> ij_transaction_id = ri_previous_tx_id i, ij_index = ri_previous_index i,
     ij_signature_script = ri_signature_script i, ij_sequence = ri_sequence i, ij_sig_op_count = ri_sig_op_count i \<rparr>"

definition output_of_raw :: "RawOut \<Rightarrow> TxOutputJson" where
  "output_of_raw out = \<lparr> oj_amount = ro_amount out, oj_script_version = ro_script_version out,
     oj_script_public_key = ro_script_public_key out \<rparr>"

definition tx_of_raw :: "RawTx \<Rightarrow> TxJson" where
  "tx_of_raw raw = \<lparr> tj_version = rt_version raw, tj_inputs = map input_of_raw (rt_inputs raw),
     tj_outputs = map output_of_raw (rt_outputs raw), tj_lock_time = rt_lock_time raw,
     tj_subnetwork_id = rt_subnetwork_id raw, tj_gas = rt_gas raw, tj_payload = rt_payload raw, tj_mass = 0 \<rparr>"

lemma de_pending_input: "de_input (render_pending_input i) = Some (input_of_raw i)"
  by (simp add: de_input_def render_pending_input_def field_defs flex_u64_show de_u32_num input_of_raw_def)

lemma de_pending_output: "de_output (render_pending_output out) = Some (output_of_raw out)"
  by (simp add: de_output_def render_pending_output_def field_defs flex_u64_num de_u32_num output_of_raw_def)

lemma de_pending: "de_tx (render_pending raw) = Some (tx_of_raw raw)"
proof -
  have "those (map (de_input \<circ> render_pending_input) ins) = Some (map input_of_raw ins)" for ins
    using those_map_Some [of ins "de_input \<circ> render_pending_input" input_of_raw] de_pending_input by simp
  moreover have "those (map (de_output \<circ> render_pending_output) outs) = Some (map output_of_raw outs)" for outs
    using those_map_Some [of outs "de_output \<circ> render_pending_output" output_of_raw] de_pending_output by simp
  ultimately show ?thesis
    by (simp add: de_tx_def render_pending_def field_defs flex_u64_num de_u32_num de_vec_def tx_of_raw_def)
qed

lemma stored_renders_alike:
  "map input_to_json (it_inputs (build_indexed raw n grp l)) = map render_pending_input (rt_inputs raw)"
  "map output_to_json (it_outputs (build_indexed raw n grp l)) = map render_pending_output (rt_outputs raw)"
  by (simp_all add: build_indexed_def input_to_json_def render_pending_input_def output_to_json_def
      render_pending_output_def)

lemma de_stored: "de_tx (tx_to_json (build_indexed raw n grp l)) = Some (tx_of_raw raw)"
proof -
  have "de_tx (tx_to_json (build_indexed raw n grp l)) = de_tx (render_pending raw)"
    unfolding tx_to_json_def stored_renders_alike
    by (simp add: de_tx_def render_pending_def field_defs) (simp add: build_indexed_def)
  then show ?thesis by (simp add: de_pending)
qed

lemma raw_in_of_raw: "raw_in (input_proto (input_of_raw i)) = i"
  by (simp add: raw_in_def input_proto_def input_of_raw_def unwrap_or_def)

lemma raw_out_of_raw: "raw_out (output_proto (output_of_raw out)) = out"
  by (simp add: raw_out_def output_proto_def output_of_raw_def unwrap_or_def)

text \<open>
  Property C34. The shim reads what it writes: a transaction received from the node, rendered
  as pending or as an accepted transaction of the index, is accepted by the broadcast
  endpoint's deserialiser, both renderings give the same transaction, and the message made
  of it, once the node has named it again, is the transaction received (the sequence
  numbers survive as decimal strings).
\<close>

theorem rendering_round_trip:
  assumes "raw_from_proto t = Some raw"
  shows "\<exists>tx. de_tx (render_pending raw) = Some tx \<and> de_tx (tx_to_json (build_indexed raw n grp l)) = Some tx
    \<and> raw_from_proto ((RpcTransaction.truncate (into_proto tx))\<lparr> tx_verbose_id := Some (rt_tx_id raw) \<rparr>) = Some raw"
proof -
  have raw: "rt_tx_id raw \<noteq> []" "rt_is_coinbase raw = eq_ignore_ascii_case (rt_subnetwork_id raw) COINBASE_SUBNETWORK"
    using assms by (auto simp: raw_from_proto_def split: option.splits if_splits)
  have "raw_from_proto ((RpcTransaction.truncate (into_proto (tx_of_raw raw)))\<lparr> tx_verbose_id := Some (rt_tx_id raw) \<rparr>)
      = Some raw"
    using raw by (simp add: raw_from_proto_def into_proto_def tx_of_raw_def RpcTransaction.truncate_def
        comp_def raw_in_of_raw raw_out_of_raw)
  then show ?thesis using de_pending de_stored by blast
qed

theorem rendering_round_trip_witness:
  "\<exists>raw tx. raw_from_proto \<lparr> tx_version = 1, tx_inputs = [\<lparr> ti_previous_outpoint = None, ti_signature_script = ''51'',
       ti_sequence = - 1, ti_sig_op_count = 1 \<rparr>], tx_outputs = [], tx_lock_time = 0, tx_subnetwork_id = [], tx_gas = 0,
       tx_payload = [], tx_verbose_id = Some ''aa'' \<rparr> = Some raw
     \<and> de_tx (render_pending raw) = Some tx \<and> map ij_sequence (tj_inputs tx) = [- 1]"
proof -
  let ?t = "\<lparr> tx_version = 1, tx_inputs = [\<lparr> ti_previous_outpoint = None, ti_signature_script = ''51'',
       ti_sequence = - 1, ti_sig_op_count = 1 \<rparr>], tx_outputs = [], tx_lock_time = 0, tx_subnetwork_id = [], tx_gas = 0,
       tx_payload = [], tx_verbose_id = Some ''aa'' \<rparr>"
  obtain raw where raw: "raw_from_proto ?t = Some raw" by (simp add: raw_from_proto_def)
  from rendering_round_trip [OF this] obtain tx where tx: "de_tx (render_pending raw) = Some tx"
    "raw_from_proto ((RpcTransaction.truncate (into_proto tx))\<lparr> tx_verbose_id := Some (rt_tx_id raw) \<rparr>) = Some raw"
    by blast
  have "rt_inputs raw = map (raw_in \<circ> input_proto) (tj_inputs tx)"
    using arg_cong [OF tx(2), of "\<lambda>r. rt_inputs (the r)"] raw
    by (auto simp: raw_from_proto_def into_proto_def RpcTransaction.truncate_def)
  then have "map ri_sequence (rt_inputs raw) = map ij_sequence (tj_inputs tx)"
    by (simp add: raw_in_def input_proto_def Let_def)
  moreover have "map ri_sequence (rt_inputs raw) = [- 1]"
    using raw by (auto simp: raw_from_proto_def raw_in_def Let_def)
  ultimately show ?thesis using raw tx by auto
qed



section \<open>Pages of outputs\<close>

lemma sorted_take_drop:
  "sorted (map f (xs :: 'a list)) \<Longrightarrow> x \<in> set (take n xs) \<Longrightarrow> y \<in> set (drop n xs) \<Longrightarrow> f x \<le> f y"
proof -
  assume s: "sorted (map f xs)" and x: "x \<in> set (take n xs)" "y \<in> set (drop n xs)"
  have "sorted (map f (take n xs) @ map f (drop n xs))" using s by (metis append_take_drop_id map_append)
  then show "f x \<le> f y" using x by (auto simp: sorted_append)
qed

text \<open>
  Property C36. A truncated page of outputs is the most useful one: the endpoint returns as
  many of the address's outputs as the limit (at least one, at most the configured cap)
  allows, largest amount first, and every output left out is no larger than every one
  returned; no output is invented or repeated.
\<close>

theorem utxo_page_largest:
  assumes "get_utxos debug app node address limit = Done page"
  shows "\<exists>entries left. node address = Inr entries
    \<and> mset (page @ left) = mset (List.map_filter utxo_dto entries)
    \<and> length page = min (clamp (unwrap_or 400 limit) 1 (max (cf_max_utxo_limit (aa_cfg app)) 1))
        (length (List.map_filter utxo_dto entries))
    \<and> sorted_wrt (\<lambda>u v. ud_amount_sompi v \<le> ud_amount_sompi u) page
    \<and> (\<forall>u\<in>set page. \<forall>v\<in>set left. ud_amount_sompi v \<le> ud_amount_sompi u)"
proof -
  let ?n = "clamp (unwrap_or 400 limit) 1 (max (cf_max_utxo_limit (aa_cfg app)) 1)"
  obtain entries where e: "node address = Inr entries"
    "page = take ?n (sort_key utxo_key (List.map_filter utxo_dto entries))"
    using assms by (cases "node address"; cases "validate_address debug address")
      (auto simp: get_utxos_def fetch_utxos_def Let_def on_check_def)
  let ?xs = "sort_key utxo_key (List.map_filter utxo_dto entries)"
  have s: "sorted (map utxo_key ?xs)" by (rule sorted_sort_key)
  have le: "ud_amount_sompi v \<le> ud_amount_sompi u" if "utxo_key u \<le> utxo_key v" for u v
    using that by (auto simp: utxo_key_def less_eq_prod_def word_le_def less_le)
  have "sorted (map utxo_key page)" unfolding e(2) take_map [symmetric] using s by (rule sorted_wrt_take)
  then have "sorted_wrt (\<lambda>u v. utxo_key u \<le> utxo_key v) page" by (simp add: sorted_wrt_map)
  then have "sorted_wrt (\<lambda>u v. ud_amount_sompi v \<le> ud_amount_sompi u) page"
    by (rule sorted_wrt_mono_rel [rotated]) (use le in auto)
  moreover have "\<forall>u\<in>set page. \<forall>v\<in>set (drop ?n ?xs). ud_amount_sompi v \<le> ud_amount_sompi u"
    using sorted_take_drop [OF s] le unfolding e(2) by blast
  moreover have "mset (page @ drop ?n ?xs) = mset (List.map_filter utxo_dto entries)"
    unfolding e(2) append_take_drop_id by simp
  ultimately show ?thesis using e by (intro exI [of _ entries] exI [of _ "drop ?n ?xs"]) (auto simp: min.commute)
qed

definition sample_entry_of :: "u64 \<Rightarrow> RpcUtxosByAddressesEntry" where
  "sample_entry_of amount =
     \<lparr> ub_outpoint = Some \<lparr> ou_transaction_id = ''aa'', ou_index = 0 \<rparr>,
       ub_utxo_entry = Some \<lparr> ue_amount = amount, ue_script_public_key = None, ue_block_daa_score = 0, ue_is_coinbase = False \<rparr> \<rparr>"

theorem utxo_page_largest_witness:
  "\<exists>page. get_utxos (\<lambda>s. s) sample_app (\<lambda>_. Inr (map sample_entry_of [5, 9, 7])) sample_address (Some 400) = Done page
     \<and> length page = 2 \<and> sorted_wrt (\<lambda>u v. ud_amount_sompi v \<le> ud_amount_sompi u) page"
proof -
  let ?node = "\<lambda>_. Inr (map sample_entry_of [5, 9, 7])"
  obtain page where p: "get_utxos (\<lambda>s. s) sample_app ?node sample_address (Some 400) = Done page"
    by (simp add: get_utxos_def sample_address_valid fetch_utxos_def Let_def)
  have "length (List.map_filter utxo_dto (map sample_entry_of [5, 9, 7])) = 3"
    by (simp add: List.map_filter_simps utxo_dto_def sample_entry_of_def Let_def)
  then show ?thesis
    using utxo_page_largest [OF p] p by (auto simp: sample_app_def unwrap_or_def clamp_def)
qed

section \<open>The proxy's limit\<close>

definition total_bytes :: "(string + bytes) list \<Rightarrow> bytes" where
  "total_bytes chunks = concat (map (\<lambda>c. case c of Inl _ \<Rightarrow> [] | Inr b \<Rightarrow> b) chunks)"

lemma read_body_exact:
  "read_body chunks body = Inr out \<longleftrightarrow>
     list_all (\<lambda>c. \<not> isl c) chunks \<and> out = body @ total_bytes chunks
     \<and> (chunks = [] \<or> length out \<le> IPFS_MAX_BYTES)"
proof (induction chunks body rule: read_body.induct)
  case (3 chunk chunks body)
  have "length (body @ chunk) \<le> IPFS_MAX_BYTES" if "length (body @ chunk @ total_bytes chunks) \<le> IPFS_MAX_BYTES"
    using that by simp
  then show ?case using 3 by (auto simp: total_bytes_def)
qed (auto simp: total_bytes_def)

text \<open>
  Property C37. The IPFS proxy passes an object through whole or not at all: it answers with a
  body exactly when the identifier is well formed, a gateway is configured and the gateway
  delivered every chunk without error and no more than 1 MiB in total; the body is then the
  concatenation of the chunks. In particular nothing but a base-58 identifier ever becomes
  part of the gateway's URL.
\<close>

theorem ipfs_whole_or_nothing:
  "get_ipfs app http cid = Done (content, body) \<longleftrightarrow>
     is_cid_v0 cid \<and> content = ''text/plain; charset=utf-8''
     \<and> (\<exists>gateway chunks. cf_ipfs_gateway (aa_cfg app) = Some gateway
          \<and> http (trim_end_slashes gateway @ ''/ipfs/'' @ cid) = Chunks chunks
          \<and> list_all (\<lambda>c. \<not> isl c) chunks \<and> body = total_bytes chunks \<and> length body \<le> 1048576)"
proof -
  have body: "read_body chunks [] = Inr b \<longleftrightarrow>
      list_all (\<lambda>c. \<not> isl c) chunks \<and> b = total_bytes chunks \<and> length b \<le> 1048576" for chunks b
    using read_body_exact [of chunks "[]" b] by (auto simp: IPFS_MAX_BYTES_def total_bytes_def)
  show ?thesis
    by (cases "cf_ipfs_gateway (aa_cfg app)")
      (auto simp: get_ipfs_def body [symmetric] split: gateway_answer.splits sum.splits)
qed

section \<open>The version gate\<close>

lemma cached_value:
  assumes "get_or_try_init now later init cell = (Inr v, cell')"
  shows "fresh now cell = Some v \<or> init = Inr v"
  using assms by (auto simp: get_or_try_init_def split: option.splits sum.splits)

text \<open>
  Property C35. A node that may not know the provider query never receives it: whenever the
  endpoint sends \<open>getServiceProviders\<close>, the version it holds for the node, just reported or
  from its cache, parses to 1.6.4 or newer; for an older or unreadable version it answers
  that the service is unavailable and calls at most \<open>getServerInfo\<close>.
\<close>

theorem providers_gate:
  assumes "get_ai_providers env version_cell cell = (r, cells, calls)"
  shows "(''get_service_providers'' \<in> set calls \<longrightarrow>
      (\<exists>version v. (fresh (fst (pe_version_at env)) version_cell = Some version \<or> pe_server_version env = Inr version)
         \<and> node_version version = Some v \<and> \<not> version_less v (1, 6, 4)))
    \<and> ((\<exists>j. r = Done j) \<longrightarrow>
      (\<exists>version. (fresh (fst (pe_version_at env)) version_cell = Some version \<or> pe_server_version env = Inr version)
         \<and> \<not> too_old version))"
proof -
  obtain now later where t: "pe_version_at env = (now, later)" by fastforce
  obtain v vc where v: "get_or_try_init now later (pe_server_version env) version_cell = (v, vc)" by fastforce
  show ?thesis
  proof (cases v)
    case (Inl err)
    then show ?thesis using assms t v by (auto simp: get_ai_providers_def split: if_splits)
  next
    case (Inr version)
    then have from_node: "fresh now version_cell = Some version \<or> pe_server_version env = Inr version"
      using cached_value v by fast
    show ?thesis
    proof (cases "too_old version")
      case True
      then show ?thesis using assms t v Inr by (auto simp: get_ai_providers_def split: if_splits)
    next
      case False
      then obtain w where "node_version version = Some w" "\<not> version_less w (1, 6, 4)"
        by (auto simp: too_old_def SERVICE_PROVIDERS_MIN_NODE_def split: option.splits)
      then show ?thesis using from_node False unfolding t fst_conv by blast
    qed
  qed
qed

definition sample_providers :: providers_env where
  "sample_providers = \<lparr> pe_server_version = Inr ''v1.6.4-PoM'', pe_cohort = Inr (7, []), pe_window = Inr (7, []),
     pe_cohort_first = True, pe_version_at = (0, 1), pe_providers_at = (2, 3) \<rparr>"

lemma sample_version: "node_version ''v1.6.4-PoM'' = Some (1, 6, 4)"
proof -
  have "trim ''v1.6.4-PoM'' = ''v1.6.4-PoM''" by code_simp
  moreover have "parse_u64 ''1'' = Some 1" "parse_u64 ''6'' = Some 6" "parse_u64 ''4'' = Some 4"
    by (simp_all add: parse_u64_def is_ascii_digit_def nat_of_digits_def digit_val_def)
  ultimately show ?thesis by (simp add: node_version_def is_ascii_digit_def unwrap_or_def Let_def)
qed

theorem providers_gate_witness:
  "\<exists>v. node_version ''v1.6.4-PoM'' = Some v \<and> \<not> version_less v (1, 6, 4)"
proof -
  obtain r cells calls where g: "get_ai_providers sample_providers (cell_new 30000) (cell_new 3000) = (r, cells, calls)"
    by (metis prod_cases3)
  have "\<not> too_old ''v1.6.4-PoM''"
    by (simp add: too_old_def sample_version SERVICE_PROVIDERS_MIN_NODE_def version_less_def)
  then have "''get_service_providers'' \<in> set calls"
    using g by (auto simp: get_ai_providers_def sample_providers_def fresh_def cell_new_def get_or_try_init_def
        cell_store_def split: sum.splits)
  then show ?thesis
    using providers_gate [OF g] by (auto simp: sample_providers_def fresh_def cell_new_def)
qed

end
