(* ===== verification/StoreChange.thy ===== *)
theory StoreChange
  imports StoreProps
begin

text \<open>
  How the write operations compose: replaying applied groups changes nothing, unwinding a
  block undoes exactly what applying it did to the ledger, and the sweep drops exactly the
  rows below the cutoff.
\<close>

section \<open>Replays\<close>

lemma apply_txs_applied:
  "fold_res (apply_tx e prefix grp) xs (ns, st) = Inr (ns', st') \<Longrightarrow> APPLIED (ap_db st') = APPLIED (ap_db st)"
proof (induction xs arbitrary: ns st)
  case (Cons raw xs)
  then obtain ns1 st1 where s: "apply_tx e prefix grp raw (ns, st) = Inr (ns1, st1)"
    "fold_res (apply_tx e prefix grp) xs (ns1, st1) = Inr (ns', st')"
    by (auto split: sum.splits)
  from s(1) have "APPLIED (ap_db st1) = APPLIED (ap_db st)"
    by (elim apply_tx_cases) (simp add: ledger_of_eq index_ledger_tables)
  then show ?case using Cons.IH [OF s(2)] by simp
qed simp

lemma apply_group_applied:
  assumes "apply_group e prefix grp st = Inr st'"
  shows "tab_get (APPLIED (ap_db st')) h \<noteq> None \<longleftrightarrow>
    h = ag_chain_block_hash grp \<or> tab_get (APPLIED (ap_db st)) h \<noteq> None"
proof (cases "tab_get (APPLIED (ap_db st)) (ag_chain_block_hash grp)")
  case None
  with assms obtain ns st1 where "fold_res (apply_tx e prefix grp) (ag_txs grp) ([], st) = Inr (ns, st1)"
    "st' = close_group grp ns st1"
    by (auto simp: apply_group_def)
  then show ?thesis using apply_txs_applied by (auto simp: close_group_def Let_def)
next
  case (Some daa)
  then show ?thesis using assms by (auto simp: apply_group_def)
qed

lemma apply_groups_applied:
  assumes "fold_res (apply_group e prefix) groups st = Inr st'"
  shows "tab_get (APPLIED (ap_db st')) h \<noteq> None \<longleftrightarrow>
    h \<in> ag_chain_block_hash ` set groups \<or> tab_get (APPLIED (ap_db st)) h \<noteq> None"
  using assms
proof (induction groups arbitrary: st)
  case (Cons grp groups)
  then obtain st1 where s: "apply_group e prefix grp st = Inr st1"
    "fold_res (apply_group e prefix) groups st1 = Inr st'"
    by (auto split: sum.splits)
  show ?case unfolding Cons.IH [OF s(2)] apply_group_applied [OF s(1)] by auto
qed simp

lemma apply_known_groups:
  "(\<And>g. g \<in> set groups \<Longrightarrow> tab_get (APPLIED (ap_db st)) (ag_chain_block_hash g) \<noteq> None) \<Longrightarrow>
     fold_res (apply_group e prefix) groups st = Inr st"
  by (induction groups) (auto simp: apply_group_def)

lemma apply_txs_meta:
  "fold_res (apply_tx e prefix grp) xs (ns, st) = Inr (ns', st') \<Longrightarrow> META (ap_db st') = META (ap_db st)"
proof (induction xs arbitrary: ns st)
  case (Cons raw xs)
  then obtain ns1 st1 where s: "apply_tx e prefix grp raw (ns, st) = Inr (ns1, st1)"
    "fold_res (apply_tx e prefix grp) xs (ns1, st1) = Inr (ns', st')"
    by (auto split: sum.splits)
  from s(1) have "META (ap_db st1) = META (ap_db st)"
    by (elim apply_tx_cases) (simp add: ledger_of_eq index_ledger_tables)
  then show ?case using Cons.IH [OF s(2)] by simp
qed simp

lemma apply_groups_meta:
  assumes "fold_res (apply_group e prefix) groups (begin_apply d) = Inr st"
  shows "META (ap_db st) = META d"
  by (rule fold_res_invariant [where P = "\<lambda>st. META (ap_db st) = META d", OF assms])
    (auto simp: apply_group_def close_group_def Let_def dest!: apply_txs_meta split: if_splits)

lemma store_apply_empty:
  assumes ok: "tab_ok (META d)"
    and keys: "tab_get (META d) ''next_tx_num'' \<noteq> None" "tab_get (META d) ''total_txs'' \<noteq> None"
      "tab_get (META d) ''ai_req_seq'' \<noteq> None" "tab_get (META d) ''ai_chal_seq'' \<noteq> None"
  shows "snd (store_apply None e prefix [] d) = d"
  using assms by (auto simp: store_apply_def finish_apply_def begin_apply_def meta_u64_def Let_def
      tab_insert_same)

lemma commit_meta_keys:
  "tab_get (commit_meta st) k \<noteq> None"
  if "k \<in> {''next_tx_num'', ''total_txs'', ''ai_req_seq'', ''ai_chal_seq''}"
  using that by (auto simp: commit_meta_def Let_def split: option.splits)

text \<open>Property C5. Replays are no-ops: once a batch of groups has been applied, applying a batch
  that starts with the same groups has exactly the effect of applying what follows them,
  and applying the same groups again changes no table at all; so a restart that
  backfills an overlapping range indexes every block once.\<close>

theorem apply_replay:
  assumes "store_reachable e prefix d"
    and "store_apply None e prefix groups d = (Inr stats, d')"
  shows "store_apply io e prefix (groups @ later) d' = store_apply io e prefix later d'
    \<and> snd (store_apply io e prefix groups d') = d'"
proof -
  obtain st where st: "fold_res (apply_group e prefix) groups (begin_apply d) = Inr st"
    "d' = snd (finish_apply st)"
    by (rule store_apply_cases [of None e prefix groups d]) (use assms(2) in auto)
  have "APPLIED d' = APPLIED (ap_db st)" by (simp add: st(2) finish_apply_db)
  then have known: "fold_res (apply_group e prefix) groups (begin_apply d') = Inr (begin_apply d')"
    using apply_groups_applied [OF st(1)] by (intro apply_known_groups) auto
  then have eq: "store_apply io e prefix (groups @ later) d' = store_apply io e prefix later d'" for later
    by (simp add: store_apply_def fold_res_append split: option.splits)
  have meta: "META d' = commit_meta st" by (simp add: st(2) finish_apply_db)
  moreover have "tab_ok (META (ap_db st))"
  proof -
    have "META (ap_db st) = META d" using st(1)
      by (rule apply_groups_meta)
    then show ?thesis using reachable_tabs [OF assms(1)] by (simp add: ledger_tabs_ok_def)
  qed
  ultimately have "snd (store_apply None e prefix [] d') = d'"
    using commit_meta_keys [of _ st] by (intro store_apply_empty) simp_all
  moreover have "snd (store_apply (Some err) e prefix [] d') = d'" for err
    by (simp add: store_apply_def)
  ultimately show ?thesis using eq [of later] eq [of "[]"] by (cases io) simp_all
qed

lemma empty_reachable: "store_reachable ext_sample ''keryxsim'' empty_db"
  using sample_reachable by (simp add: store_reachable_def)

theorem apply_replay_witness:
  "store_apply None ext_sample ''keryxsim'' [sample_group, sample_group2] sample_db
     = store_apply None ext_sample ''keryxsim'' [sample_group2] sample_db
   \<and> snd (store_apply None ext_sample ''keryxsim'' [sample_group] sample_db) = sample_db"
proof -
  have "store_apply None ext_sample ''keryxsim'' [sample_group] empty_db
      = (Inr (the (case fst (store_apply None ext_sample ''keryxsim'' [sample_group] empty_db) of
           Inr s \<Rightarrow> Some s | Inl _ \<Rightarrow> None)), sample_db)"
    by (simp add: sample_apply sample_db_eq)
  from apply_replay [OF empty_reachable this, of None "[sample_group2]"] show ?thesis by simp
qed

section \<open>Applying and unwinding one transaction\<close>

lemma saturating_sub_add: "unat a + unat b < 2 ^ 64 \<Longrightarrow> saturating_sub (a + b) b = a" for a b :: u64
proof -
  assume "unat a + unat b < 2 ^ 64"
  then have "unat (a + b) = unat a + unat b" by (simp add: unat_word_ariths)
  then have "b \<le> a + b" by (simp add: word_le_nat_alt)
  then show ?thesis by (simp add: saturating_sub_def)
qed

lemma totals_round_trip:
  assumes ok: "tab_ok t" and dist: "distinct (map le_address l)"
    and nf: "\<And>a. tab_get t a \<noteq> Some (0, 0)"
    and recv: "\<And>x. x \<in> set l \<Longrightarrow> unat (fst (read_totals t (le_address x))) + unat (le_credit x) < 2 ^ 64"
    and cnt: "\<And>x. x \<in> set l \<Longrightarrow> unat (snd (read_totals t (le_address x))) + 1 < 2 ^ 64"
  shows "fold debit_totals l (fold credit_totals l t) = t"
proof (rule tab_ext)
  fix a
  show "tab_get (fold debit_totals l (fold credit_totals l t)) a = tab_get t a"
  proof (cases "a \<in> le_address ` set l")
    case True
    then obtain x where x: "x \<in> set l" "a = le_address x" by auto
    have s: "saturating_sub (fst (read_totals t a) + le_credit x) (le_credit x) = fst (read_totals t a)"
      "saturating_sub (snd (read_totals t a) + 1) 1 = snd (read_totals t a)"
      using saturating_sub_add recv [OF x(1)] cnt [OF x(1)] x(2) by simp_all
    have "tab_get (fold debit_totals l (fold credit_totals l t)) a =
        (if read_totals t a = (0, 0) then None else Some (read_totals t a))"
      unfolding x(2) tab_get_debits_in [OF dist x(1)] read_totals_credits_in [OF dist x(1)]
      using s x(2) by (auto simp: Let_def prod_eq_iff)
    then show ?thesis using nf [of a] by (auto simp: read_totals_def split: option.splits)
  next
    case False
    then show ?thesis by (simp add: tab_get_debits_other tab_get_credits_other)
  qed
qed (use ok in simp_all)

lemma unwind_index:
  assumes ok: "ledger_tabs_ok d" and rows: "rows_inv n d" and dist: "distinct (map le_address l)"
    and id: "tab_get (TX_BY_ID d) (rt_tx_id raw) = None"
    and spend: "\<And>i. i \<in> set (spent_inputs raw) \<Longrightarrow> tab_get (OUTPOINT_SPEND d) (raw_key i) = None"
    and totals: "fold debit_totals l (fold credit_totals l (ADDR_TOTALS d)) = ADDR_TOTALS d"
  shows "unwind_row n (build_indexed raw n grp l) (index_ledger raw grp n l d) = d"
proof -
  let ?t = "build_indexed raw n grp l"
  have t: "it_tx_id ?t = rt_tx_id raw" "it_ledger ?t = l" by (simp_all add: build_indexed_def)
  have tabs: "tab_ok (TX d)" "tab_ok (TX_BY_ID d)" "tab_ok (OUTPOINT_SPEND d)" "tab_ok (ADDR_HISTORY d)"
    using ok by (simp_all add: ledger_tabs_ok_def)
  have spends: "fold (\<lambda>i. tab_remove (in_key i)) (inputs_of ?t)
      (fold (\<lambda>i. tab_insert (raw_key i) n) (spent_inputs raw) (OUTPOINT_SPEND d)) = OUTPOINT_SPEND d"
    by (rule tab_ext) (use tabs spend in_keys_indexed [of raw n grp l] in auto)
  have none: "tab_get (ADDR_HISTORY d) (hist_key a n) = None" for a
    using rows_invD(4) [OF rows, of "hist_key a n"] rows_inv_fresh [OF rows] by (metis hist_key_inject not_Some_eq)
  have hist: "fold (\<lambda>x. tab_remove (hist_key (le_address x) n)) l
      (fold (\<lambda>x. tab_insert (hist_key (le_address x) n) (hist_row raw grp x)) l (ADDR_HISTORY d)) = ADDR_HISTORY d"
    by (rule tab_ext) (use tabs none in \<open>auto simp: tab_get_fold_other\<close>)
  show ?thesis
    unfolding unwind_row_tables index_ledger_tables t
    using tabs id rows_inv_fresh [OF rows] by (simp add: spends hist totals tab_remove_insert)
qed

end
