(* ===== verification/StoreReorg.thy ===== *)
theory StoreReorg
  imports StoreChange
begin

text \<open>
  A reorganisation: unwinding a chain block after applying it restores the ledger tables
  and the total counter exactly, provided its transactions were new to the index.
\<close>

section \<open>The tables a transaction writes\<close>

definition txs_of :: "db \<Rightarrow> db" where
  "txs_of d = empty_db\<lparr> TX := TX d, TX_BY_ID := TX_BY_ID d, ADDR_HISTORY := ADDR_HISTORY d,
     OUTPOINT_SPEND := OUTPOINT_SPEND d, ADDR_TOTALS := ADDR_TOTALS d \<rparr>"

lemma txs_of_sel [simp]:
  "TX (txs_of d) = TX d" "TX_BY_ID (txs_of d) = TX_BY_ID d" "ADDR_HISTORY (txs_of d) = ADDR_HISTORY d"
  "OUTPOINT_SPEND (txs_of d) = OUTPOINT_SPEND d" "ADDR_TOTALS (txs_of d) = ADDR_TOTALS d"
  by (simp_all add: txs_of_def)

lemma txs_of_idem [simp]: "txs_of (txs_of d) = txs_of d"
  by (simp add: txs_of_def)

lemma txs_of_ledger: "ledger_of d = ledger_of d' \<Longrightarrow> txs_of d = txs_of d'"
  by (simp add: txs_of_def ledger_of_eq)

lemma txs_of_unwind_row: "txs_of (unwind_row n t d) = unwind_row n t (txs_of d)"
  by (simp add: unwind_row_tables txs_of_def empty_db_def)

lemma txs_of_unwind_tx: "unwind_tx n (txs_of d, tot, r) = apfst txs_of (unwind_tx n (d, tot, r))"
  by (simp add: unwind_tx_def txs_of_unwind_row split: option.splits)

lemma txs_of_unwind_txs:
  "fold unwind_tx ns (txs_of d, tot, r) = apfst txs_of (fold unwind_tx ns (d, tot, r))"
proof (induction ns arbitrary: d tot r)
  case (Cons n ns)
  obtain d1 tot1 r1 where "unwind_tx n (d, tot, r) = (d1, tot1, r1)" by (metis prod_cases3)
  then show ?case using Cons.IH [of d1 tot1 r1] by (simp add: txs_of_unwind_tx)
qed simp

lemma unwind_txs_frame:
  "fold unwind_tx ns (d, tot, r) = (d', tot', r') \<Longrightarrow>
     APPLIED d' = APPLIED d \<and> ACCEPTED_BY d' = ACCEPTED_BY d \<and> CHAIN_BY_DAA d' = CHAIN_BY_DAA d
     \<and> META d' = META d"
proof (induction ns arbitrary: d tot r)
  case (Cons n ns)
  obtain d1 tot1 r1 where s: "unwind_tx n (d, tot, r) = (d1, tot1, r1)" by (metis prod_cases3)
  then have "APPLIED d1 = APPLIED d \<and> ACCEPTED_BY d1 = ACCEPTED_BY d \<and> CHAIN_BY_DAA d1 = CHAIN_BY_DAA d
      \<and> META d1 = META d"
    by (auto simp: unwind_tx_def unwind_row_tables split: option.splits)
  then show ?case using Cons.IH [of d1 tot1 r1] Cons.prems s by simp
qed simp

section \<open>New transactions\<close>

definition out_sum :: "RawTx \<Rightarrow> nat" where
  "out_sum raw = sum_list (map (unat \<circ> ro_amount) (rt_outputs raw))"

definition spent_keys :: "RawTx \<Rightarrow> bytes list" where
  "spent_keys raw = map raw_key (spent_inputs raw)"

text \<open>
  Transactions new to the index: ids and spent outpoints are not indexed yet and not
  repeated, and the amounts received do not exceed 64 bits.
\<close>

definition fresh_txs :: "db \<Rightarrow> RawTx list \<Rightarrow> bool" where
  "fresh_txs d xs =
     (distinct (map rt_tx_id xs) \<and> list_all (\<lambda>raw. tab_get (TX_BY_ID d) (rt_tx_id raw) = None) xs
      \<and> distinct (concat (map spent_keys xs))
      \<and> list_all (\<lambda>k. tab_get (OUTPOINT_SPEND d) k = None) (concat (map spent_keys xs))
      \<and> (\<forall>a. unat (fst (read_totals (ADDR_TOTALS d) a)) + sum_list (map out_sum xs) < 2 ^ 64))"

lemma unat_add_le: "unat (a + b) \<le> unat a + unat b" for a b :: u64
  by (simp add: unat_word_ariths)

lemma amounts_to_le:
  "unat (amounts_to (credit_of prefix) outs a) \<le> sum_list (map (unat \<circ> ro_amount) outs)"
proof (induction outs)
  case (Cons out outs)
  have "unat (ro_amount out + amounts_to (credit_of prefix) outs a)
      \<le> unat (ro_amount out) + sum_list (map (unat \<circ> ro_amount) outs)"
    using unat_add_le [of "ro_amount out" "amounts_to (credit_of prefix) outs a"] Cons by linarith
  moreover have "credit_of prefix out = None \<or> (\<exists>b. credit_of prefix out = Some (b, ro_amount out))"
    by (auto simp: credit_of_def split: sum.splits option.splits)
  ultimately show ?case using Cons by (auto simp: comp_def)
qed simp

lemma credit_le_out_sum:
  assumes "ext_ok e" "compute_ledger e raw prefix txid_t tx_t = Inr l" "x \<in> set l"
  shows "unat (le_credit x) \<le> out_sum raw"
  using compute_ledger_entry [OF assms(1,2), of x] assms(3)
    amounts_to_le [of prefix "rt_outputs raw" "le_address x"]
  by (simp add: out_sum_def)

lemma fresh_txs_step:
  assumes fresh: "fresh_txs d (raw # xs)" and dist: "distinct (map le_address l)"
    and credit: "\<And>x. x \<in> set l \<Longrightarrow> unat (le_credit x) \<le> out_sum raw"
  shows "fresh_txs (index_ledger raw grp n l d) xs"
proof -
  let ?d = "index_ledger raw grp n l d"
  have "unat (fst (read_totals (ADDR_TOTALS ?d) a)) + sum_list (map out_sum xs) < 2 ^ 64" for a
  proof (cases "a \<in> le_address ` set l")
    case True
    then obtain x where x: "x \<in> set l" "a = le_address x" by auto
    have "unat (fst (read_totals (ADDR_TOTALS ?d) a))
        \<le> unat (fst (read_totals (ADDR_TOTALS d) a)) + out_sum raw"
      using read_totals_credits_in [OF dist x(1), of "ADDR_TOTALS d"] x(2) credit [OF x(1)]
        unat_add_le [of "fst (read_totals (ADDR_TOTALS d) a)" "le_credit x"]
      by (simp add: index_ledger_tables)
    moreover have "unat (fst (read_totals (ADDR_TOTALS d) a)) + (out_sum raw + sum_list (map out_sum xs)) < 2 ^ 64"
      using fresh by (simp add: fresh_txs_def)
    ultimately show ?thesis by linarith
  next
    case False
    have "unat (fst (read_totals (ADDR_TOTALS d) a)) + (out_sum raw + sum_list (map out_sum xs)) < 2 ^ 64"
      using fresh by (simp add: fresh_txs_def)
    then show ?thesis using False by (simp add: index_ledger_tables read_totals_credits_other)
  qed
  moreover have "list_all (\<lambda>k. tab_get (OUTPOINT_SPEND ?d) k = None) (concat (map spent_keys xs))"
    unfolding list_all_iff
  proof
    fix k assume k: "k \<in> set (concat (map spent_keys xs))"
    then have "k \<notin> set (spent_keys raw)" "tab_get (OUTPOINT_SPEND d) k = None"
      using fresh by (auto simp: fresh_txs_def list_all_iff)
    then show "tab_get (OUTPOINT_SPEND ?d) k = None" by (simp add: index_ledger_tables spent_keys_def)
  qed
  moreover have "list_all (\<lambda>r. tab_get (TX_BY_ID ?d) (rt_tx_id r) = None) xs"
    using fresh by (auto simp: fresh_txs_def index_ledger_tables list_all_iff) (metis image_eqI)
  ultimately show ?thesis using fresh by (simp add: fresh_txs_def)
qed

section \<open>The round trip of a group\<close>

lemma unwind_one:
  assumes inv: "ledger_inv n tot d" and wrap: "n < n + 1" and fresh: "fresh_txs d (raw # xs)"
    and dist: "distinct (map le_address l)"
    and credit: "\<And>x. x \<in> set l \<Longrightarrow> unat (le_credit x) \<le> out_sum raw"
  shows "unwind_tx n (txs_of (index_ledger raw grp n l d), tot + 1, r) = (txs_of d, tot, r + 1)"
proof -
  let ?t = "build_indexed raw n grp l"
  have parts: "ledger_tabs_ok d" "rows_inv n d" "count_inv n tot d"
    using inv by (simp_all add: ledger_inv_def)
  have "fold debit_totals l (fold credit_totals l (ADDR_TOTALS d)) = ADDR_TOTALS d"
  proof (rule totals_round_trip [OF _ dist])
    show "tab_ok (ADDR_TOTALS d)" using parts(1) by (simp add: ledger_tabs_ok_def)
    show "tab_get (ADDR_TOTALS d) a \<noteq> Some (0, 0)" for a using parts(3) by (simp add: count_inv_def)
    fix x assume x: "x \<in> set l"
    have "unat (fst (read_totals (ADDR_TOTALS d) (le_address x))) + (out_sum raw + sum_list (map out_sum xs)) < 2 ^ 64"
      using fresh by (simp add: fresh_txs_def)
    then show "unat (fst (read_totals (ADDR_TOTALS d) (le_address x))) + unat (le_credit x) < 2 ^ 64"
      using credit [OF x] by linarith
    have "snd (read_totals (ADDR_TOTALS d) (le_address x)) \<le> n" using parts(3) by (simp add: count_inv_def)
    from unat_Suc [OF le_succ [OF this wrap]]
    show "unat (snd (read_totals (ADDR_TOTALS d) (le_address x))) + 1 < 2 ^ 64"
      using unsigned_less [of "snd (read_totals (ADDR_TOTALS d) (le_address x)) + 1", where ?'a = nat] by simp
  qed
  moreover have "tab_get (OUTPOINT_SPEND d) (raw_key i) = None" if "i \<in> set (spent_inputs raw)" for i
    using fresh that by (auto simp: fresh_txs_def spent_keys_def list_all_iff)
  ultimately have "unwind_row n ?t (index_ledger raw grp n l d) = d"
    using parts fresh by (intro unwind_index [OF _ _ dist]) (simp_all add: fresh_txs_def)
  moreover have "saturating_sub (tot + 1) 1 = tot"
  proof -
    have "tot \<le> n" using parts(3) by (simp add: count_inv_def)
    from unat_Suc [OF le_succ [OF this wrap]] show ?thesis
      using unsigned_less [of "tot + 1", where ?'a = nat] by (intro saturating_sub_add) simp
  qed
  moreover have "tab_get (TX (index_ledger raw grp n l d)) n = Some ?t" by (simp add: index_ledger_tables)
  ultimately show ?thesis by (simp add: unwind_tx_def flip: txs_of_unwind_row)
qed

lemma unwind_applied_txs:
  assumes env: "ext_ok e" "ascii_text prefix"
    and "fold_res (apply_tx e prefix grp) xs (ns, st) = Inr (ns', st')"
    and "ledger_inv (ap_next_tx_num st) (ap_total_txs st) (ap_db st)"
    and "fresh_txs (ap_db st) xs"
    and "unat (ap_next_tx_num st) + length xs < 2 ^ 64"
  shows "\<exists>new. ns' = ns @ new \<and> length new = length xs
    \<and> (\<forall>r. fold unwind_tx (rev new) (txs_of (ap_db st'), ap_total_txs st', r)
           = (txs_of (ap_db st), ap_total_txs st, r + word_of_nat (length new)))"
  using assms(3-)
proof (induction xs arbitrary: ns st)
  case Nil
  then show ?case by simp
next
  case (Cons raw xs)
  then obtain ns1 st1 where s: "apply_tx e prefix grp raw (ns, st) = Inr (ns1, st1)"
    "fold_res (apply_tx e prefix grp) xs (ns1, st1) = Inr (ns', st')"
    by (auto split: sum.splits)
  let ?n = "ap_next_tx_num st"
  from s(1) obtain l where l: "compute_ledger e raw prefix (TX_BY_ID (ap_db st)) (TX (ap_db st)) = Inr l"
    "ns1 = ns @ [?n]" "ledger_of (ap_db st1) = ledger_of (index_ledger raw grp ?n l (ap_db st))"
    "ap_next_tx_num st1 = ?n + 1" "ap_total_txs st1 = ap_total_txs st + 1"
    by (rule apply_tx_cases)
  have "?n \<noteq> - 1" using Cons.prems(4) by (auto simp: unsigned_minus_1_eq_mask mask_eq_exp_minus_1)
  then have wrap: "?n < ?n + 1" by (simp add: less_succ_iff)
  have dist: "distinct (map le_address l)" "list_all (\<lambda>x. utf8_str (le_address x)) l"
    using compute_ledger_distinct [OF env(1) l(1)] compute_ledger_utf8 [OF env l(1)]
    by (auto simp: list_all_iff)
  note credit = credit_le_out_sum [OF env(1) l(1)]
  have inv1: "ledger_inv (?n + 1) (ap_total_txs st + 1) (ap_db st1)"
    unfolding ledger_inv_cong [OF l(3)] using Cons.prems(2) wrap dist by (intro ledger_inv_insert)
  have "fresh_txs (ap_db st1) xs"
    using fresh_txs_step [OF Cons.prems(3) dist(1) credit, of grp ?n] l(3)
    by (simp add: fresh_txs_def ledger_of_eq)
  moreover have "unat (?n + 1) + length xs < 2 ^ 64" using Cons.prems(4) unat_Suc [OF wrap] by simp
  ultimately obtain new where new: "ns' = ns1 @ new" "length new = length xs"
    "\<And>r. fold unwind_tx (rev new) (txs_of (ap_db st'), ap_total_txs st', r)
           = (txs_of (ap_db st1), ap_total_txs st1, r + word_of_nat (length new))"
    using Cons.IH [OF s(2)] inv1 l(4,5) by auto
  have "unwind_tx ?n (txs_of (ap_db st1), ap_total_txs st1, r) = (txs_of (ap_db st), ap_total_txs st, r + 1)" for r
    unfolding txs_of_ledger [OF l(3)] l(5) by (rule unwind_one [OF Cons.prems(2) wrap Cons.prems(3) dist(1) credit])
  then show ?case
    using new l(2) by (intro exI [of _ "?n # new"]) (simp add: ac_simps)
qed

lemma txs_of_finish: "txs_of (snd (finish_apply st)) = txs_of (ap_db st)"
  by (simp add: finish_apply_db txs_of_def)

lemma txs_of_close: "txs_of (ap_db (close_group grp ns st)) = txs_of (ap_db st)"
  by (simp add: close_group_def Let_def txs_of_def)

lemma apply_txs_chain:
  "fold_res (apply_tx e prefix grp) xs (ns, st) = Inr (ns', st') \<Longrightarrow>
     CHAIN_BY_DAA (ap_db st') = CHAIN_BY_DAA (ap_db st) \<and> ACCEPTED_BY (ap_db st') = ACCEPTED_BY (ap_db st)"
proof (induction xs arbitrary: ns st)
  case (Cons raw xs)
  then obtain ns1 st1 where s: "apply_tx e prefix grp raw (ns, st) = Inr (ns1, st1)"
    "fold_res (apply_tx e prefix grp) xs (ns1, st1) = Inr (ns', st')"
    by (auto split: sum.splits)
  from s(1) have "CHAIN_BY_DAA (ap_db st1) = CHAIN_BY_DAA (ap_db st) \<and> ACCEPTED_BY (ap_db st1) = ACCEPTED_BY (ap_db st)"
    by (elim apply_tx_cases) (simp add: ledger_of_eq index_ledger_tables)
  then show ?case using Cons.IH [OF s(2)] by simp
qed simp

text \<open>The committed database after one new group, table by table.\<close>

lemma apply_one_group:
  assumes "store_apply None e prefix [grp] d = (Inr stats, d')"
    and new: "tab_get (APPLIED d) (ag_chain_block_hash grp) = None"
  obtains ns st where "fold_res (apply_tx e prefix grp) (ag_txs grp) ([], begin_apply d) = Inr (ns, st)"
    "txs_of d' = txs_of (ap_db st)" "meta_u64 d' ''total_txs'' = ap_total_txs st"
    "APPLIED d' = tab_insert (ag_chain_block_hash grp) (ag_daa_score grp) (APPLIED d)"
    "ACCEPTED_BY d' = tab_insert (ag_chain_block_hash grp) ns (ACCEPTED_BY d)"
    "CHAIN_BY_DAA d' = tab_insert (chain_key (ag_daa_score grp) (ag_chain_block_hash grp))
       (ag_chain_block_hash grp) (CHAIN_BY_DAA d)"
proof -
  obtain st1 where st1: "fold_res (apply_group e prefix) [grp] (begin_apply d) = Inr st1"
    "d' = snd (finish_apply st1)"
    by (rule store_apply_cases [of None e prefix "[grp]" d]) (use assms(1) in auto)
  from st1(1) new obtain ns st where st: "fold_res (apply_tx e prefix grp) (ag_txs grp) ([], begin_apply d) = Inr (ns, st)"
    "st1 = close_group grp ns st"
    by (auto simp: apply_group_def split: sum.splits)
  show ?thesis
    using apply_txs_applied [OF st(1)] apply_txs_chain [OF st(1)]
    by (intro that [OF st(1)])
      (simp_all add: st1(2) st(2) txs_of_finish txs_of_close meta_after_apply,
        simp_all add: finish_apply_db close_group_def Let_def)
qed

text \<open>Property C2. A reorganisation is undone exactly: unwinding a chain block right after
  applying it restores every ledger table (transactions, ids, histories, spends, address
  totals, chain blocks) and the total counter, and reports the number of its transactions,
  provided the block and its transactions were new to the index and no sum exceeds 64
  bits.\<close>

theorem unwind_undoes_apply:
  assumes reach: "store_reachable e prefix d"
    and app: "store_apply None e prefix [grp] d = (Inr stats, d')"
    and new: "tab_get (APPLIED d) (ag_chain_block_hash grp) = None" "fresh_txs d (ag_txs grp)"
    and wrap: "unat (meta_u64 d ''next_tx_num'') + length (ag_txs grp) < 2 ^ 64"
  shows "\<exists>d''. unwind_chain_block None (ag_chain_block_hash grp) d'
      = (Inr (word_of_nat (length (ag_txs grp))), d'')
    \<and> txs_of d'' = txs_of d \<and> APPLIED d'' = APPLIED d \<and> ACCEPTED_BY d'' = ACCEPTED_BY d
    \<and> CHAIN_BY_DAA d'' = CHAIN_BY_DAA d \<and> total_txs None d'' = total_txs None d"
proof -
  let ?h = "ag_chain_block_hash grp"
  obtain ns st where st: "fold_res (apply_tx e prefix grp) (ag_txs grp) ([], begin_apply d) = Inr (ns, st)"
    "txs_of d' = txs_of (ap_db st)" "meta_u64 d' ''total_txs'' = ap_total_txs st"
    "APPLIED d' = tab_insert ?h (ag_daa_score grp) (APPLIED d)"
    "ACCEPTED_BY d' = tab_insert ?h ns (ACCEPTED_BY d)"
    "CHAIN_BY_DAA d' = tab_insert (chain_key (ag_daa_score grp) ?h) ?h (CHAIN_BY_DAA d)"
    using apply_one_group [OF app new(1)] by blast
  have env: "ext_ok e" "ascii_text prefix" using reach by (simp_all add: store_reachable_def store_env_def)
  have inv: "ledger_inv (meta_u64 d ''next_tx_num'') (meta_u64 d ''total_txs'') d"
    using reachable_inv [OF reach] by (simp add: store_inv_def)
  obtain d1 tot1 r1 where f: "fold unwind_tx (rev ns) (d', ap_total_txs st, 0) = (d1, tot1, r1)"
    by (metis prod_cases3)
  have "fold unwind_tx (rev ns) (txs_of (ap_db st), ap_total_txs st, 0)
      = (txs_of d, meta_u64 d ''total_txs'', word_of_nat (length (ag_txs grp)))"
    using unwind_applied_txs [OF env st(1)] inv new(2) wrap by force
  then have r: "txs_of d1 = txs_of d" "tot1 = meta_u64 d ''total_txs''" "r1 = word_of_nat (length (ag_txs grp))"
    using txs_of_unwind_txs [of "rev ns" d' "ap_total_txs st" 0] f st(2) by simp_all
  note frame = unwind_txs_frame [OF f]
  have ok: "tab_ok (APPLIED d)" "tab_ok (ACCEPTED_BY d)" "tab_ok (CHAIN_BY_DAA d)"
    using reachable_tabs [OF reach] by (simp_all add: ledger_tabs_ok_def)
  have none: "tab_get (ACCEPTED_BY d) ?h = None" "tab_get (CHAIN_BY_DAA d) (chain_key (ag_daa_score grp) ?h) = None"
    using inv new(1) by (auto simp: ledger_inv_def chain_inv_def)
      (metis chain_key_inject not_Some_eq option.distinct(1))
  show ?thesis
    using r frame st ok none new(1) f
    by (simp add: unwind_chain_block_def tab_remove_insert total_txs_def meta_u64_def txs_of_def)
qed

theorem unwind_undoes_apply_witness:
  "\<exists>d''. unwind_chain_block None ''b2'' sample_db2 = (Inr 1, d'')
     \<and> txs_of d'' = txs_of sample_db \<and> total_txs None d'' = total_txs None sample_db"
proof -
  have app: "store_apply None ext_sample ''keryxsim'' [sample_group2] sample_db
      = (Inr (the (case fst (store_apply None ext_sample ''keryxsim'' [sample_group2] sample_db) of
           Inr s \<Rightarrow> Some s | Inl _ \<Rightarrow> None)), sample_db2)"
    by (simp add: sample_apply2 sample_db2_simps)
  have h: "ag_chain_block_hash sample_group2 = ''b2''" "length (ag_txs sample_group2) = 1"
    by (simp_all add: sample_group2_def)
  have new: "tab_get (APPLIED sample_db) (ag_chain_block_hash sample_group2) = None"
    by (simp add: h sample_db_eq tab_get_def)
  have "unat (fst (read_totals (ADDR_TOTALS sample_db) a)) < 2 ^ 64" for a
    using unsigned_less [of "fst (read_totals (ADDR_TOTALS sample_db) a)", where ?'a = nat] by simp
  then have fresh: "fresh_txs sample_db (ag_txs sample_group2)"
    by (simp add: fresh_txs_def sample_group2_def out_sum_def spent_keys_def spent_inputs_def
        sample_tx_def sample_db_eq tab_get_def empty_db_def)
  have wrap: "unat (meta_u64 sample_db ''next_tx_num'') + length (ag_txs sample_group2) < 2 ^ 64"
    by (simp add: h sample_db_eq meta_u64_def tab_get_def)
  from unwind_undoes_apply [OF sample_reachable app new fresh wrap] show ?thesis by (auto simp: h)
qed

end
