(* ===== verification/StoreLookup.thy ===== *)
theory StoreLookup
  imports StoreReorg
begin

text \<open>What was applied is found: lookups after an apply return the transactions handed in.\<close>

definition found :: "db \<Rightarrow> AcceptedGroup \<Rightarrow> RawTx \<Rightarrow> bool" where
  "found d grp raw =
     (\<exists>n l. tab_get (TX_BY_ID d) (rt_tx_id raw) = Some n \<and> tab_get (TX d) n = Some (build_indexed raw n grp l)
        \<and> list_all (\<lambda>k. tab_get (OUTPOINT_SPEND d) k = Some n) (spent_keys raw))"

lemma found_new: "found (index_ledger raw grp n l d) grp raw"
  by (auto simp: found_def index_ledger_tables spent_keys_def list_all_iff)

lemma found_old:
  assumes "found d grp raw" "rt_tx_id raw \<noteq> rt_tx_id raw'" "set (spent_keys raw) \<inter> set (spent_keys raw') = {}"
    and "tab_get (TX d) n = None"
  shows "found (index_ledger raw' grp n l d) grp raw"
proof -
  obtain m l' where m: "tab_get (TX_BY_ID d) (rt_tx_id raw) = Some m"
    "tab_get (TX d) m = Some (build_indexed raw m grp l')"
    "\<And>k. k \<in> set (spent_keys raw) \<Longrightarrow> tab_get (OUTPOINT_SPEND d) k = Some m"
    using assms(1) by (auto simp: found_def list_all_iff)
  have "m \<noteq> n" using m(2) assms(4) by auto
  moreover have "k \<notin> raw_key ` set (spent_inputs raw')" if "k \<in> set (spent_keys raw)" for k
    using that assms(3) by (auto simp: spent_keys_def)
  ultimately show ?thesis
    unfolding found_def list_all_iff using m assms(2)
    by (intro exI [of _ m] exI [of _ l']) (simp add: index_ledger_tables)
qed

lemma found_cong: "ledger_of d = ledger_of d' \<Longrightarrow> found d grp raw = found d' grp raw"
  by (simp add: found_def ledger_of_eq)

lemma apply_txs_found:
  assumes env: "ext_ok e" "ascii_text prefix"
    and "fold_res (apply_tx e prefix grp) xs (ns, st) = Inr (ns', st')"
    and "ledger_inv (ap_next_tx_num st) (ap_total_txs st) (ap_db st)"
    and "unat (ap_next_tx_num st) + length xs < 2 ^ 64"
    and "distinct (map rt_tx_id (old @ xs))" "distinct (concat (map spent_keys (old @ xs)))"
    and "\<And>raw. raw \<in> set old \<Longrightarrow> found (ap_db st) grp raw"
    and "raw \<in> set (old @ xs)"
  shows "found (ap_db st') grp raw"
  using assms(3-)
proof (induction xs arbitrary: ns st old)
  case Nil
  then show ?case by simp
next
  case (Cons x xs)
  then obtain ns1 st1 where s: "apply_tx e prefix grp x (ns, st) = Inr (ns1, st1)"
    "fold_res (apply_tx e prefix grp) xs (ns1, st1) = Inr (ns', st')"
    by (auto split: sum.splits)
  let ?n = "ap_next_tx_num st"
  from s(1) obtain l where l: "compute_ledger e x prefix (TX_BY_ID (ap_db st)) (TX (ap_db st)) = Inr l"
    "ns1 = ns @ [?n]" "ledger_of (ap_db st1) = ledger_of (index_ledger x grp ?n l (ap_db st))"
    "ap_next_tx_num st1 = ?n + 1" "ap_total_txs st1 = ap_total_txs st + 1"
    by (rule apply_tx_cases)
  have "?n \<noteq> - 1" using Cons.prems(3) by (auto simp: unsigned_minus_1_eq_mask mask_eq_exp_minus_1)
  then have wrap: "?n < ?n + 1" by (simp add: less_succ_iff)
  have dist: "distinct (map le_address l)" "list_all (\<lambda>x. utf8_str (le_address x)) l"
    using compute_ledger_distinct [OF env(1) l(1)] compute_ledger_utf8 [OF env l(1)]
    by (auto simp: list_all_iff)
  have inv1: "ledger_inv (?n + 1) (ap_total_txs st + 1) (ap_db st1)"
    unfolding ledger_inv_cong [OF l(3)] using Cons.prems(2) wrap dist by (intro ledger_inv_insert)
  have fresh: "tab_get (TX (ap_db st)) ?n = None"
    using Cons.prems(2) rows_inv_fresh by (simp add: ledger_inv_def)
  have "found (ap_db st1) grp r" if "r \<in> set (old @ [x])" for r
  proof (cases "r \<in> set old")
    case True
    then have "rt_tx_id r \<noteq> rt_tx_id x" "set (spent_keys r) \<inter> set (spent_keys x) = {}"
      using Cons.prems(4,5) by (auto simp: image_iff)
    then show ?thesis unfolding found_cong [OF l(3)] using Cons.prems(6) True fresh by (intro found_old)
  next
    case False
    then show ?thesis unfolding found_cong [OF l(3)] using that found_new by auto
  qed
  moreover have "unat (?n + 1) + length xs < 2 ^ 64" using Cons.prems(3) unat_Suc [OF wrap] by simp
  ultimately show ?case
    using Cons.IH [OF s(2), of "old @ [x]"] inv1 l(4,5) Cons.prems(4,5,7) by simp
qed

lemma found_txs_of: "txs_of d = txs_of d' \<Longrightarrow> found d grp raw = found d' grp raw"
  unfolding found_def by (metis txs_of_sel)

lemma checkpoint_after_apply:
  assumes "store_apply None e prefix [grp] d = (Inr stats, d')"
    and "tab_get (APPLIED d) (ag_chain_block_hash grp) = None"
  shows "checkpoint None d' = Inr (Some \<lparr> ck_chain_block_hash = ag_chain_block_hash grp,
    ck_daa_score = ag_daa_score grp \<rparr>)"
  using assms by (auto simp: store_apply_def apply_group_def close_group_def finish_apply_def Let_def
      checkpoint_def split: sum.splits)

text \<open>What was applied is found: after a new chain block is applied, each of its
  transactions is returned by its id with all the fields handed in and the block that
  accepted it, each outpoint it spends is reported with it as the spender, and the
  checkpoint is that block, ready for the next start.\<close>

theorem apply_then_lookup:
  assumes reach: "store_reachable e prefix d"
    and app: "store_apply None e prefix [grp] d = (Inr stats, d')"
    and new: "tab_get (APPLIED d) (ag_chain_block_hash grp) = None"
    and wrap: "unat (meta_u64 d ''next_tx_num'') + length (ag_txs grp) < 2 ^ 64"
    and dist: "distinct (map rt_tx_id (ag_txs grp))" "distinct (concat (map spent_keys (ag_txs grp)))"
    and raw: "raw \<in> set (ag_txs grp)"
  shows "(\<exists>n l. tx_by_id None (rt_tx_id raw) d' = Inr (Some (build_indexed raw n grp l))
            \<and> (\<forall>i\<in>set (spent_inputs raw). spend_of None (ri_previous_tx_id i) (ri_previous_index i) d'
                 = Inr (Some (build_indexed raw n grp l))))
    \<and> is_applied None (ag_chain_block_hash grp) d' = Inr True
    \<and> checkpoint None d' = Inr (Some \<lparr> ck_chain_block_hash = ag_chain_block_hash grp,
        ck_daa_score = ag_daa_score grp \<rparr>)"
proof -
  obtain ns st where st: "fold_res (apply_tx e prefix grp) (ag_txs grp) ([], begin_apply d) = Inr (ns, st)"
    "txs_of d' = txs_of (ap_db st)"
    "APPLIED d' = tab_insert (ag_chain_block_hash grp) (ag_daa_score grp) (APPLIED d)"
    using apply_one_group [OF app new] by blast
  have "ext_ok e" "ascii_text prefix" using reach by (simp_all add: store_reachable_def store_env_def)
  then have "found (ap_db st) grp raw"
    using reachable_inv [OF reach] wrap dist raw
    by (intro apply_txs_found [OF _ _ st(1), of "[]"]) (simp_all add: store_inv_def)
  then have "found d' grp raw" using found_txs_of [OF st(2)] by simp
  then obtain n l where "tab_get (TX_BY_ID d') (rt_tx_id raw) = Some n"
    "tab_get (TX d') n = Some (build_indexed raw n grp l)"
    "\<forall>k\<in>set (spent_keys raw). tab_get (OUTPOINT_SPEND d') k = Some n"
    by (auto simp: found_def list_all_iff)
  then show ?thesis
    using checkpoint_after_apply [OF app new]
    by (auto simp: tx_by_id_def spend_of_def is_applied_def st(3) spent_keys_def raw_key_def)
qed

theorem apply_then_lookup_witness:
  "\<exists>n l. tx_by_id None ''bb'' sample_db2
     = Inr (Some (build_indexed (sample_tx ''bb'' False [sample_in] []) n sample_group2 l))"
proof -
  have app: "store_apply None ext_sample ''keryxsim'' [sample_group2] sample_db
      = (Inr (the (case fst (store_apply None ext_sample ''keryxsim'' [sample_group2] sample_db) of
           Inr s \<Rightarrow> Some s | Inl _ \<Rightarrow> None)), sample_db2)"
    by (simp add: sample_apply2 sample_db2_simps)
  have h: "ag_chain_block_hash sample_group2 = ''b2''" "ag_txs sample_group2 = [sample_tx ''bb'' False [sample_in] []]"
    by (simp_all add: sample_group2_def)
  have new: "tab_get (APPLIED sample_db) (ag_chain_block_hash sample_group2) = None"
    by (simp add: h sample_db_eq tab_get_def)
  have wrap: "unat (meta_u64 sample_db ''next_tx_num'') + length (ag_txs sample_group2) < 2 ^ 64"
    by (simp add: h sample_db_eq meta_u64_def tab_get_def)
  have dist: "distinct (map rt_tx_id (ag_txs sample_group2))"
    "distinct (concat (map spent_keys (ag_txs sample_group2)))"
    by (simp_all add: h spent_keys_def spent_inputs_def sample_tx_def)
  have raw: "sample_tx ''bb'' False [sample_in] [] \<in> set (ag_txs sample_group2)" by (simp add: h)
  from apply_then_lookup [OF sample_reachable app new wrap dist raw] show ?thesis
    unfolding rt_coinbase_sample by blast
qed

end
