(* ===== verification/EndpointProps.thy ===== *)
theory EndpointProps
  imports HandlerProps StoreLookup
begin

text \<open>
  What single endpoints promise about the index and the node behind them: the transaction
  and spend endpoints on every branch and after a block was accepted, the public inference
  feed and its paging, and the information endpoint with its fallbacks and its cache.
\<close>

section \<open>Transactions\<close>

text \<open>Property C6. The transaction endpoint on every branch: an id that is not 64 hex digits is a bad
  request, with or without an index; for any other id the answer is not found when the shim
  runs without an index or the index is not open yet, a storage error is an internal error,
  an id that is not indexed is not found, and an indexed id is always answered with the
  stored transaction of that very id, never with a dangling entry and never by a crash.\<close>

theorem transaction_endpoint_exact:
  assumes "\<And>d. app_store app = Some d \<Longrightarrow> store_reachable e prefix d"
  shows "if \<not> is_txid txid
    then get_transaction io app txid = Failed (BadRequest ''transaction id must be 64 hex chars'')
    else
      (case app_store app of
         None \<Rightarrow> get_transaction io app txid = Failed (NotFound ''transaction index is not enabled on this shim'')
       | Some d \<Rightarrow>
           (case io of
              Some err \<Rightarrow> get_transaction io app txid = Failed (of_store_error err)
            | None \<Rightarrow>
                (case tab_get (TX_BY_ID d) txid of
                   None \<Rightarrow> get_transaction io app txid
                     = Failed (NotFound ''transaction not found within the indexer window'')
                 | Some n \<Rightarrow> (\<exists>t. tab_get (TX d) n = Some t \<and> it_tx_id t = txid
                     \<and> get_transaction io app txid = Done (tx_to_json t)))))"
proof (cases "app_store app")
  case (Some d)
  then show ?thesis
    using tx_by_id_sound [OF assms [OF Some], of txid]
    by (auto simp: get_transaction_def require_index_def tx_by_id_def on_store_def split: option.splits)
qed (simp add: get_transaction_def require_index_def)

text \<open>What a block accepted is served: after a new chain block is applied, the
  transaction endpoint answers for each of its transactions with a document the broadcast
  deserialiser reads back to the same transaction, naming the block and its score; and for
  each outpoint the transaction spends and no pending transaction does, the spend endpoint
  answers that it is spent by this accepted transaction, with the same document.\<close>

lemma accepted_transaction_served:
  assumes reach: "store_reachable e prefix d"
    and app: "store_apply None e prefix [grp] d = (Inr stats, d')"
    and new: "tab_get (APPLIED d) (ag_chain_block_hash grp) = None"
    and wrap: "unat (meta_u64 d ''next_tx_num'') + length (ag_txs grp) < 2 ^ 64"
    and dist: "distinct (map rt_tx_id (ag_txs grp))" "distinct (concat (map spent_keys (ag_txs grp)))"
    and raw: "raw \<in> set (ag_txs grp)" "is_txid (rt_tx_id raw)"
    and handle: "aa_indexer shim = Some h" "ih_store h = Some d'"
  shows "\<exists>j. get_transaction None shim (rt_tx_id raw) = Done j
    \<and> de_tx j = Some (tx_of_raw raw) \<and> json_get j ''tx_id'' = Some (JStr (rt_tx_id raw))
    \<and> json_get j ''block_hash'' = Some (JStr (ag_chain_block_hash grp))
    \<and> json_get j ''daa_score'' = Some (json_u64 (ag_daa_score grp))
    \<and> (\<forall>i \<in> set (spent_inputs raw).
         is_txid (ri_previous_tx_id i)
         \<and> mempool_spend_of (ih_mempool h) (ri_previous_tx_id i) (ri_previous_index i) = None \<longrightarrow>
         get_outpoint_spend None shim (ri_previous_tx_id i) (ri_previous_index i)
           = Done (JObj [(''status'', JStr ''accepted''), (''transaction'', j)]))"
proof -
  obtain n l where t: "tx_by_id None (rt_tx_id raw) d' = Inr (Some (build_indexed raw n grp l))"
    "\<forall>i\<in>set (spent_inputs raw). spend_of None (ri_previous_tx_id i) (ri_previous_index i) d'
       = Inr (Some (build_indexed raw n grp l))"
    using apply_then_lookup [OF reach app new wrap dist raw(1)] by blast
  have doc: "json_get (tx_to_json (build_indexed raw n grp l)) ''tx_id'' = Some (JStr (rt_tx_id raw))"
    "json_get (tx_to_json (build_indexed raw n grp l)) ''block_hash'' = Some (JStr (ag_chain_block_hash grp))"
    "json_get (tx_to_json (build_indexed raw n grp l)) ''daa_score'' = Some (json_u64 (ag_daa_score grp))"
    by (simp_all add: tx_to_json_def build_indexed_def)
  have "get_transaction None shim (rt_tx_id raw) = Done (tx_to_json (build_indexed raw n grp l))"
    using t(1) raw(2) handle by (simp add: get_transaction_def require_index_def app_store_def on_store_def)
  moreover have "get_outpoint_spend None shim (ri_previous_tx_id i) (ri_previous_index i)
      = Done (JObj [(''status'', JStr ''accepted''), (''transaction'', tx_to_json (build_indexed raw n grp l))])"
    if "i \<in> set (spent_inputs raw)" "is_txid (ri_previous_tx_id i)"
      "mempool_spend_of (ih_mempool h) (ri_previous_tx_id i) (ri_previous_index i) = None" for i
    using t(2) that handle by (simp add: get_outpoint_spend_def on_store_def)
  ultimately show ?thesis using doc de_stored by blast
qed

definition served_tx :: RawTx where
  "served_tx = sample_tx claim_txid True [] [3, 4]"

definition served_group :: AcceptedGroup where
  "served_group = \<lparr> ag_chain_block_hash = ''b1'', ag_daa_score = 10, ag_txs = [served_tx] \<rparr>"

definition served_db :: db where
  "served_db = snd (store_apply None ext_sample ''keryxsim'' [served_group] empty_db)"

definition served_handle :: IndexerHandle where
  "served_handle = \<lparr> ih_status = en_status (indexer_spawn 0 served_db 2000), ih_store = Some served_db,
     ih_mempool = snapshot_empty \<rparr>"

lemma claim_is_txid: "is_txid claim_txid"
  by (simp add: is_txid_def claim_txid_def list_all_iff is_ascii_hexdigit_def)

lemma served_apply:
  "\<exists>stats. store_apply None ext_sample ''keryxsim'' [served_group] empty_db = (Inr stats, served_db)"
  unfolding served_db_def store_apply_def
  by (simp add: begin_apply_def apply_group_def served_group_def served_tx_def apply_tx_def sample_ledger sample_steps
      case_prod_beta Let_def)

lemma served_reachable: "store_reachable ext_sample ''keryxsim'' served_db"
proof -
  have "store_step ext_sample ''keryxsim'' empty_db served_db"
    unfolding served_db_def
    by (rule step_apply) (simp add: group_txs_def served_group_def meta_u64_def empty_db_def)
  then show ?thesis using sample_reachable by (auto simp: store_reachable_def)
qed

lemma served_indexed: "tab_get (TX_BY_ID served_db) claim_txid = Some 0"
  unfolding served_db_def store_apply_def
  by (simp add: begin_apply_def apply_group_def served_group_def served_tx_def apply_tx_def sample_ledger sample_steps
      case_prod_beta Let_def finish_apply_db close_group_def index_ledger_tables rt_coinbase_sample empty_db_def
      meta_u64_def tab_get_def)

theorem transaction_endpoint_exact_witness:
  "(\<exists>t. get_transaction None (sample_app\<lparr> aa_indexer := Some served_handle \<rparr>) claim_txid = Done (tx_to_json t)
      \<and> it_tx_id t = claim_txid)
   \<and> get_transaction None (sample_app\<lparr> aa_indexer := None \<rparr>) claim_txid
       = Failed (NotFound ''transaction index is not enabled on this shim'')"
proof -
  let ?on = "sample_app\<lparr> aa_indexer := Some served_handle \<rparr>" and ?off = "sample_app\<lparr> aa_indexer := None \<rparr>"
  have app: "app_store ?on = Some served_db" "app_store ?off = None" by (simp_all add: app_store_def served_handle_def)
  show ?thesis
    using transaction_endpoint_exact [of ?on ext_sample "''keryxsim''" claim_txid None]
      transaction_endpoint_exact [of ?off ext_sample "''keryxsim''" claim_txid None]
      claim_is_txid served_indexed served_reachable by (auto simp: app)
qed

lemma served_facts:
  "ag_txs served_group = [served_tx]" "ag_chain_block_hash served_group = ''b1''"
  "rt_tx_id served_tx = claim_txid" "spent_keys served_tx = []"
  by (simp_all add: served_group_def served_tx_def rt_coinbase_sample spent_keys_def spent_inputs_def)

lemma served_block:
  "store_reachable ext_sample ''keryxsim'' empty_db"
  "tab_get (APPLIED empty_db) (ag_chain_block_hash served_group) = None"
  "unat (meta_u64 empty_db ''next_tx_num'') + length (ag_txs served_group) < 2 ^ 64"
  "distinct (map rt_tx_id (ag_txs served_group))" "distinct (concat (map spent_keys (ag_txs served_group)))"
  using sample_reachable by (simp_all add: store_reachable_def empty_db_def meta_u64_def served_facts)

section \<open>The public feed\<close>

lemma pages_concat: "concat (map (\<lambda>i. take n (drop (i * n) xs)) [0..<k]) = take (k * n) xs"
  by (induction k) (simp_all add: take_add add.commute [of n])

definition json_items :: "json \<Rightarrow> json list" where
  "json_items j = (case j of JArr xs \<Rightarrow> xs | _ \<Rightarrow> [])"

text \<open>The unsealed requests of the index, newest first, as the feed shows them.\<close>

definition public_feed :: "db \<Rightarrow> json list" where
  "public_feed d = map (\<lambda>r. infer_row r (first_response (AI_RESP d) r))
     (filter (\<lambda>r. \<not> qr_private r) (map dec_request (rev (map snd (AI_REQ d)))))"

lemma feed_page:
  assumes "app_store app = Some d"
  shows "get_infer None app limit offset
    = JArr (take (clamp (unwrap_or 20 limit) 1 200) (drop (unwrap_or 0 offset) (public_feed d)))"
  using assms
  by (simp add: get_infer_def inference_feed_page or_empty_def public_feed_def Let_def take_map drop_map comp_def)

text \<open>Property C17. The public inference feed: a page is the requested part of the unsealed requests,
  newest first, each with the first response to it; successive pages cover the feed without
  a gap or a repetition; and whatever is asked for and whatever the storage reports, a page
  has at most 200 rows and never shows a sealed request.\<close>

theorem infer_feed_endpoint:
  assumes "app_store app = Some d" "1 \<le> n" "n \<le> 200"
  shows "json_items (get_infer None app (Some n) (Some offset)) = take n (drop offset (public_feed d))
    \<and> concat (map (\<lambda>i. json_items (get_infer None app (Some n) (Some (i * n)))) [0..<k])
      = take (k * n) (public_feed d)
    \<and> length (json_items (get_infer io app limit skip)) \<le> 200
    \<and> (\<forall>row \<in> set (json_items (get_infer io app limit skip)). json_get row ''sealed'' = Some (JBool False))"
proof -
  have page: "json_items (get_infer None app (Some n) (Some offset)) = take n (drop offset (public_feed d))" for offset
    using assms by (simp add: feed_page json_items_def unwrap_or_def clamp_def)
  have cap: "clamp x 1 200 \<le> 200" for x by (simp add: clamp_def)
  have items: "json_items (get_infer io app limit skip) = (if io = None
      then take (clamp (unwrap_or 20 limit) 1 200) (drop (unwrap_or 0 skip) (public_feed d)) else [])"
  proof (cases io)
    case None
    then show ?thesis by (simp add: feed_page [OF assms(1)] json_items_def)
  qed (use assms(1) in \<open>simp add: json_items_def get_infer_def inference_feed_def or_empty_def Let_def\<close>)
  have "set (json_items (get_infer io app limit skip)) \<subseteq> set (public_feed d)"
    by (auto simp: items dest: in_set_takeD in_set_dropD)
  moreover have "length (json_items (get_infer io app limit skip)) \<le> 200"
    using cap by (simp add: items min.coboundedI2)
  moreover have "json_get row ''sealed'' = Some (JBool False)" if "row \<in> set (public_feed d)" for row
    using that by (auto simp: public_feed_def infer_row_def)
  ultimately show ?thesis using page pages_concat [of n "public_feed d" k] by auto
qed

definition feed_db :: db where
  "feed_db = empty_db\<lparr> AI_REQ := map (\<lambda>n. (word_of_nat n, Current
     \<lparr> qr_tx_id = [], qr_model_id = [], qr_max_tokens = 0, qr_inference_reward = 0, qr_priority_fee = 0,
       qr_prompt = [], qr_daa_score = word_of_nat n, qr_block_hash = [], qr_request_hash = [], qr_miner_pubkey = None,
       qr_private = (n = 1), qr_recipient_count = None \<rparr>)) [0, 1, 2] \<rparr>"

theorem infer_feed_endpoint_witness:
  "map (\<lambda>row. json_get row ''daa_score'') (json_items (get_infer None
       (sample_app\<lparr> aa_indexer := Some (served_handle\<lparr> ih_store := Some feed_db \<rparr>) \<rparr>) (Some 5) (Some 0)))
     = [Some (JNum 2), Some (JNum 0)]"
proof -
  let ?app = "sample_app\<lparr> aa_indexer := Some (served_handle\<lparr> ih_store := Some feed_db \<rparr>) \<rparr>"
  have "json_items (get_infer None ?app (Some 5) (Some 0)) = take 5 (drop 0 (public_feed feed_db))"
    using infer_feed_endpoint [of ?app feed_db 5 0] by (simp add: app_store_def served_handle_def)
  moreover have "map (\<lambda>row. json_get row ''daa_score'') (public_feed feed_db) = [Some (JNum 2), Some (JNum 0)]"
    by (simp add: public_feed_def feed_db_def infer_row_def dec_request_def json_u64_def)
  ultimately show ?thesis by (simp add: take_map [symmetric])
qed

section \<open>Information\<close>

text \<open>A middle element of a list: at most half of the list is smaller, and at most half is larger.\<close>

definition middle_of :: "u64 \<Rightarrow> u64 list \<Rightarrow> bool" where
  "middle_of a xs = (a \<in> set xs \<and> 2 * length (filter (\<lambda>x. x < a) xs) \<le> length xs
     \<and> 2 * length (filter (\<lambda>x. a < x) xs) \<le> length xs)"

lemma sort_middle:
  assumes "xs \<noteq> []"
  shows "middle_of (sort xs ! (length xs div 2)) xs"
proof -
  define ys i a where "ys = sort xs" and "i = length xs div 2" and "a = ys ! i"
  have len: "length ys = length xs" "i < length ys" "2 * i \<le> length xs" "length xs \<le> 2 * i + 1"
    using assms by (auto simp: ys_def i_def)
  have perm: "length (filter P xs) = length (filter P ys)" for P
    by (metis ys_def mset_filter mset_sort size_mset)
  have ys: "ys = take i ys @ a # drop (Suc i) ys" using len(2) by (simp add: a_def id_take_nth_drop)
  have "sorted (take i ys @ a # drop (Suc i) ys)" using ys by (simp add: ys_def)
  then have "filter (\<lambda>x. x < a) (a # drop (Suc i) ys) = []" "filter (\<lambda>x. a < x) (take i ys @ [a]) = []"
    by (auto simp: sorted_append filter_empty_conv)
  then have "length (filter (\<lambda>x. x < a) ys) = length (filter (\<lambda>x. x < a) (take i ys))"
    "length (filter (\<lambda>x. a < x) ys) = length (filter (\<lambda>x. a < x) (drop (Suc i) ys))"
    by (subst ys, simp)+
  moreover have "length (filter P (take i ys)) \<le> i" "length (filter P (drop (Suc i) ys)) \<le> length xs - Suc i" for P
    using length_filter_le [of P "take i ys"] length_filter_le [of P "drop (Suc i) ys"] len(1) by auto
  ultimately have low: "length (filter (\<lambda>x. x < a) xs) \<le> i" and high: "length (filter (\<lambda>x. a < x) xs) \<le> length xs - Suc i"
    by (simp_all add: perm)
  have "a \<in> set xs" using len(2) by (metis a_def nth_mem set_sort ys_def)
  moreover have "2 * length (filter (\<lambda>x. x < a) xs) \<le> length xs" using low len(3) by linarith
  moreover have "2 * length (filter (\<lambda>x. a < x) xs) \<le> length xs" using high len(4) by linarith
  ultimately show ?thesis unfolding middle_of_def a_def ys_def i_def by blast
qed

text \<open>The positive amounts a block's coinbase pays out, none when the block or its coinbase is not at hand.\<close>

definition payouts :: "NodeError + RpcBlock option \<Rightarrow> u64 list" where
  "payouts answer =
     (case answer of
        Inr (Some b) \<Rightarrow>
          (case bl_transactions b of
             [] \<Rightarrow> []
           | coinbase # _ \<Rightarrow> filter (\<lambda>a. 0 < a) (map to_amount (tx_outputs coinbase)))
      | _ \<Rightarrow> [])"

lemma coinbase_amount_payouts:
  "payouts (Inr block) = [] \<Longrightarrow> coinbase_amount block = None"
  "payouts (Inr block) \<noteq> [] \<Longrightarrow> \<exists>a. coinbase_amount block = Some a \<and> middle_of a (payouts (Inr block))"
proof -
  show "coinbase_amount block = None" if "payouts (Inr block) = []"
    using that by (auto simp: payouts_def coinbase_amount_def split: option.splits list.splits)
  show "\<exists>a. coinbase_amount block = Some a \<and> middle_of a (payouts (Inr block))" if pay: "payouts (Inr block) \<noteq> []"
  proof -
    obtain b coinbase rest where b: "block = Some b" "bl_transactions b = coinbase # rest"
      using pay by (cases block) (auto simp: payouts_def split: list.splits)
    then have "payouts (Inr block) = filter (\<lambda>a. 0 < a) (map to_amount (tx_outputs coinbase))"
      by (simp add: payouts_def)
    then have "coinbase_amount block = Some (sort (payouts (Inr block)) ! (length (payouts (Inr block)) div 2))"
      using b that unfolding coinbase_amount_def Let_def by (simp del: filter_map)
    then show ?thesis using sort_middle [OF that] by blast
  qed
qed

definition reward_of :: "'f f64_ops \<Rightarrow> NodeError + RpcBlock option \<Rightarrow> 'f \<Rightarrow> bool" where
  "reward_of fl answer reward =
     (if payouts answer = [] then reward = f_zero fl
      else \<exists>a. middle_of a (payouts answer) \<and> reward = f_div fl (f_of_u64 fl a) (f_sompi_per_krx fl))"

lemma reward_computed:
  "reward_of fl answer (case answer of Inl _ \<Rightarrow> f_zero fl | Inr block \<Rightarrow> unwrap_or (f_zero fl) (coinbase_reward_krx fl block))"
proof (cases answer)
  case (Inr block)
  then show ?thesis
    using coinbase_amount_payouts [of block] by (fastforce simp: reward_of_def coinbase_reward_krx_def unwrap_or_def)
qed (simp add: reward_of_def payouts_def)

lemma build_info_ok:
  assumes "ie_dag env = Inr dag" "ie_supply env = Inr (circulating, maximum)" "ie_reward_at env = (rnow, rlater)"
  shows "\<exists>info caches'. build_info fl app env caches = (Inr info, caches') \<and> ca_info caches' = ca_info caches
    \<and> in_network info = di_network_name dag \<and> in_last_daa_score info = dg_virtual_daa_score dag
    \<and> in_total_blocks info = dg_block_count dag
    \<and> in_total_txs info = (case app_store app of None \<Rightarrow> 0
         | Some d \<Rightarrow> (case total_txs (ie_total_io env) d of Inl _ \<Rightarrow> 0 | Inr n \<Rightarrow> n))
    \<and> (fresh rnow (ca_block_reward caches) = None \<longrightarrow> reward_of fl (ie_block env (di_sink dag)) (in_block_reward_krx info))"
  using assms reward_computed [of fl "ie_block env (di_sink dag)"]
  by (auto simp: build_info_def try_join_def get_or_init_def Let_def case_prod_beta split: option.split)

text \<open>
  Property C39. The information endpoint: a value younger than the time to live is served as
  it is and nothing is called; otherwise the answer fails only when the block graph or the
  supply call fails, with that call's error and without touching a cell, while a failing
  hash rate, block or counter read never fails it; the answer repeats the node's network,
  score and block count and the number of transactions indexed, the block reward it
  computes is zero when the sink's coinbase pays nothing and otherwise a middle one of the
  amounts it pays, and the answer is served again for the time to live.
\<close>

theorem info_endpoint:
  assumes "ie_info_at env = (now, later)" "ie_reward_at env = (rnow, rlater)"
  shows "(case fresh now (ca_info caches) of
      Some info \<Rightarrow> get_info fl app env caches = (Done info, caches)
    | None \<Rightarrow>
        (case (ie_dag env, ie_supply env) of
           (Inr dag, Inr _) \<Rightarrow>
             (\<exists>info caches'. get_info fl app env caches = (Done info, caches')
               \<and> in_network info = di_network_name dag \<and> in_last_daa_score info = dg_virtual_daa_score dag
               \<and> in_total_blocks info = dg_block_count dag
               \<and> in_total_txs info = (case app_store app of None \<Rightarrow> 0
                    | Some d \<Rightarrow> (case total_txs (ie_total_io env) d of Inl _ \<Rightarrow> 0 | Inr n \<Rightarrow> n))
               \<and> (fresh rnow (ca_block_reward caches) = None
                    \<longrightarrow> reward_of fl (ie_block env (di_sink dag)) (in_block_reward_krx info))
               \<and> (\<forall>t \<ge> later. t < later + tc_ttl (ca_info caches) \<longrightarrow> fresh t (ca_info caches') = Some info))
         | _ \<Rightarrow>
             (\<exists>err. (ie_dag env = Inl err \<or> ie_supply env = Inl err)
               \<and> get_info fl app env caches = (Failed (of_node_error err), caches))))"
proof (cases "fresh now (ca_info caches)")
  case None
  show ?thesis
  proof (cases "\<exists>dag supply. ie_dag env = Inr dag \<and> ie_supply env = Inr supply")
    case True
    then obtain dag circulating maximum where ok: "ie_dag env = Inr dag" "ie_supply env = Inr (circulating, maximum)"
      by auto
    from build_info_ok [OF this assms(2), of fl app caches] show ?thesis
      using None assms(1) ok by (auto simp: get_info_def fresh_def cell_store_def)
  next
    case False
    then have "\<exists>err. (ie_dag env = Inl err \<or> ie_supply env = Inl err)
        \<and> build_info fl app env caches = (Inl (of_node_error err), caches)"
      by (cases "ie_dag env"; cases "ie_supply env") (auto simp: build_info_def try_join_def)
    then show ?thesis
      using None assms(1) False
      by (cases "ie_dag env"; cases "ie_supply env") (auto simp: get_info_def)
  qed
qed (use assms(1) in \<open>simp add: get_info_def\<close>)

definition exact_ops :: "int f64_ops" where
  "exact_ops = \<lparr> f_of_u64 = uint, f_div = (div), f_mul = (*), f_less = (<), f_zero = 0, f_hundred = 100,
     f_sompi_per_krx = 1 \<rparr>"

definition sink_block :: RpcBlock where
  "sink_block = \<lparr> bl_header_daa = None, bl_transactions =
     [\<lparr> tx_version = 0, tx_inputs = [],
        tx_outputs = map (\<lambda>a. \<lparr> to_amount = a, to_script_public_key = None \<rparr>) [3, 7, 5], tx_lock_time = 0,
        tx_subnetwork_id = [], tx_gas = 0, tx_payload = [], tx_verbose_id = None \<rparr>], bl_verbose_hash = None \<rparr>"

definition sample_info_env :: info_env where
  "sample_info_env = \<lparr> ie_dag = Inr \<lparr> di_network_name = ''keryx-simnet'', di_sink = ''b1'', dg_virtual_daa_score = 9,
       dg_block_count = 2 \<rparr>, ie_supply = Inr (1, 2), ie_dag_first = True, ie_hashrate = Inl (Unreachable []),
     ie_block = (\<lambda>_. Inr (Some sink_block)), ie_total_io = None, ie_info_at = (0, 1), ie_hashrate_at = (0, 1),
     ie_reward_at = (0, 1) \<rparr>"

theorem info_endpoint_witness:
  "\<exists>info (caches' :: (int InfoResponse, int, json) Caches). get_info exact_ops sample_app sample_info_env caches_default = (Done info, caches')
     \<and> in_last_daa_score info = 9 \<and> in_total_txs info = 2 \<and> in_block_reward_krx info = 5
     \<and> fresh 2000 (ca_info caches') = Some info"
proof -
  have pay: "payouts (Inr (Some sink_block)) = [3, 7, 5]" by (simp add: payouts_def sink_block_def)
  have "middle_of a [3, 7, 5] \<longleftrightarrow> a = 5" for a by (auto simp: middle_of_def split: if_splits)
  then have reward: "reward_of exact_ops (Inr (Some sink_block)) r \<Longrightarrow> r = 5" for r
    by (auto simp: reward_of_def pay exact_ops_def)
  have cells: "fresh 0 (ca_info caches_default) = None" "fresh 0 (ca_block_reward caches_default) = None"
    "tc_ttl (ca_info caches_default) = 2000"
    by (simp_all add: caches_default_def cell_new_def fresh_def)
  have count: "total_txs None sample_db2 = Inr 2"
    by (simp add: sample_db2_simps total_txs_def meta_u64_def tab_get_def)
  have at: "ie_info_at sample_info_env = (0, 1)" "ie_reward_at sample_info_env = (0, 1)"
    by (simp_all add: sample_info_env_def)
  from info_endpoint [OF at, where caches = "caches_default :: (int InfoResponse, int, json) Caches"
      and fl = exact_ops and app = sample_app]
  show ?thesis
    using reward count by (auto simp: cells sample_info_env_def app_store_def sample_app_def)
qed

end
