(* ===== verification/SealedPrompts.thy ===== *)
theory SealedPrompts
  imports StoreSide StoreInference EndpointProps
begin

text \<open>
  Sealed prompts: what the index keeps of a request whose prompt is a private envelope, and
  what the detail endpoint shows of it.
\<close>

definition request_ok :: "AiRequestRec \<Rightarrow> bool" where
  "request_ok rec =
     (is_hex64 (qr_model_id rec)
      \<and> (if qr_private rec
         then qr_prompt rec = [] \<and> (\<forall>k. qr_recipient_count rec = Some k \<longrightarrow> 1 \<le> k \<and> k \<le> 128)
         else qr_recipient_count rec = None))"

definition requests_ok :: "(u64, (AiRequestRec, AiRequestRecV1) compat) tab \<Rightarrow> bool" where
  "requests_ok t = (\<forall>row \<in> snd ` set t. request_ok (dec_request row))"

lemma recipient_count_bounds:
  assumes "private_recipient_count prompt = Some k"
  shows "1 \<le> k \<and> k \<le> 128"
proof -
  define n where "n = unat (prompt ! 50)"
  have n: "1 \<le> n" "n \<le> 128" "k = word_of_nat n"
    using assms by (auto simp: private_recipient_count_def n_def Let_def inference_consts split: if_splits)
  then have "unat k = n" by (simp add: unat_of_nat take_bit_eq_mod)
  then show ?thesis using n by (simp add: word_le_nat_alt)
qed

lemma decoded_request_ok: "decode_request bytes = Some req \<Longrightarrow> request_ok (request_rec raw grp req rhash miner)"
  by (auto simp: decode_request_def request_ok_def request_rec_def Let_def to_hex_is_hex64 length_slice MIN_REQUEST_LEN_def
      recipient_count_bounds split: if_splits)

lemma tab_insert_values: "snd ` set (tab_insert k v t) \<subseteq> insert v (snd ` set t)"
  by (induction k v t rule: tab_insert.induct) (auto split: if_splits)

lemma requests_ok_insert: "requests_ok t \<Longrightarrow> request_ok rec \<Longrightarrow> requests_ok (tab_insert k (Current rec) t)"
  using tab_insert_values [of k "Current rec" t] by (fastforce simp: requests_ok_def)

lemma requests_ok_remove: "requests_ok t \<Longrightarrow> requests_ok (tab_remove_all ks t)"
  by (auto simp: requests_ok_def tab_remove_all_filter)

lemma index_request_requests:
  "index_request e grp raw st = Inr st' \<Longrightarrow> requests_ok (AI_REQ (ap_db st)) \<Longrightarrow> requests_ok (AI_REQ (ap_db st'))"
  by (auto simp: index_request_def Let_def case_option_Inr if_Inr requests_ok_insert decoded_request_ok)

lemma index_response_requests: "index_response e grp raw n st = Inr st' \<Longrightarrow> AI_REQ (ap_db st') = AI_REQ (ap_db st)"
  by (auto simp: index_response_def Let_def case_option_Inr if_Inr)

lemma index_challenge_requests: "index_challenge grp raw st = Inr st' \<Longrightarrow> AI_REQ (ap_db st') = AI_REQ (ap_db st)"
  by (auto simp: index_challenge_def Let_def case_option_Inr if_Inr)

lemma index_subnetwork_requests:
  assumes "index_subnetwork e grp raw n st = Inr st'" "requests_ok (AI_REQ (ap_db st))"
  shows "requests_ok (AI_REQ (ap_db st'))"
  using assms
  by (auto simp: index_subnetwork_def index_response_requests index_challenge_requests intro: index_request_requests
      split: if_splits)

lemma index_caps_requests: "index_caps grp raw st = Inr st' \<Longrightarrow> AI_REQ (ap_db st') = AI_REQ (ap_db st)"
  by (auto simp: index_caps_def Let_def case_option_Inr if_Inr)

interpretation requests: side_table "\<lambda>d. requests_ok (AI_REQ d)" e
proof unfold_locales
  show "requests_ok (AI_REQ empty_db)" by (simp add: requests_ok_def empty_db_def)
qed (simp_all add: side_of_def expire_requests_side requests_ok_remove index_caps_requests index_subnetwork_requests
    expire_marks_def)

lemma detail_request_ok:
  assumes "store_reachable e prefix d" "inference_by_tx io e' txid d = Inr (Some det)"
  shows "request_ok (id_request det)"
proof -
  obtain s row where "tab_get (AI_REQ d) s = Some row" "id_request det = dec_request row"
    using assms(2) by (auto simp: inference_by_tx_def Let_def case_prod_beta bind_eq_Some_conv split: option.splits)
  moreover from this(1) have "row \<in> snd ` set (AI_REQ d)" using tab_get_in_set by force
  ultimately show ?thesis using requests.reachable_keeps [OF assms(1)] by (auto simp: requests_ok_def)
qed

lemma index_request_row:
  assumes "index_request e grp raw st = Inr st'" "ap_ai_req_seq st' \<noteq> ap_ai_req_seq st"
    and "from_hex (rt_payload raw) = Inr (Some bytes)" "decode_request bytes = Some req"
  shows "\<exists>miner h. request_miner raw = Inr miner
    \<and> tab_get (AI_REQ (ap_db st')) (ap_ai_req_seq st) = Some (Current (request_rec raw grp req h miner))"
  using assms by (auto simp: index_request_def Let_def split: if_splits)

lemma sealed_requests_alike:
  assumes "length head = 52" "is_private p" "is_private p'" "private_recipient_count p = private_recipient_count p'"
  shows "\<exists>req. decode_request (head @ p) = Some req \<and> decode_request (head @ p') = Some req
    \<and> rq_private req \<and> rq_prompt req = [] \<and> rq_recipient_count req = private_recipient_count p"
  using assms by (simp add: decode_request_def MIN_REQUEST_LEN_def Let_def slice_def)

text \<open>
  Property C19. The inference tables and the inference detail do not show sealed prompts. A request
  row holds nothing of a private envelope but its number of recipients: if two transactions
  differ only in their payloads, the payloads carry sealed prompts for as many recipients
  behind the same header, and both requests are indexed, then the rows of the request table
  agree in every field but the request hash, and their prompt is empty. In every reachable
  database each row of a sealed request has an empty prompt, and what the detail endpoint
  shows of one has an empty prompt and between 1 and 128 recipients when it counts them,
  while only sealed requests have a count. This is about the request table and the detail
  endpoint: the transaction itself is stored and served with its payload, the envelope
  included, as every transaction is, and the request hash is computed over that payload.
\<close>

theorem sealed_prompts_withheld:
  assumes "store_reachable e prefix d" "app_store app = Some d"
    and sealed: "length head = 52" "is_private p" "is_private p'" "private_recipient_count p = private_recipient_count p'"
    and payloads: "from_hex (rt_payload raw) = Inr (Some (head @ p))" "from_hex payload' = Inr (Some (head @ p'))"
    and runs: "index_request e grp raw st = Inr st1" "index_request e grp (raw\<lparr> rt_payload := payload' \<rparr>) st = Inr st2"
    and new: "ap_ai_req_seq st1 \<noteq> ap_ai_req_seq st" "ap_ai_req_seq st2 \<noteq> ap_ai_req_seq st"
  shows "(\<exists>rec h h'. tab_get (AI_REQ (ap_db st1)) (ap_ai_req_seq st) = Some (Current (rec\<lparr> qr_request_hash := h \<rparr>))
        \<and> tab_get (AI_REQ (ap_db st2)) (ap_ai_req_seq st) = Some (Current (rec\<lparr> qr_request_hash := h' \<rparr>))
        \<and> qr_private rec \<and> qr_prompt rec = [] \<and> qr_recipient_count rec = private_recipient_count p)
    \<and> (\<forall>seq row. tab_get (AI_REQ d) seq = Some row \<and> qr_private (dec_request row) \<longrightarrow> qr_prompt (dec_request row) = [])
    \<and> (get_inference io e app txid = Done j \<longrightarrow>
        (\<exists>sealed count. json_get j ''sealed'' = Some (JBool sealed)
          \<and> json_get j ''sealed_recipients'' = Some (json_opt json_u32 count)
          \<and> (if sealed then json_get j ''prompt'' = Some (JStr []) \<and> (\<forall>k. count = Some k \<longrightarrow> 1 \<le> k \<and> k \<le> 128)
             else count = None)))"
proof -
  obtain req where req: "decode_request (head @ p) = Some req" "decode_request (head @ p') = Some req"
    "rq_private req" "rq_prompt req = []" "rq_recipient_count req = private_recipient_count p"
    using sealed_requests_alike [OF sealed] by blast
  have same: "request_miner (raw\<lparr> rt_payload := payload' \<rparr>) = request_miner raw"
    "request_rec (raw\<lparr> rt_payload := payload' \<rparr>) = request_rec raw"
    by (simp_all add: request_miner_def request_routed_def request_rec_def fun_eq_iff cong: option.case_cong)
  obtain miner h h' where rows:
    "tab_get (AI_REQ (ap_db st1)) (ap_ai_req_seq st) = Some (Current (request_rec raw grp req h miner))"
    "tab_get (AI_REQ (ap_db st2)) (ap_ai_req_seq st) = Some (Current (request_rec raw grp req h' miner))"
    using index_request_row [OF runs(1) new(1) payloads(1) req(1)]
      index_request_row [OF runs(2) new(2) _ req(2)] payloads(2) by (auto simp: same)
  have "\<exists>rec h h'. tab_get (AI_REQ (ap_db st1)) (ap_ai_req_seq st) = Some (Current (rec\<lparr> qr_request_hash := h \<rparr>))
        \<and> tab_get (AI_REQ (ap_db st2)) (ap_ai_req_seq st) = Some (Current (rec\<lparr> qr_request_hash := h' \<rparr>))
        \<and> qr_private rec \<and> qr_prompt rec = [] \<and> qr_recipient_count rec = private_recipient_count p"
    using rows req(3-5) by (intro exI [of _ "request_rec raw grp req [] miner"] exI [of _ h] exI [of _ h'])
      (simp add: request_rec_def)
  moreover have "qr_prompt (dec_request row) = []" if "tab_get (AI_REQ d) seq = Some row" "qr_private (dec_request row)" for seq row
    using requests.reachable_keeps [OF assms(1)] tab_get_in_set [OF that(1)] that(2)
    by (force simp: requests_ok_def request_ok_def)
  moreover have "\<exists>sealed count. json_get j ''sealed'' = Some (JBool sealed)
          \<and> json_get j ''sealed_recipients'' = Some (json_opt json_u32 count)
          \<and> (if sealed then json_get j ''prompt'' = Some (JStr []) \<and> (\<forall>k. count = Some k \<longrightarrow> 1 \<le> k \<and> k \<le> 128)
             else count = None)"
    if ok: "get_inference io e app txid = Done j"
  proof -
    obtain det where det: "inference_by_tx io e txid d = Inr (Some det)" "j = detail_json det"
      using ok assms(2)
      by (auto simp: get_inference_def require_index_def on_store_def split: if_splits sum.splits fault.splits option.splits)
    from detail_request_ok [OF assms(1) det(1)] show ?thesis
      by (intro exI [of _ "qr_private (id_request det)"] exI [of _ "qr_recipient_count (id_request det)"])
        (auto simp: det(2) detail_json_def Let_def request_ok_def)
  qed
  ultimately show ?thesis by blast
qed

text \<open>A block with one request whose prompt starts as a private envelope.\<close>

definition sealed_payload :: bytes where
  "sealed_payload = replicate 52 7 @ PRIVATE_MAGIC"

definition sealed_tx :: RawTx where
  "sealed_tx = (sample_tx claim_txid False [] [])\<lparr> rt_subnetwork_id := SUBNET_AI_REQUEST, rt_payload := to_hex sealed_payload \<rparr>"

definition sealed_group :: AcceptedGroup where
  "sealed_group = \<lparr> ag_chain_block_hash = ''b1'', ag_daa_score = 10, ag_txs = [sealed_tx] \<rparr>"

definition sealed_db :: db where
  "sealed_db = snd (store_apply None ext_sample ''keryxsim'' [sealed_group] empty_db)"

lemma sealed_reachable: "store_reachable ext_sample ''keryxsim'' sealed_db"
proof -
  have "store_step ext_sample ''keryxsim'' empty_db sealed_db"
    unfolding sealed_db_def
    by (rule step_apply) (simp add: group_txs_def sealed_group_def meta_u64_def empty_db_def)
  then show ?thesis using sample_reachable by (auto simp: store_reachable_def)
qed

lemma sealed_decoded: "\<exists>req. decode_request sealed_payload = Some req \<and> rq_private req"
  by (simp add: decode_request_def sealed_payload_def MIN_REQUEST_LEN_def Let_def PRIVATE_MAGIC_def is_private_def)

lemma sealed_row:
  "\<exists>rec. Option.bind (tab_get (AI_REQ_BY_HASH sealed_db) claim_txid) (tab_get (AI_REQ sealed_db)) = Some (Current rec)
     \<and> qr_private rec \<and> AI_RESP_LIST sealed_db = []"
proof -
  obtain req where req: "decode_request sealed_payload = Some req" "rq_private req" using sealed_decoded by blast
  have hex: "from_hex (rt_payload sealed_tx) = Inr (Some sealed_payload)" by code_simp
  have sub: "rt_subnetwork_id sealed_tx = SUBNET_AI_REQUEST" "\<not> rt_is_coinbase sealed_tx" "rt_tx_id sealed_tx = claim_txid"
    "rt_outputs sealed_tx = []"
    by (simp_all add: sealed_tx_def sample_tx_def)
  have caps: "index_caps grp sealed_tx st = Inr st" for grp st by (simp add: index_caps_def sub)
  have led: "compute_ledger ext_sample sealed_tx p t u = Inr []" for p t u
    by (simp add: compute_ledger_def sealed_tx_def sample_tx_def ext_sample_def)
  have miner: "request_miner sealed_tx = Inr None" by (simp add: request_miner_def sub nth_opt_def)
  have step: "\<exists>rec rhash. index_subnetwork ext_sample sealed_group sealed_tx n st = Inr (st\<lparr> ap_db := (ap_db st)\<lparr>
          AI_REQ := tab_insert (ap_ai_req_seq st) (Current rec) (AI_REQ (ap_db st)),
          AI_REQ_BY_HASH := tab_insert claim_txid (ap_ai_req_seq st)
            (tab_insert rhash (ap_ai_req_seq st) (AI_REQ_BY_HASH (ap_db st))) \<rparr>,
        ap_ai_req_seq := ap_ai_req_seq st + 1 \<rparr>) \<and> qr_private rec"
    if "AI_REQ_BY_HASH (ap_db st) = []" for n st
    by (intro exI [of _ "request_rec sealed_tx sealed_group req (request_identity ext_sample claim_txid sealed_payload
          (request_routed sealed_tx)) None"]
        exI [of _ "request_identity ext_sample claim_txid sealed_payload (request_routed sealed_tx)"])
      (simp add: index_subnetwork_def index_request_def sub hex req miner that Let_def,
        simp add: request_rec_def req)
  define st0 where "st0 = (begin_apply empty_db)\<lparr> ap_next_tx_num := 1,
    ap_db := index_ledger sealed_tx sealed_group 0 [] empty_db \<rparr>"
  have zero: "AI_REQ_BY_HASH (ap_db st0) = []" "AI_REQ (ap_db st0) = []" "AI_RESP_LIST (ap_db st0) = []"
    by (simp_all add: st0_def index_ledger_tables empty_db_def)
  from step [OF zero(1), of 0] obtain rec rhash where rec: "qr_private rec"
    and s0: "index_subnetwork ext_sample sealed_group sealed_tx 0 st0 = Inr (st0\<lparr> ap_db := (ap_db st0)\<lparr>
          AI_REQ := tab_insert (ap_ai_req_seq st0) (Current rec) (AI_REQ (ap_db st0)),
          AI_REQ_BY_HASH := tab_insert claim_txid (ap_ai_req_seq st0)
            (tab_insert rhash (ap_ai_req_seq st0) (AI_REQ_BY_HASH (ap_db st0))) \<rparr>,
        ap_ai_req_seq := ap_ai_req_seq st0 + 1 \<rparr>)" by blast
  define d1 where "d1 = (ap_db st0)\<lparr>
          AI_REQ := tab_insert (ap_ai_req_seq st0) (Current rec) (AI_REQ (ap_db st0)),
          AI_REQ_BY_HASH := tab_insert claim_txid (ap_ai_req_seq st0)
            (tab_insert rhash (ap_ai_req_seq st0) (AI_REQ_BY_HASH (ap_db st0))) \<rparr>"
  have "\<exists>st2. apply_tx ext_sample ''keryxsim'' sealed_group sealed_tx ([], begin_apply empty_db) = Inr ([0], st2)
      \<and> ap_db st2 = d1"
  proof -
    have "ap_next_tx_num (begin_apply empty_db) = 0" "ap_db (begin_apply empty_db) = empty_db"
      by (simp_all add: begin_apply_def meta_u64_def empty_db_def)
    then show ?thesis using s0 by (simp add: apply_tx_def Let_def led caps d1_def flip: st0_def)
  qed
  then obtain st2 where st2: "apply_tx ext_sample ''keryxsim'' sealed_group sealed_tx ([], begin_apply empty_db) = Inr ([0], st2)"
    "ap_db st2 = d1" by blast
  then have "fold_res (apply_tx ext_sample ''keryxsim'' sealed_group) (ag_txs sealed_group) ([], begin_apply empty_db)
      = Inr ([0], st2)"
    by (simp add: sealed_group_def)
  then have db: "sealed_db = snd (finish_apply (close_group sealed_group [0] st2))"
    by (simp add: sealed_db_def store_apply_def apply_group_def case_prod_beta) (simp add: empty_db_def)
  have "AI_REQ sealed_db = AI_REQ d1" "AI_REQ_BY_HASH sealed_db = AI_REQ_BY_HASH d1" "AI_RESP_LIST sealed_db = AI_RESP_LIST d1"
    unfolding db by (simp_all add: finish_apply_db close_group_def Let_def st2(2))
  then show ?thesis using rec zero by (simp add: d1_def del: tab_insert.simps)
qed

text \<open>The same request with another envelope.\<close>

definition resealed_payload :: bytes where
  "resealed_payload = replicate 52 7 @ PRIVATE_MAGIC @ [9]"

lemma sealed_request_step:
  assumes "from_hex payload = Inr (Some bytes)" "decode_request bytes = Some req"
  shows "\<exists>st. index_request ext_sample sealed_group (sealed_tx\<lparr> rt_payload := payload \<rparr>) (begin_apply empty_db) = Inr st
    \<and> ap_ai_req_seq st \<noteq> ap_ai_req_seq (begin_apply empty_db)"
proof -
  have "request_miner (sealed_tx\<lparr> rt_payload := payload \<rparr>) = Inr None"
    by (simp add: request_miner_def sealed_tx_def sample_tx_def nth_opt_def)
  then show ?thesis using assms by (simp add: index_request_def Let_def empty_db_def)
qed

theorem sealed_prompts_withheld_witness:
  "(\<exists>j. get_inference None ext_sample (sample_app\<lparr> aa_indexer := Some (served_handle\<lparr> ih_store := Some sealed_db \<rparr>) \<rparr>)
       claim_txid = Done j \<and> json_get j ''sealed'' = Some (JBool True) \<and> json_get j ''prompt'' = Some (JStr []))
   \<and> (\<exists>st1 st2 rec h h'.
       index_request ext_sample sealed_group sealed_tx (begin_apply empty_db) = Inr st1
     \<and> index_request ext_sample sealed_group (sealed_tx\<lparr> rt_payload := to_hex resealed_payload \<rparr>) (begin_apply empty_db) = Inr st2
     \<and> tab_get (AI_REQ (ap_db st1)) 0 = Some (Current (rec\<lparr> qr_request_hash := h \<rparr>))
     \<and> tab_get (AI_REQ (ap_db st2)) 0 = Some (Current (rec\<lparr> qr_request_hash := h' \<rparr>)) \<and> qr_prompt rec = [])"
proof -
  let ?app = "sample_app\<lparr> aa_indexer := Some (served_handle\<lparr> ih_store := Some sealed_db \<rparr>) \<rparr>"
  let ?st = "begin_apply empty_db"
  have store: "app_store ?app = Some sealed_db" by (simp add: app_store_def)
  obtain rec where rec: "Option.bind (tab_get (AI_REQ_BY_HASH sealed_db) claim_txid) (tab_get (AI_REQ sealed_db)) = Some (Current rec)"
    "qr_private rec" "AI_RESP_LIST sealed_db = []" using sealed_row by blast
  then have "\<exists>det. inference_by_tx None ext_sample claim_txid sealed_db = Inr (Some det) \<and> id_request det = rec"
    by (simp add: inference_by_tx_def Let_def case_prod_beta tab_range_def)
  then obtain j where j: "get_inference None ext_sample ?app claim_txid = Done j" "json_get j ''sealed'' = Some (JBool True)"
    using claim_is_txid store rec(2) by (auto simp: get_inference_def require_index_def detail_json_def Let_def)
  have hex: "from_hex (rt_payload sealed_tx) = Inr (Some (replicate 52 7 @ PRIVATE_MAGIC))"
    "from_hex (to_hex resealed_payload) = Inr (Some (replicate 52 7 @ PRIVATE_MAGIC @ [9]))" by code_simp+
  have env: "length (replicate 52 7 :: bytes) = 52" "is_private PRIVATE_MAGIC" "is_private (PRIVATE_MAGIC @ [9])"
    "private_recipient_count PRIVATE_MAGIC = private_recipient_count (PRIVATE_MAGIC @ [9])"
    by (simp_all add: is_private_def PRIVATE_MAGIC_def private_recipient_count_def inference_consts)
  obtain req where req: "decode_request (replicate 52 7 @ PRIVATE_MAGIC) = Some req"
    "decode_request (replicate 52 7 @ PRIVATE_MAGIC @ [9]) = Some req"
    using sealed_requests_alike [OF env] by blast
  obtain st1 st2 where runs: "index_request ext_sample sealed_group sealed_tx ?st = Inr st1"
    "index_request ext_sample sealed_group (sealed_tx\<lparr> rt_payload := to_hex resealed_payload \<rparr>) ?st = Inr st2"
    "ap_ai_req_seq st1 \<noteq> ap_ai_req_seq ?st" "ap_ai_req_seq st2 \<noteq> ap_ai_req_seq ?st"
    using sealed_request_step [OF hex(1) req(1)] sealed_request_step [OF hex(2) req(2)] by auto
  have "ap_ai_req_seq ?st = 0" by (simp add: begin_apply_def meta_u64_def empty_db_def)
  with sealed_prompts_withheld [OF sealed_reachable store env hex runs, of None claim_txid j] j runs(1,2)
  show ?thesis by (auto split: if_splits)
qed

end
