(* ===== verification/Server.thy ===== *)
theory Server
  imports HandlersAi
begin

text \<open>
  The server as a whole: the wire form of the typed answers (\<open>Serialize\<close> of \<open>src/api/dto.rs\<close>),
  the route table (\<open>router\<close> of \<open>src/api/mod.rs\<close>) and what a request gets, from its path to the
  response. Path matching and the extractors of axum are a parameter, the record \<open>axum\<close>; the
  CORS and trace layers and the dropping of bodies of HEAD requests are left out.
\<close>

section \<open>Answers on the wire\<close>

text \<open>Numbers with a fraction are rendered by a parameter.\<close>

definition info_json :: "('f \<Rightarrow> json) \<Rightarrow> 'f InfoResponse \<Rightarrow> json" where
  "info_json num i =
     JObj [(''network'', JStr (in_network i)), (''last_daa_score'', json_u64 (in_last_daa_score i)),
           (''block_reward_krx'', num (in_block_reward_krx i)), (''total_supply_krx'', num (in_total_supply_krx i)),
           (''max_supply_krx'', num (in_max_supply_krx i)), (''hashrate_hps'', num (in_hashrate_hps i)),
           (''total_blocks'', json_u64 (in_total_blocks i)), (''total_txs'', json_u64 (in_total_txs i)),
           (''burned_krx'', num (in_burned_krx i)), (''total_escrow_krx'', num (in_total_escrow_krx i)),
           (''total_real_inferences'', json_u64 (in_total_real_inferences i)), (''mined_pct'', num (in_mined_pct i))]"

definition balance_json :: "string \<times> u64 \<Rightarrow> json" where
  "balance_json b = JObj [(''address'', JStr (fst b)), (''balance_sompi'', json_u64 (snd b))]"

definition utxo_json :: "UtxoDto \<Rightarrow> json" where
  "utxo_json u =
     JObj [(''transaction_id'', JStr (ud_transaction_id u)), (''index'', json_u32 (ud_index u)),
           (''amount_sompi'', json_u64 (ud_amount_sompi u)), (''script_version'', json_u32 (ud_script_version u)),
           (''script_public_key'', JStr (ud_script_public_key u)), (''block_daa_score'', json_u64 (ud_block_daa_score u)),
           (''is_coinbase'', JBool (ud_is_coinbase u))]"

definition utxo_count_json :: "nat \<Rightarrow> json" where
  "utxo_count_json n = JObj [(''count'', JNum (int n))]"

definition history_tx_json :: "HistoryTx \<Rightarrow> json" where
  "history_tx_json t =
     JObj [(''tx_id'', JStr (ht_tx_id t)), (''amount_sompi'', json_u64 (ht_amount_sompi t)),
           (''is_spend'', JBool (ht_is_spend t)), (''daa_score'', json_u64 (ht_daa_score t)),
           (''block_hash'', JStr (ht_block_hash t)), (''address'', JStr (ht_address t)),
           (''pending'', JBool (ht_pending t))]"

definition history_json :: "AddressHistoryResponse \<Rightarrow> json" where
  "history_json r =
     JObj [(''address'', JStr (ar_address r)), (''total_received_sompi'', json_u64 (ar_total_received_sompi r)),
           (''total_tx_count'', json_u64 (ar_total_tx_count r)),
           (''transactions'', JArr (map history_tx_json (ar_transactions r))),
           (''history_since_daa'', json_opt json_u64 (ar_history_since_daa r))]"

definition broadcast_json :: "string \<Rightarrow> json" where
  "broadcast_json txid = JObj [(''transaction_id'', JStr txid)]"

section \<open>Routes\<close>

datatype endpoint =
  Info | AddressHistory | Balance | Utxos | UtxoCount | Broadcast | Transaction | OutpointSpend | Market
| Capabilities | Infer | InferenceDetails | AiProviders | Challenges | Ipfs | Health

definition routes :: "(string \<times> string \<times> endpoint) list" where
  "routes =
     [(''/api/v1/info'', ''GET'', Info),
      (''/api/v1/addresses/{address}'', ''GET'', AddressHistory),
      (''/api/v1/addresses/{address}/balance'', ''GET'', Balance),
      (''/api/v1/addresses/{address}/utxos'', ''GET'', Utxos),
      (''/api/v1/addresses/{address}/utxos/count'', ''GET'', UtxoCount),
      (''/api/v1/broadcast'', ''POST'', Broadcast),
      (''/api/v1/transactions/{id}'', ''GET'', Transaction),
      (''/api/v1/outpoints/{txid}/{index}/spend'', ''GET'', OutpointSpend),
      (''/api/v1/market'', ''GET'', Market),
      (''/api/v1/capabilities'', ''GET'', Capabilities),
      (''/api/v1/infer'', ''GET'', Infer),
      (''/api/v1/inference/{tx_id}'', ''GET'', InferenceDetails),
      (''/api/v1/ai/providers'', ''GET'', AiProviders),
      (''/api/v1/challenges'', ''GET'', Challenges),
      (''/ipfs/{cid}'', ''GET'', Ipfs),
      (''/health'', ''GET'', Health)]"

text \<open>The optional numbers an endpoint reads from its query.\<close>

definition UtxoQuery :: "string list" where
  "UtxoQuery = [''limit'']"

definition HistoryQuery :: "string list" where
  "HistoryQuery = [''limit'', ''offset'']"

definition InferQuery :: "string list" where
  "InferQuery = [''limit'', ''offset'']"

definition ChallengeQuery :: "string list" where
  "ChallengeQuery = [''limit'']"

section \<open>Requests and responses\<close>

record request =
  rq_method :: string
  rq_path :: string
  rq_query :: string
  rq_body :: bytes

text \<open>
  What axum decides: the route of a method and a path with the values of its captures, the
  optional numbers of a query, the number in a path, the transaction in a body, each
  or a rejection (status and text), and the rejection of captures that do not fit a handler.
\<close>

type_synonym rejection = "nat \<times> string"

record axum =
  ax_route :: "(string \<times> string \<times> endpoint) list \<Rightarrow> string \<Rightarrow> string \<Rightarrow> rejection + endpoint \<times> string list"
  ax_query :: "string list \<Rightarrow> string \<Rightarrow> rejection + (string \<Rightarrow> nat option)"
  ax_index :: "string \<Rightarrow> rejection + u32"
  ax_body :: "bytes \<Rightarrow> string + TxJson"
  ax_captures :: rejection

datatype response = JsonBody nat json | BytesBody nat string bytes | Rejected rejection

text \<open>What the node, the storage, the upstreams and the clock give during one request.\<close>

record 'f server_env =
  sv_float :: "'f f64_ops"
  sv_float_json :: "'f \<Rightarrow> json"
  sv_ext :: ext
  sv_debug :: "string \<Rightarrow> string"
  sv_io :: "nat \<Rightarrow> StoreError option"
  sv_info :: info_env
  sv_balance :: "string \<Rightarrow> NodeError + u64"
  sv_utxos :: "string \<Rightarrow> NodeError + RpcUtxosByAddressesEntry list"
  sv_submit :: "RpcTransactionMsg \<Rightarrow> NodeError + string"
  sv_market :: "string \<Rightarrow> http_json"
  sv_market_at :: "nat \<times> nat"
  sv_providers :: providers_env
  sv_gateway :: "string \<Rightarrow> gateway_answer"
  sv_server_info :: "NodeError + ServerInfo"

type_synonym 'f caches = "('f InfoResponse, 'f, json) Caches"

text \<open>The response of a handler; a panic drops the connection without one.\<close>

definition respond :: "('a \<Rightarrow> response) \<Rightarrow> 'a outcome \<Rightarrow> response option" where
  "respond f r =
     (case r of
        Done x \<Rightarrow> Some (f x)
      | Failed err \<Rightarrow> (case into_response err of (status, body) \<Rightarrow> Some (JsonBody status body))
      | Crashed \<Rightarrow> None)"

definition ok_json :: "('a \<Rightarrow> json) \<Rightarrow> 'a \<Rightarrow> response" where
  "ok_json f x = JsonBody 200 (f x)"

definition with_query ::
  "axum \<Rightarrow> request \<Rightarrow> string list \<Rightarrow> ((string \<Rightarrow> nat option) \<Rightarrow> response option) \<Rightarrow> response option" where
  "with_query ax rq names f =
     (case ax_query ax names (rq_query rq) of Inl rej \<Rightarrow> Some (Rejected rej) | Inr q \<Rightarrow> f q)"

text \<open>The handlers on the values their extractors take from the request.\<close>

fun handle ::
  "axum \<Rightarrow> 'f server_env \<Rightarrow> AppInner \<Rightarrow> request \<Rightarrow> endpoint \<Rightarrow> string list \<Rightarrow> 'f caches
     \<Rightarrow> response option \<times> 'f caches"
where
  "handle ax env app rq Info [] c =
     (case get_info (sv_float env) app (sv_info env) c of
        (r, c) \<Rightarrow> (respond (ok_json (info_json (sv_float_json env))) r, c))"
| "handle ax env app rq AddressHistory [address] c =
     (with_query ax rq HistoryQuery (\<lambda>q.
        respond (ok_json history_json)
          (get_address_history (sv_debug env) (sv_io env) app address (q ''limit'') (q ''offset''))), c)"
| "handle ax env app rq Balance [address] c =
     (respond (ok_json balance_json) (get_balance (sv_debug env) (sv_balance env) address), c)"
| "handle ax env app rq Utxos [address] c =
     (with_query ax rq UtxoQuery (\<lambda>q.
        respond (ok_json (\<lambda>us. JArr (map utxo_json us)))
          (get_utxos (sv_debug env) app (sv_utxos env) address (q ''limit''))), c)"
| "handle ax env app rq UtxoCount [address] c =
     (respond (ok_json utxo_count_json) (get_utxo_count (sv_debug env) (sv_utxos env) address), c)"
| "handle ax env app rq Broadcast [] c =
     (respond (ok_json broadcast_json) (post_broadcast (sv_submit env) (ax_body ax (rq_body rq))), c)"
| "handle ax env app rq Transaction [txid] c =
     (respond (ok_json (\<lambda>j. j)) (get_transaction (sv_io env 0) app txid), c)"
| "handle ax env app rq OutpointSpend [txid, index] c =
     ((case ax_index ax index of
         Inl rej \<Rightarrow> Some (Rejected rej)
       | Inr i \<Rightarrow> respond (ok_json (\<lambda>j. j)) (get_outpoint_spend (sv_io env 0) app txid i)), c)"
| "handle ax env app rq Market [] c =
     (case sv_market_at env of (now, later) \<Rightarrow>
        (case get_market app (sv_market env) now later (ca_market c) of
           (r, cell) \<Rightarrow> (respond (ok_json (\<lambda>j. j)) r, c\<lparr> ca_market := cell \<rparr>)))"
| "handle ax env app rq Capabilities [] c = (Some (JsonBody 200 (get_capabilities (sv_io env 0) (sv_ext env) app)), c)"
| "handle ax env app rq Infer [] c =
     (with_query ax rq InferQuery (\<lambda>q.
        Some (JsonBody 200 (get_infer (sv_io env 0) app (q ''limit'') (q ''offset'')))), c)"
| "handle ax env app rq InferenceDetails [txid] c =
     (respond (ok_json (\<lambda>j. j)) (get_inference (sv_io env 0) (sv_ext env) app txid), c)"
| "handle ax env app rq AiProviders [] c =
     (case get_ai_providers (sv_providers env) (ca_node_version c) (ca_ai_providers c) of
        (r, (version, cell), _) \<Rightarrow>
          (respond (ok_json (\<lambda>j. j)) r, c\<lparr> ca_node_version := version, ca_ai_providers := cell \<rparr>))"
| "handle ax env app rq Challenges [] c =
     (with_query ax rq ChallengeQuery (\<lambda>q. Some (JsonBody 200 (get_challenges (sv_io env 0) app (q ''limit'')))), c)"
| "handle ax env app rq Ipfs [cid] c =
     (respond (\<lambda>(kind, body). BytesBody 200 kind body) (get_ipfs app (sv_gateway env) cid), c)"
| "handle ax env app rq Health [] c =
     (respond (ok_json (\<lambda>j. j)) (get_health app (sv_server_info env)), c)"
| "handle ax env app rq ep params c = (Some (Rejected (ax_captures ax)), c)"

definition router ::
  "axum \<Rightarrow> 'f server_env \<Rightarrow> AppInner \<Rightarrow> request \<Rightarrow> 'f caches \<Rightarrow> response option \<times> 'f caches" where
  "router ax env app rq c =
     (case ax_route ax routes (rq_method rq) (rq_path rq) of
        Inl rej \<Rightarrow> (Some (Rejected rej), c)
      | Inr (ep, params) \<Rightarrow> handle ax env app rq ep params c)"

end
