(* ===== verification/StoreCaps.thy ===== *)
theory StoreCaps
  imports StoreProps StoreRead StoreSide
begin

text \<open>
  The capability table: its keys are pairs of hexadecimal model ids and miner keys, so the
  read that groups it by model lists every model once with exactly the miners that
  announced it.
\<close>

section \<open>Grouping\<close>

lemma caps_entry_get:
  "map_of (caps_entry m pk seen acc) m' =
     (if m' = m
      then Some (case map_of acc m of None \<Rightarrow> ([pk], max 0 seen) | Some (pks, s) \<Rightarrow> (pks @ [pk], max s seen))
      else map_of acc m')"
  by (induction m pk seen acc rule: caps_entry.induct) auto

lemma caps_entry_keys: "fst ` set (caps_entry m pk seen acc) = insert m (fst ` set acc)"
  by (induction m pk seen acc rule: caps_entry.induct) auto

lemma caps_entry_distinct: "distinct (map fst acc) \<Longrightarrow> distinct (map fst (caps_entry m pk seen acc))"
proof (induction m pk seen acc rule: caps_entry.induct)
  case (2 m pk seen m' pks s acc)
  then show ?case using caps_entry_keys [of m pk seen acc] by auto
qed simp

text \<open>The rows of one model, in table order.\<close>

definition rows_of :: "string \<Rightarrow> (string \<times> string \<times> u64) list \<Rightarrow> (string \<times> u64) list" where
  "rows_of m rows = map snd (filter (\<lambda>row. fst row = m) rows)"

lemma rows_of_snoc: "rows_of m (rows @ [row]) = rows_of m rows @ (if fst row = m then [snd row] else [])"
  by (simp add: rows_of_def)

lemma grouped:
  "distinct (map fst (fold (\<lambda>(m, pk, seen). caps_entry m pk seen) rows []))
   \<and> map_of (fold (\<lambda>(m, pk, seen). caps_entry m pk seen) rows []) m =
       (if rows_of m rows = [] then None
        else Some (map fst (rows_of m rows), fold (\<lambda>(pk, seen) s. max s seen) (rows_of m rows) 0))"
proof (induction rows rule: rev_induct)
  case (snoc row rows)
  then show ?case
    by (cases row; cases "rows_of m rows = []") (auto simp: caps_entry_get caps_entry_distinct rows_of_snoc)
qed (simp add: rows_of_def)

lemma fold_max:
  "(\<forall>(pk, seen) \<in> set xs. seen \<le> fold (\<lambda>(pk, seen) s. max s seen) xs s)
   \<and> s \<le> fold (\<lambda>(pk, seen) s. max s seen) xs s
   \<and> (fold (\<lambda>(pk, seen) s. max s seen) xs s = s
       \<or> fold (\<lambda>(pk, seen) s. max s seen) xs s \<in> snd ` set xs)" for s :: u64
proof (induction xs arbitrary: s)
  case (Cons x xs)
  show ?case using Cons [of "max s (snd x)"] by (auto simp: case_prod_beta max_def split: if_splits)
qed simp

section \<open>The keys\<close>

definition caps_ok :: "(bytes, u64) tab \<Rightarrow> bool" where
  "caps_ok t = (tab_ok t \<and> (\<forall>k \<in> fst ` set t. \<exists>m pk. is_hex64 m \<and> is_hex64 pk \<and> k = caps_key m pk))"

lemma hexdigit_ascii: "is_ascii_hexdigit c \<Longrightarrow> of_char c < (128 :: nat)"
  by (auto simp: is_ascii_hexdigit_def is_ascii_digit_def less_eq_char_def)

lemma hex64_utf8: "is_hex64 s \<Longrightarrow> utf8_str s"
  by (rule ascii_utf8_str) (auto simp: is_hex64_def list_all_iff hexdigit_ascii)

lemma caps_key_parts:
  assumes "utf8_str m" "utf8_str pk"
  shows "takeWhile (\<lambda>b. b \<noteq> 0xFF) (caps_key m pk) = as_bytes m"
    and "caps_key m' pk' = caps_key m pk \<longleftrightarrow> m' = m \<and> pk' = pk"
proof -
  have ff: "0xFF \<notin> set (as_bytes m)" "0xFF \<notin> set (as_bytes pk)" using assms utf8_str_no_FF by blast+
  then show "takeWhile (\<lambda>b. b \<noteq> 0xFF) (caps_key m pk) = as_bytes m"
    by (subst caps_key_def, subst takeWhile_append2) auto
  show "caps_key m' pk' = caps_key m pk \<longleftrightarrow> m' = m \<and> pk' = pk"
  proof
    assume eq: "caps_key m' pk' = caps_key m pk"
    then have "as_bytes m' = as_bytes m \<and> as_bytes pk' = as_bytes pk"
      using append_Cons_eq_iff [OF ff, of "as_bytes m'" "as_bytes pk'"] by (auto simp: caps_key_def)
    then show "m' = m \<and> pk' = pk" by simp
  qed simp
qed

lemma caps_row_key:
  assumes "utf8_str m" "utf8_str pk"
  shows "caps_row (caps_key m pk, seen) acc = caps_entry m pk seen acc"
proof -
  have "from_utf8_lossy (as_bytes s) = s" if "utf8_str s" for s
    using that by (simp add: from_utf8_lossy_def utf8_str_def lossy_valid)
  then show ?thesis
    unfolding caps_row_def fst_conv snd_conv Let_def caps_key_parts(1) [OF assms]
    using assms by (simp add: caps_key_def)
qed

section \<open>Every operation keeps the keys\<close>

lemma caps_ok_insert: "caps_ok t \<Longrightarrow> is_hex64 m \<Longrightarrow> is_hex64 pk \<Longrightarrow> caps_ok (tab_insert (caps_key m pk) v t)"
  by (auto simp: caps_ok_def set_tab_insert)

lemma caps_ok_inserts:
  "caps_ok t \<Longrightarrow> list_all is_hex64 ms \<Longrightarrow> is_hex64 pk \<Longrightarrow> caps_ok (fold (\<lambda>m. tab_insert (caps_key m pk) v) ms t)"
  by (induction ms arbitrary: t) (simp_all add: caps_ok_insert)

lemma caps_ok_sweep: "caps_ok t \<Longrightarrow> caps_ok (tab_sweep P t)"
  by (auto simp: caps_ok_def tab_sweep_def tab_remove_all_filter tab_ok_filter)

lemma caps_pubkey_hex: "caps_pubkey raw bytes = Inr (Some pk) \<Longrightarrow> is_hex64 pk"
  by (auto simp: caps_pubkey_def parse_escrow_pubkey_def p2pk_pubkey_def match_script_def to_hex_is_hex64 Let_def
      split: option.splits list.splits sum.splits if_splits)

lemma index_caps_ok:
  assumes "index_caps grp raw st = Inr st'" "caps_ok (AI_CAPS (ap_db st))"
  shows "caps_ok (AI_CAPS (ap_db st'))"
proof -
  have "list_all is_hex64 (parse_ai_caps bytes)" for bytes
    by (auto simp: parse_ai_caps_def list_all_iff split: option.splits)
  then show ?thesis
    using assms by (auto simp: index_caps_def Let_def case_option_Inr if_Inr caps_ok_inserts caps_pubkey_hex)
qed

lemma index_payload_caps:
  "index_request e grp raw st = Inr st' \<Longrightarrow> AI_CAPS (ap_db st') = AI_CAPS (ap_db st)"
  "index_response e grp raw n st = Inr st' \<Longrightarrow> AI_CAPS (ap_db st') = AI_CAPS (ap_db st)"
  "index_challenge grp raw st = Inr st' \<Longrightarrow> AI_CAPS (ap_db st') = AI_CAPS (ap_db st)"
    apply (auto simp: index_request_def Let_def case_option_Inr if_Inr) [1]
   apply (auto simp: index_response_def Let_def case_option_Inr if_Inr) [1]
  apply (auto simp: index_challenge_def Let_def case_option_Inr if_Inr) [1]
  done

lemma index_subnetwork_caps:
  "index_subnetwork e grp raw n st = Inr st' \<Longrightarrow> AI_CAPS (ap_db st') = AI_CAPS (ap_db st)"
  by (auto simp: index_subnetwork_def index_payload_caps split: if_splits)

lemma caps_ok_expire: "caps_ok (AI_CAPS d) \<Longrightarrow> caps_ok (AI_CAPS (expire_marks cutoff d))"
  by (simp add: expire_marks_def caps_ok_sweep)

lemma caps_ok_empty: "caps_ok (AI_CAPS empty_db)"
  by (simp add: caps_ok_def empty_db_def)

interpretation caps: side_table "\<lambda>d. caps_ok (AI_CAPS d)" e
  by unfold_locales
    (simp_all add: side_of_def caps_ok_empty caps_ok_expire expire_requests_side index_subnetwork_caps index_caps_ok)

lemmas reachable_caps = caps.reachable_keeps

section \<open>The capability list\<close>

lemma caps_rows:
  assumes "\<forall>k \<in> fst ` set t. \<exists>m pk. is_hex64 m \<and> is_hex64 pk \<and> k = caps_key m pk"
  shows "\<exists>rows. t = map (\<lambda>(m, pk, seen). (caps_key m pk, seen)) rows
    \<and> list_all (\<lambda>(m, pk, seen). is_hex64 m \<and> is_hex64 pk) rows"
  using assms
proof (induction t)
  case (Cons p t)
  then obtain rows where "t = map (\<lambda>(m, pk, seen). (caps_key m pk, seen)) rows"
    "list_all (\<lambda>(m, pk, seen). is_hex64 m \<and> is_hex64 pk) rows" by auto
  moreover obtain m pk where "is_hex64 m" "is_hex64 pk" "fst p = caps_key m pk" using Cons.prems by auto
  ultimately show ?case by (intro exI [of _ "(m, pk, snd p) # rows"]) (cases p, simp)
qed simp

lemma caps_fold:
  "list_all (\<lambda>(m, pk, seen). is_hex64 m \<and> is_hex64 pk) rows \<Longrightarrow>
     fold caps_row (map (\<lambda>(m, pk, seen). (caps_key m pk, seen)) rows) acc
     = fold (\<lambda>(m, pk, seen). caps_entry m pk seen) rows acc"
  by (induction rows arbitrary: acc) (auto simp: caps_row_key hex64_utf8)

lemma sorted_remdups_adj: "sorted xs \<Longrightarrow> sorted_wrt (<) (remdups_adj xs)" for xs :: "'a::linorder list"
proof (induction xs rule: remdups_adj.induct)
  case (3 x y xs)
  show ?case
  proof (cases "x = y")
    case False
    then have "\<forall>z \<in> set (remdups_adj (y # xs)). x < z" using "3.prems" by fastforce
    then show ?thesis using 3 False by simp
  qed (use 3 in simp)
qed simp_all

definition capability_of :: "string \<times> string list \<times> u64 \<Rightarrow> Capability" where
  "capability_of = (\<lambda>(m, pks, seen). \<lparr> cp_model_id = m, cp_miner_pubkeys = remdups_adj (sort pks),
                                        cp_last_seen_daa = seen \<rparr>)"

text \<open>Sorting an enumeration of the groups neither loses nor repeats one.\<close>

lemma caps_listed:
  assumes "ext_ok e" "distinct (map fst acc)"
  defines "caps \<equiv> sort_key (\<lambda>c. - uint (cp_last_seen_daa c)) (map capability_of (caps_order e acc))"
  shows "set caps = capability_of ` set acc" "distinct (map cp_model_id caps)"
    "sorted_wrt (\<ge>) (map cp_last_seen_daa caps)"
proof -
  have perm: "mset (caps_order e acc) = mset acc" using assms(1) by (simp add: ext_ok_def)
  then have "set (caps_order e acc) = set acc" by (metis set_mset_mset)
  then show "set caps = capability_of ` set acc" by (simp add: caps_def)
  have "cp_model_id (capability_of g) = fst g" for g by (simp add: capability_of_def case_prod_beta)
  then have "mset (map cp_model_id caps) = mset (map fst acc)"
    by (simp add: caps_def perm image_mset.compositionality comp_def)
  then show "distinct (map cp_model_id caps)" using assms(2) mset_eq_imp_distinct_iff by blast
  have "sorted (map (\<lambda>c. - uint (cp_last_seen_daa c)) caps)" by (simp add: caps_def)
  then show "sorted_wrt (\<ge>) (map cp_last_seen_daa caps)"
    by (simp add: sorted_wrt_map word_le_def)
qed

lemma group_of_rows:
  defines "acc rows \<equiv> fold (\<lambda>(m, pk, seen). caps_entry m pk seen) rows []"
  shows "(m, pks, s) \<in> set (acc rows) \<Longrightarrow> set pks = {pk. \<exists>seen. (m, pk, seen) \<in> set rows}"
    and "(m, pks, s) \<in> set (acc rows) \<Longrightarrow> (m, pk, seen) \<in> set rows \<Longrightarrow> seen \<le> s"
    and "(m, pks, s) \<in> set (acc rows) \<Longrightarrow> \<exists>pk. (m, pk, s) \<in> set rows"
    and "(m, pk, seen) \<in> set rows \<Longrightarrow> \<exists>pks s. (m, pks, s) \<in> set (acc rows)"
proof -
  have rows: "(pk, seen) \<in> set (rows_of m rows) \<longleftrightarrow> (m, pk, seen) \<in> set rows" for pk seen
    by (force simp: rows_of_def)
  have acc: "(m, pks, s) \<in> set (acc rows) \<longleftrightarrow>
      rows_of m rows \<noteq> [] \<and> pks = map fst (rows_of m rows)
      \<and> s = fold (\<lambda>(pk, seen) s. max s seen) (rows_of m rows) 0" for pks s
    using grouped [of rows m] by (auto simp: acc_def simp flip: map_of_eq_Some_iff split: if_splits)
  note top = fold_max [of "rows_of m rows" 0]
  show "set pks = {pk. \<exists>seen. (m, pk, seen) \<in> set rows}" if "(m, pks, s) \<in> set (acc rows)"
    using that by (force simp: acc rows [symmetric])
  show "seen \<le> s" if "(m, pks, s) \<in> set (acc rows)" "(m, pk, seen) \<in> set rows"
    using that top by (auto simp: acc rows [symmetric])
  show "\<exists>pks s. (m, pks, s) \<in> set (acc rows)" if "(m, pk, seen) \<in> set rows"
    using that by (auto simp: acc rows [symmetric])
  show "\<exists>pk. (m, pk, s) \<in> set (rows)" if "(m, pks, s) \<in> set (acc rows)"
  proof -
    have ne: "rows_of m rows \<noteq> []" and s: "s = fold (\<lambda>(pk, seen) s. max s seen) (rows_of m rows) 0"
      using that by (simp_all add: acc)
    obtain pk seen where "(pk, seen) \<in> set (rows_of m rows)" using ne by (cases "rows_of m rows") auto
    moreover from this top have "seen \<le> s" by (auto simp: s)
    ultimately have "s \<in> snd ` set (rows_of m rows)" using top by (force simp: s)
    then show ?thesis by (auto simp: rows)
  qed
qed

definition announced :: "db \<Rightarrow> string \<Rightarrow> string \<Rightarrow> u64 option" where
  "announced d m pk = tab_get (AI_CAPS d) (caps_key m pk)"

text \<open>Property C18. In a reachable database the capability list is the table grouped by model: every
  model that some miner announced is listed once, the models in descending order of their
  last announcement, each with exactly the miners that announced it, sorted and without
  repetition, and with the latest score at which one of them did.\<close>

theorem capabilities_exact:
  assumes "store_reachable e prefix d"
  shows "\<exists>caps. capabilities None e d = Inr caps
    \<and> distinct (map cp_model_id caps) \<and> sorted_wrt (\<ge>) (map cp_last_seen_daa caps)
    \<and> (\<forall>m pk. announced d m pk \<noteq> None \<longleftrightarrow>
          (\<exists>c \<in> set caps. cp_model_id c = m \<and> pk \<in> set (cp_miner_pubkeys c)))
    \<and> (\<forall>c \<in> set caps. sorted_wrt (<) (cp_miner_pubkeys c)
          \<and> (\<forall>pk seen. announced d (cp_model_id c) pk = Some seen \<longrightarrow> seen \<le> cp_last_seen_daa c)
          \<and> (\<exists>pk. announced d (cp_model_id c) pk = Some (cp_last_seen_daa c)))"
proof -
  have ok: "tab_ok (AI_CAPS d)"
    and hex: "\<forall>k \<in> fst ` set (AI_CAPS d). \<exists>m pk. is_hex64 m \<and> is_hex64 pk \<and> k = caps_key m pk"
    using reachable_caps [OF assms] by (simp_all add: caps_ok_def)
  obtain rows where rows: "AI_CAPS d = map (\<lambda>(m, pk, seen). (caps_key m pk, seen)) rows"
    "list_all (\<lambda>(m, pk, seen). is_hex64 m \<and> is_hex64 pk) rows"
    using caps_rows [OF hex] by blast
  have ann: "announced d m pk = Some seen \<longleftrightarrow> (m, pk, seen) \<in> set rows" for m pk seen
  proof -
    have "(caps_key m pk, seen) = (caps_key m' pk', seen') \<longleftrightarrow> (m, pk, seen) = (m', pk', seen')"
      if "(m', pk', seen') \<in> set rows" for m' pk' seen'
      using that rows(2) by (auto simp: list_all_iff caps_key_parts(2) hex64_utf8)
    then have "(caps_key m pk, seen) \<in> set (AI_CAPS d) \<longleftrightarrow> (m, pk, seen) \<in> set rows"
      unfolding rows(1) by force
    then show ?thesis by (simp add: announced_def tab_get_set [OF ok])
  qed
  define acc where "acc = fold (\<lambda>(m, pk, seen). caps_entry m pk seen) rows []"
  define caps where "caps = sort_key (\<lambda>c. - uint (cp_last_seen_daa c)) (map capability_of (caps_order e acc))"
  have "capabilities None e d = Inr caps"
    by (simp add: capabilities_def reading_def caps_def acc_def capability_of_def rows(1) caps_fold [OF rows(2)])
  moreover have "ext_ok e" using assms by (simp add: store_reachable_def store_env_def)
  note listed = caps_listed [OF this, of acc, folded caps_def]
  have dist: "distinct (map fst acc)" using grouped [of rows] by (simp add: acc_def)
  note group = group_of_rows [where rows = rows, folded acc_def]
  have "\<exists>c \<in> set caps. cp_model_id c = m \<and> pk \<in> set (cp_miner_pubkeys c)"
    if "(m, pk, seen) \<in> set rows" for m pk seen
    using group(4) [OF that] group(1) that by (force simp: listed(1) [OF dist] capability_of_def)
  moreover have "\<exists>seen. (cp_model_id c, pk, seen) \<in> set rows"
    if "c \<in> set caps" "pk \<in> set (cp_miner_pubkeys c)" for c pk
    using that group(1) by (auto simp: listed(1) [OF dist] capability_of_def)
  moreover have "sorted_wrt (<) (cp_miner_pubkeys c)
      \<and> (\<forall>pk seen. (cp_model_id c, pk, seen) \<in> set rows \<longrightarrow> seen \<le> cp_last_seen_daa c)
      \<and> (\<exists>pk. (cp_model_id c, pk, cp_last_seen_daa c) \<in> set rows)" if "c \<in> set caps" for c
    using that group(2,3) by (auto simp: listed(1) [OF dist] capability_of_def sorted_remdups_adj)
  ultimately show ?thesis using listed(2,3) [OF dist] by (auto simp: ann)
qed

text \<open>A coinbase that announces one model, paid to the sample script.\<close>

definition caps_payload :: bytes where
  "caps_payload = as_bytes (''/ai:cap:'' @ replicate 64 (CHR ''a''))"

definition caps_tx :: RawTx where
  "caps_tx = (sample_tx ''aa'' True [] [3, 4])\<lparr> rt_payload := to_hex caps_payload \<rparr>"

lemma caps_payload_models: "parse_ai_caps caps_payload = [replicate 64 (CHR ''a'')]"
  by code_simp

lemma caps_payload_key: "caps_pubkey caps_tx caps_payload = Inr (Some (to_hex (replicate 32 0x11)))"
  by code_simp

lemma caps_tx_step:
  "index_caps grp caps_tx st = Inr (st\<lparr> ap_db := (ap_db st)\<lparr> AI_CAPS :=
     tab_insert (caps_key (replicate 64 (CHR ''a'')) (to_hex (replicate 32 0x11))) (ag_daa_score grp)
       (AI_CAPS (ap_db st)) \<rparr> \<rparr>)"
proof -
  have "from_hex (rt_payload caps_tx) = Inr (Some caps_payload)" by code_simp
  moreover have "rt_is_coinbase caps_tx" by (simp add: caps_tx_def sample_tx_def)
  ultimately show ?thesis by (simp add: index_caps_def caps_payload_models caps_payload_key)
qed

definition caps_group :: AcceptedGroup where
  "caps_group = \<lparr> ag_chain_block_hash = ''b1'', ag_daa_score = 10, ag_txs = [caps_tx] \<rparr>"

definition caps_db :: db where
  "caps_db = snd (store_apply None ext_sample ''keryxsim'' [caps_group] empty_db)"

lemma caps_reachable: "store_reachable ext_sample ''keryxsim'' caps_db"
proof -
  have "store_step ext_sample ''keryxsim'' empty_db caps_db"
    unfolding caps_db_def
    by (rule step_apply) (simp add: group_txs_def caps_group_def meta_u64_def empty_db_def)
  moreover have "store_env ext_sample ''keryxsim''"
    by (simp add: store_env_def ext_ok_sample ascii_text_def)
  ultimately show ?thesis by (auto simp: store_reachable_def)
qed

lemma caps_db_table:
  "AI_CAPS caps_db = [(caps_key (replicate 64 (CHR ''a'')) (to_hex (replicate 32 0x11)), 10)]"
proof -
  have "compute_ledger ext_sample caps_tx ''keryxsim'' t u = Inr [sample_entry]" for t u
    using sample_ledger [of "''aa''" "[]" t u] by (simp add: compute_ledger_def caps_tx_def sample_tx_def sample_entry_def)
  moreover have "index_subnetwork e grp caps_tx n st = Inr st" for e grp n st
    by (simp add: index_subnetwork_def caps_tx_def sample_tx_def SUBNET_AI_REQUEST_def
        SUBNET_AI_RESPONSE_def SUBNET_AI_CHALLENGE_def)
  ultimately show ?thesis
    by (simp add: caps_db_def store_apply_def begin_apply_def apply_group_def caps_group_def apply_tx_def caps_tx_step
        case_prod_beta finish_apply_db close_group_def index_ledger_tables Let_def empty_db_def)
qed

theorem capabilities_exact_witness:
  "\<exists>caps c. capabilities None ext_sample caps_db = Inr caps \<and> c \<in> set caps
     \<and> cp_model_id c = replicate 64 (CHR ''a'') \<and> to_hex (replicate 32 0x11) \<in> set (cp_miner_pubkeys c)
     \<and> 10 \<le> cp_last_seen_daa c"
proof -
  have ann: "announced caps_db (replicate 64 (CHR ''a'')) (to_hex (replicate 32 0x11)) = Some 10"
    by (simp add: announced_def caps_db_table tab_get_def)
  obtain caps where caps: "capabilities None ext_sample caps_db = Inr caps"
    "\<forall>m pk. announced caps_db m pk \<noteq> None \<longleftrightarrow> (\<exists>c \<in> set caps. cp_model_id c = m \<and> pk \<in> set (cp_miner_pubkeys c))"
    "\<forall>c \<in> set caps. \<forall>pk seen. announced caps_db (cp_model_id c) pk = Some seen \<longrightarrow> seen \<le> cp_last_seen_daa c"
    using capabilities_exact [OF caps_reachable] by auto
  obtain c where "c \<in> set caps" "cp_model_id c = replicate 64 (CHR ''a'')"
    "to_hex (replicate 32 0x11) \<in> set (cp_miner_pubkeys c)"
    using caps(2) ann by (metis option.distinct(1))
  with caps ann show ?thesis by metis
qed

end
