(* ===== verification/ServerProps.thy ===== *)
theory ServerProps
  imports Server StoreInference StoreCaps EndpointProps
begin

text \<open>
  What every request gets: an answer, whatever the node, the storage and the upstreams do,
  and one of the documented forms. And that each documented path reaches its endpoint.
\<close>

section \<open>No handler panics\<close>

lemma crash_iff:
  "on_store r f = Crashed \<longleftrightarrow> r = Inl Panic \<or> (\<exists>x. r = Inr x \<and> f x = Crashed)"
  "on_node s g = Crashed \<longleftrightarrow> (\<exists>y. s = Inr y \<and> g y = Crashed)"
  "on_check t h = Crashed \<longleftrightarrow> (\<exists>u. t = Inr u) \<and> h = Crashed"
  by (auto simp: on_store_def on_node_def on_check_def split: sum.split fault.split)

lemma reading_no_panic [simp]: "reading io x \<noteq> Inl Panic"
  by (simp add: reading_def split: option.split)

lemma store_reads_no_panic [simp]:
  "tx_by_id io txid d \<noteq> Inl Panic" "spend_of io txid i d \<noteq> Inl Panic" "address_totals io address d \<noteq> Inl Panic"
  "address_history io address limit offset d \<noteq> Inl Panic" "window_low_daa io d \<noteq> Inl Panic"
  by (simp_all add: tx_by_id_def spend_of_def address_totals_def address_history_def window_low_daa_def)

lemma inference_no_panic:
  assumes "store_reachable e prefix d" "is_txid txid"
  shows "inference_by_tx io e txid d \<noteq> Inl Panic"
proof (cases io)
  case None
  have "utf8_str txid" using assms(2) by (intro hex64_utf8) (simp add: is_txid_def is_hex64_def)
  then show ?thesis using None inference_by_tx_rows [OF assms(1), of txid] by simp
qed (simp add: inference_by_tx_def)

lemma handlers_no_crash:
  "get_address_history debug ios app address limit offset \<noteq> Crashed"
  "get_balance debug node address \<noteq> Crashed" "get_utxos debug app utxos address limit \<noteq> Crashed"
  "get_utxo_count debug utxos address \<noteq> Crashed" "post_broadcast submit payload \<noteq> Crashed"
  "get_transaction io app txid \<noteq> Crashed" "get_outpoint_spend io app txid i \<noteq> Crashed"
  "get_health app info \<noteq> Crashed" "get_ipfs app http cid \<noteq> Crashed"
  by (auto simp: get_address_history_def get_balance_def get_utxos_def get_utxo_count_def post_broadcast_def
      get_transaction_def get_outpoint_spend_def get_health_def get_ipfs_def require_index_def Let_def crash_iff
      split: option.splits sum.splits gateway_answer.splits if_splits)

lemma cached_handlers_no_crash:
  "fst (get_info fl app ienv caches) \<noteq> Crashed" "fst (get_market app upstream now later cell) \<noteq> Crashed"
  "fst (get_ai_providers penv version_cell providers_cell) \<noteq> Crashed"
  by (auto simp: get_info_def get_market_def get_ai_providers_def Let_def case_prod_beta
      split: option.split sum.split prod.split)

lemma get_inference_no_crash:
  assumes "\<And>d. app_store app = Some d \<Longrightarrow> store_reachable e prefix d"
  shows "get_inference io e app txid \<noteq> Crashed"
  using assms inference_no_panic
  by (auto simp: get_inference_def require_index_def crash_iff split: option.splits if_splits)

section \<open>Every request is answered\<close>

text \<open>The framework's own rejections: no route, an unreadable query, index or number of captures.\<close>

definition framework_rejects :: "axum \<Rightarrow> request \<Rightarrow> rejection \<Rightarrow> bool" where
  "framework_rejects ax rq rej =
     (ax_route ax routes (rq_method rq) (rq_path rq) = Inl rej
      \<or> (\<exists>names. ax_query ax names (rq_query rq) = Inl rej)
      \<or> (\<exists>s. ax_index ax s = Inl rej) \<or> rej = ax_captures ax)"

definition well_formed :: "axum \<Rightarrow> request \<Rightarrow> response \<Rightarrow> bool" where
  "well_formed ax rq resp =
     (case resp of
        JsonBody status j \<Rightarrow>
          status = 200 \<or> (400 \<le> status \<and> status < 600 \<and> (\<exists>m. j = JObj [(''error'', JStr m)]))
      | BytesBody status kind body \<Rightarrow> status = 200 \<and> length body \<le> 1048576
      | Rejected rej \<Rightarrow> framework_rejects ax rq rej)"

definition answers :: "axum \<Rightarrow> request \<Rightarrow> response option \<Rightarrow> bool" where
  "answers ax rq r = (\<exists>resp. r = Some resp \<and> well_formed ax rq resp)"

lemma error_form: "into_response err = (status, j) \<Longrightarrow> 400 \<le> status \<and> status < 600 \<and> (\<exists>m. j = JObj [(''error'', JStr m)])"
  using error_responses [of err] by simp

lemma respond_answers:
  "r \<noteq> Crashed \<Longrightarrow> (\<And>x. r = Done x \<Longrightarrow> well_formed ax rq (f x)) \<Longrightarrow> answers ax rq (respond f r)"
  by (cases r) (auto simp: respond_def answers_def well_formed_def dest: error_form split: prod.split)

lemma json_answers: "r \<noteq> Crashed \<Longrightarrow> answers ax rq (respond (ok_json f) r)"
  by (rule respond_answers) (auto simp: ok_json_def well_formed_def)

lemma plain_answers [simp]: "answers ax rq (Some (JsonBody 200 j))" "answers ax rq (Some (Rejected (ax_captures ax)))"
  by (simp_all add: answers_def well_formed_def framework_rejects_def)

lemma query_answers: "(\<And>q. answers ax rq (f q)) \<Longrightarrow> answers ax rq (with_query ax rq names f)"
  by (auto simp: with_query_def answers_def well_formed_def framework_rejects_def split: sum.split)

lemma ipfs_answers:
  "answers ax rq (respond (\<lambda>(kind, body). BytesBody 200 kind body) (get_ipfs app http cid))"
proof (rule respond_answers)
  fix x assume "get_ipfs app http cid = Done x"
  then show "well_formed ax rq (case x of (kind, body) \<Rightarrow> BytesBody 200 kind body)"
    by (auto simp: get_ipfs_def well_formed_def read_body_exact IPFS_MAX_BYTES_def total_bytes_def
        split: if_splits option.splits gateway_answer.splits sum.splits)
qed (rule handlers_no_crash)

lemma handle_answers:
  assumes "\<And>d. app_store app = Some d \<Longrightarrow> store_reachable (sv_ext env) prefix d"
  shows "answers ax rq (fst (handle ax env app rq ep params c))"
proof (cases "(ax, env, app, rq, ep, params, c)" rule: handle.cases)
qed (use get_inference_no_crash [of app "sv_ext env" prefix, OF assms] in
    \<open>auto simp: case_prod_beta handlers_no_crash cached_handlers_no_crash ipfs_answers answers_def [of _ _ "Some (Rejected _)"]
       well_formed_def framework_rejects_def intro!: json_answers query_answers split: sum.split\<close>)

text \<open>Property C31. Every request is answered: on an index the store can reach, or none, and whatever
  the node, the storage and the upstreams report, no request makes a handler panic; the
  response is a success, an error object with the single member \<open>error\<close> and a status of the
  4xx or 5xx range, an object of at most 1 MiB from the proxy, or a rejection by the
  framework before any handler ran.\<close>

theorem server_answers:
  assumes "\<And>d. app_store app = Some d \<Longrightarrow> store_reachable (sv_ext env) prefix d"
  shows "\<exists>resp c'. router ax env app rq c = (Some resp, c') \<and> well_formed ax rq resp"
proof (cases "ax_route ax routes (rq_method rq) (rq_path rq)")
  case (Inl rej)
  then show ?thesis by (auto simp: router_def well_formed_def framework_rejects_def)
next
  case (Inr r)
  obtain ep params where "r = (ep, params)" by fastforce
  with Inr handle_answers [of app env prefix ax rq ep params c, OF assms] show ?thesis
    by (cases "handle ax env app rq ep params c") (simp add: router_def answers_def)
qed

section \<open>Paths reach their endpoints\<close>

text \<open>A path of a pattern: its captures, in order, replaced by values.\<close>

fun join_path :: "string list \<Rightarrow> string" where
  "join_path [] = []"
| "join_path [w] = w"
| "join_path (w # ws) = w @ CHR ''/'' # join_path ws"

definition is_capture :: "string \<Rightarrow> bool" where
  "is_capture w = (w \<noteq> [] \<and> hd w = CHR ''{'')"

fun fill_in :: "string list \<Rightarrow> string list \<Rightarrow> string list" where
  "fill_in [] params = []"
| "fill_in (w # ws) params =
     (if is_capture w then (case params of [] \<Rightarrow> w # fill_in ws [] | p # ps \<Rightarrow> p # fill_in ws ps)
      else w # fill_in ws params)"

definition path_for :: "string \<Rightarrow> string list \<Rightarrow> string" where
  "path_for pattern params = join_path (fill_in (split_on (CHR ''/'') pattern) params)"

text \<open>Values that need no percent-encoding in a path.\<close>

definition plain :: "string \<Rightarrow> bool" where
  "plain w = (w \<noteq> [] \<and> list_all (\<lambda>c. is_ascii_hexdigit c \<or> CHR ''a'' \<le> c \<and> c \<le> CHR ''z'' \<or> CHR ''A'' \<le> c \<and> c \<le> CHR ''Z''
     \<or> c = CHR '':'') w)"

text \<open>
  axum's documented routing, on the table of this server: a path made of a route's pattern
  and plain values for its captures is given to that route, with those values.
\<close>

definition axum_ok :: "axum \<Rightarrow> bool" where
  "axum_ok ax =
     (\<forall>(pattern, verb, ep) \<in> set routes. \<forall>params.
        list_all plain params \<and> length params = length (filter is_capture (split_on (CHR ''/'') pattern)) \<longrightarrow>
        ax_route ax routes verb (path_for pattern params) = Inr (ep, params))"

text \<open>A router that compares segments, taking the first route that fits.\<close>

fun match_segments :: "string list \<Rightarrow> string list \<Rightarrow> string list option" where
  "match_segments [] [] = Some []"
| "match_segments (w # ws) (v # vs) =
     (if is_capture w then (if v = [] then None else map_option (Cons v) (match_segments ws vs))
      else if w = v then match_segments ws vs else None)"
| "match_segments _ _ = None"

fun first_match ::
  "(string \<times> string \<times> endpoint) list \<Rightarrow> string \<Rightarrow> string list \<Rightarrow> rejection + endpoint \<times> string list" where
  "first_match [] verb path = Inl (404, [])"
| "first_match ((pattern, v, ep) # table) verb path =
     (case match_segments (split_on (CHR ''/'') pattern) path of
        Some params \<Rightarrow> if v = verb then Inr (ep, params) else Inl (405, [])
      | None \<Rightarrow> first_match table verb path)"

definition axum_sample :: axum where
  "axum_sample = \<lparr> ax_route = (\<lambda>table verb path. first_match table verb (split_on (CHR ''/'') path)),
     ax_query = (\<lambda>names q. Inr (\<lambda>_. None)), ax_index = (\<lambda>s. case parse_u64 s of None \<Rightarrow> Inl (400, s) | Some n \<Rightarrow> Inr (ucast n)),
     ax_body = (\<lambda>_. Inl []), ax_captures = (500, []) \<rparr>"

lemma split_on_no_sep: "sep \<notin> set w \<Longrightarrow> split_on sep w = [w]"
  by (induction w) auto

lemma split_on_append: "sep \<notin> set w \<Longrightarrow> split_on sep (w @ sep # s) = w # split_on sep s"
  by (induction w) auto

lemma split_join: "ws \<noteq> [] \<Longrightarrow> list_all (\<lambda>w. CHR ''/'' \<notin> set w) ws \<Longrightarrow> split_on (CHR ''/'') (join_path ws) = ws"
  by (induction ws rule: join_path.induct) (simp_all add: split_on_no_sep split_on_append)

lemma plain_segment: "plain w \<Longrightarrow> w \<noteq> [] \<and> CHR ''/'' \<notin> set w"
  by (auto simp: plain_def list_all_iff is_ascii_hexdigit_def is_ascii_digit_def less_eq_char_def)

lemma split_on_segments: "split_on sep s \<noteq> [] \<and> (\<forall>w \<in> set (split_on sep s). sep \<notin> set w)"
  by (induction s) (auto split: list.split)

lemma fill_in_segments:
  "list_all (\<lambda>w. CHR ''/'' \<notin> set w) ws \<Longrightarrow> list_all (\<lambda>w. CHR ''/'' \<notin> set w) params \<Longrightarrow>
     list_all (\<lambda>w. CHR ''/'' \<notin> set w) (fill_in ws params)"
  by (induction ws params rule: fill_in.induct) (auto split: list.splits)

lemma split_path_for:
  assumes "list_all plain params"
  shows "split_on (CHR ''/'') (path_for pattern params) = fill_in (split_on (CHR ''/'') pattern) params"
proof -
  note segs = split_on_segments [of "CHR ''/''" pattern]
  have "list_all (\<lambda>w. CHR ''/'' \<notin> set w) (fill_in (split_on (CHR ''/'') pattern) params)"
    using segs assms plain_segment by (intro fill_in_segments) (auto simp: list_all_iff)
  moreover have "fill_in (split_on (CHR ''/'') pattern) params \<noteq> []"
    using segs by (cases "split_on (CHR ''/'') pattern") (auto split: list.split)
  ultimately show ?thesis unfolding path_for_def by (intro split_join)
qed

lemma match_filled:
  "list_all (\<lambda>w. w \<noteq> []) params \<Longrightarrow> length params = length (filter is_capture ws) \<Longrightarrow>
     match_segments ws (fill_in ws params) = Some params"
proof (induction ws arbitrary: params)
  case (Cons w ws)
  then show ?case by (cases params) auto
qed simp

text \<open>Two patterns that differ in length or in a fixed segment share no path.\<close>

fun apart :: "string list \<Rightarrow> string list \<Rightarrow> bool" where
  "apart [] [] = False"
| "apart (w # ws) (v # vs) = (\<not> is_capture w \<and> \<not> is_capture v \<and> w \<noteq> v \<or> apart ws vs)"
| "apart _ _ = True"

lemma apart_no_match: "apart ws vs \<Longrightarrow> match_segments ws (fill_in vs params) = None"
  by (induction ws vs arbitrary: params rule: apart.induct) (auto split: list.split)

definition unambiguous :: "(string \<times> string \<times> endpoint) list \<Rightarrow> bool" where
  "unambiguous table =
     sorted_wrt (\<lambda>r r'. apart (split_on (CHR ''/'') (fst r)) (split_on (CHR ''/'') (fst r'))) table"

lemma first_match_route:
  "unambiguous table \<Longrightarrow> (pattern, verb, ep) \<in> set table \<Longrightarrow> list_all (\<lambda>w. w \<noteq> []) params \<Longrightarrow>
     length params = length (filter is_capture (split_on (CHR ''/'') pattern)) \<Longrightarrow>
     first_match table verb (fill_in (split_on (CHR ''/'') pattern) params) = Inr (ep, params)"
proof (induction table)
  case (Cons r table)
  obtain p v ep' where r: "r = (p, v, ep')" by (metis prod_cases3)
  show ?case
  proof (cases "(pattern, verb, ep) = r")
    case True
    then show ?thesis using Cons.prems(3,4) match_filled by (simp add: r)
  next
    case False
    then have "(pattern, verb, ep) \<in> set table" using Cons.prems(2) by simp
    moreover from this have "apart (split_on (CHR ''/'') p) (split_on (CHR ''/'') pattern)"
      using Cons.prems(1) by (auto simp: unambiguous_def r)
    ultimately show ?thesis using Cons apart_no_match by (simp add: r unambiguous_def)
  qed
qed simp

lemma routes_unambiguous: "unambiguous routes"
  by code_simp

lemma axum_ok_sample: "axum_ok axum_sample"
proof -
  have "ax_route axum_sample routes verb (path_for pattern params) = Inr (ep, params)"
    if "(pattern, verb, ep) \<in> set routes" "list_all plain params"
      "length params = length (filter is_capture (split_on (CHR ''/'') pattern))" for pattern verb ep params
  proof -
    have "list_all (\<lambda>w. w \<noteq> []) params" using that(2) plain_segment by (auto simp: list_all_iff)
    from first_match_route [OF routes_unambiguous that(1) this that(3)] show ?thesis
      using that(2) by (simp add: axum_sample_def split_path_for)
  qed
  then show ?thesis by (auto simp: axum_ok_def)
qed

lemma axum_route:
  "axum_ok ax \<Longrightarrow> (pattern, verb, ep) \<in> set routes \<Longrightarrow> list_all plain params \<Longrightarrow>
     length params = length (filter is_capture (split_on (CHR ''/'') pattern)) \<Longrightarrow>
     ax_route ax routes verb (path_for pattern params) = Inr (ep, params)"
  by (auto simp: axum_ok_def)

lemma history_path:
  assumes "axum_ok ax" "plain address"
  shows "ax_route ax routes ''GET'' (''/api/v1/addresses/'' @ address) = Inr (AddressHistory, [address])"
  using axum_route [OF assms(1), of "''/api/v1/addresses/{address}''" "''GET''" AddressHistory "[address]"] assms(2)
  by (simp add: routes_def path_for_def is_capture_def)

lemma transaction_path:
  assumes "axum_ok ax" "plain txid"
  shows "ax_route ax routes ''GET'' (''/api/v1/transactions/'' @ txid) = Inr (Transaction, [txid])"
  using axum_route [OF assms(1), of "''/api/v1/transactions/{id}''" "''GET''" Transaction "[txid]"] assms(2)
  by (simp add: routes_def path_for_def is_capture_def)

lemma spend_path:
  assumes "axum_ok ax" "plain txid" "plain index"
  shows "ax_route ax routes ''GET'' (''/api/v1/outpoints/'' @ txid @ CHR ''/'' # index @ ''/spend'')
    = Inr (OutpointSpend, [txid, index])"
  using axum_route [OF assms(1), of "''/api/v1/outpoints/{txid}/{index}/spend''" "''GET''" OutpointSpend "[txid, index]"] assms(2,3)
  by (simp add: routes_def path_for_def is_capture_def)

lemma validated_address_plain: "validate_address debug address = Inr () \<Longrightarrow> plain address"
proof -
  assume "validate_address debug address = Inr ()"
  then obtain prefix payload where p: "address = prefix @ CHR '':'' # payload" "prefix \<in> set ADDRESS_PREFIXES"
    "set payload \<subseteq> set BECH32_CHARSET"
    using validated_parts by blast
  have "list_all plain (BECH32_CHARSET # ADDRESS_PREFIXES)" by code_simp
  then show ?thesis using p by (fastforce simp: plain_def list_all_iff)
qed

lemma txid_plain: "is_txid txid \<Longrightarrow> plain txid"
  by (auto simp: is_txid_def plain_def list_all_iff)

section \<open>A sample environment\<close>

definition sample_server_env :: "int server_env" where
  "sample_server_env = \<lparr> sv_float = exact_ops, sv_float_json = JNum, sv_ext = ext_sample, sv_debug = (\<lambda>s. s),
     sv_io = (\<lambda>_. None), sv_info = sample_info_env, sv_balance = (\<lambda>_. Inl Timeout), sv_utxos = (\<lambda>_. Inl Timeout),
     sv_submit = (\<lambda>_. Inl Timeout), sv_market = (\<lambda>_. NoAnswer []), sv_market_at = (0, 0),
     sv_providers = \<lparr> pe_server_version = Inl Timeout, pe_cohort = Inl Timeout, pe_window = Inl Timeout,
       pe_cohort_first = True, pe_version_at = (0, 0), pe_providers_at = (0, 0) \<rparr>,
     sv_gateway = (\<lambda>_. Unsent []), sv_server_info = Inl Timeout \<rparr>"

definition get_request :: "string \<Rightarrow> request" where
  "get_request path = \<lparr> rq_method = ''GET'', rq_path = path, rq_query = [], rq_body = [] \<rparr>"

theorem server_answers_witness:
  "\<exists>m c'. router axum_sample sample_server_env sample_app (get_request (''/api/v1/transactions/'' @ claim_txid)) caches_default
     = (Some (JsonBody 404 (JObj [(''error'', JStr m)])), c')"
proof -
  let ?rq = "get_request (''/api/v1/transactions/'' @ claim_txid)"
  have store: "store_reachable (sv_ext sample_server_env) ''keryxsim'' d" if "app_store sample_app = Some d" for d
    using that sample_reachable2 by (simp add: app_store_def sample_app_def sample_server_env_def)
  have "ax_route axum_sample routes (rq_method ?rq) (rq_path ?rq) = Inr (Transaction, [claim_txid])"
    using transaction_path [OF axum_ok_sample txid_plain [OF claim_is_txid]] by (simp add: get_request_def)
  moreover have "claim_txid \<noteq> w" if "length w = 2" for w
    using that by (auto simp: claim_txid_def)
  then have "tx_by_id None claim_txid sample_db2 = Inr None"
    by (auto simp: tx_by_id_def sample_db2_simps tab_get_def)
  ultimately have "\<exists>j. fst (router axum_sample sample_server_env sample_app ?rq caches_default) = Some (JsonBody 404 j)"
    using claim_is_txid
    by (simp add: router_def get_transaction_def require_index_def app_store_def sample_app_def sample_server_env_def
        respond_def into_response_def error_status_def)
  with server_answers [of sample_app sample_server_env "''keryxsim''" axum_sample ?rq caches_default, OF store]
  show ?thesis by (auto simp: well_formed_def)
qed

section \<open>Accepted transactions over HTTP\<close>

text \<open>Property C8. What a block accepted is served: after a new chain block is applied, a GET of the
  path of each of its transactions is answered with status 200 and a document that the
  broadcast deserialiser reads back to the same transaction, naming the block and its
  score; and for each outpoint the transaction spends and no pending transaction does, the
  path of the spend is answered with this accepted transaction and the same document.\<close>

theorem accepted_transaction_over_http:
  assumes block: "store_reachable e prefix d" "store_apply None e prefix [grp] d = (Inr stats, d')"
      "tab_get (APPLIED d) (ag_chain_block_hash grp) = None"
      "unat (meta_u64 d ''next_tx_num'') + length (ag_txs grp) < 2 ^ 64"
      "distinct (map rt_tx_id (ag_txs grp))" "distinct (concat (map spent_keys (ag_txs grp)))"
    and raw: "raw \<in> set (ag_txs grp)" "is_txid (rt_tx_id raw)"
    and shim: "aa_indexer shim = Some h" "ih_store h = Some d'" "sv_io env 0 = None" "axum_ok ax"
    and rq: "rq_method rq = ''GET''"
  shows "\<exists>j. router ax env shim (rq\<lparr> rq_path := ''/api/v1/transactions/'' @ rt_tx_id raw \<rparr>) c = (Some (JsonBody 200 j), c)
    \<and> de_tx j = Some (tx_of_raw raw)
    \<and> json_get j ''block_hash'' = Some (JStr (ag_chain_block_hash grp))
    \<and> json_get j ''daa_score'' = Some (json_u64 (ag_daa_score grp))
    \<and> (\<forall>i \<in> set (spent_inputs raw). \<forall>index.
         is_txid (ri_previous_tx_id i) \<and> plain index \<and> ax_index ax index = Inr (ri_previous_index i)
         \<and> mempool_spend_of (ih_mempool h) (ri_previous_tx_id i) (ri_previous_index i) = None \<longrightarrow>
         router ax env shim (rq\<lparr> rq_path := ''/api/v1/outpoints/'' @ ri_previous_tx_id i @ CHR ''/'' # index @ ''/spend'' \<rparr>) c
           = (Some (JsonBody 200 (JObj [(''status'', JStr ''accepted''), (''transaction'', j)])), c))"
proof -
  obtain j where j: "get_transaction None shim (rt_tx_id raw) = Done j" "de_tx j = Some (tx_of_raw raw)"
    "json_get j ''block_hash'' = Some (JStr (ag_chain_block_hash grp))"
    "json_get j ''daa_score'' = Some (json_u64 (ag_daa_score grp))"
    "\<And>i. i \<in> set (spent_inputs raw) \<Longrightarrow> is_txid (ri_previous_tx_id i) \<Longrightarrow>
         mempool_spend_of (ih_mempool h) (ri_previous_tx_id i) (ri_previous_index i) = None \<Longrightarrow>
         get_outpoint_spend None shim (ri_previous_tx_id i) (ri_previous_index i)
           = Done (JObj [(''status'', JStr ''accepted''), (''transaction'', j)])"
    using accepted_transaction_served [OF block raw shim(1,2)] by blast
  have "router ax env shim (rq\<lparr> rq_path := ''/api/v1/transactions/'' @ rt_tx_id raw \<rparr>) c = (Some (JsonBody 200 j), c)"
    using transaction_path [OF shim(4) txid_plain [OF raw(2)]] rq j(1) shim(3)
    by (simp add: router_def respond_def ok_json_def)
  moreover have "router ax env shim (rq\<lparr> rq_path := ''/api/v1/outpoints/'' @ ri_previous_tx_id i @ CHR ''/'' # index @ ''/spend'' \<rparr>) c
      = (Some (JsonBody 200 (JObj [(''status'', JStr ''accepted''), (''transaction'', j)])), c)"
    if "i \<in> set (spent_inputs raw)" "is_txid (ri_previous_tx_id i)" "plain index" "ax_index ax index = Inr (ri_previous_index i)"
      "mempool_spend_of (ih_mempool h) (ri_previous_tx_id i) (ri_previous_index i) = None" for i index
    using spend_path [OF shim(4) txid_plain [OF that(2)] that(3)] rq j(5) [OF that(1,2,5)] shim(3) that(4)
    by (simp add: router_def respond_def ok_json_def)
  ultimately show ?thesis using j(2-4) by blast
qed

theorem accepted_transaction_over_http_witness:
  "\<exists>j. router axum_sample sample_server_env (sample_app\<lparr> aa_indexer := Some served_handle \<rparr>)
       (get_request (''/api/v1/transactions/'' @ claim_txid)) caches_default = (Some (JsonBody 200 j), caches_default)
     \<and> de_tx j = Some (tx_of_raw served_tx) \<and> json_get j ''block_hash'' = Some (JStr ''b1'')"
proof -
  let ?shim = "sample_app\<lparr> aa_indexer := Some served_handle \<rparr>"
  have shim: "aa_indexer ?shim = Some served_handle" "ih_store served_handle = Some served_db" "sv_io sample_server_env 0 = None"
    by (simp_all add: served_handle_def sample_server_env_def)
  have raw: "served_tx \<in> set (ag_txs served_group)" "is_txid (rt_tx_id served_tx)"
    using claim_is_txid by (simp_all add: served_facts)
  have rq: "rq_method (get_request []) = ''GET''"
    "get_request []\<lparr> rq_path := path \<rparr> = get_request path" for path
    by (simp_all add: get_request_def)
  obtain stats where "store_apply None ext_sample ''keryxsim'' [served_group] empty_db = (Inr stats, served_db)"
    using served_apply by blast
  from accepted_transaction_over_http [OF served_block(1) this served_block(2-5) raw shim axum_ok_sample rq(1), of caches_default]
  show ?thesis unfolding rq(2) by (auto simp: served_facts)
qed

end
