(* ===== verification/IndexerProps.thy ===== *)
theory IndexerProps
  imports Indexer StoreProps
begin

text \<open>
  What the indexer task guarantees over every sequence of notifications: the groups it
  builds from an acceptance list, and the invariant of the task, in particular that the
  database is only ever changed by the store's own operations.
\<close>

section \<open>Groups are the acceptance lists, as far as the bodies are staged\<close>

lemma pull_txs_eq:
  "pull_txs staging ids (txs, misses) =
     (txs @ List.map_filter (staged_tx staging) ids,
      misses + word_of_nat (length (filter (\<lambda>i. staged_tx staging i = None) ids)))"
  by (induction ids arbitrary: txs misses) (auto simp: List.map_filter_simps split: option.splits)

definition group_of :: "node_env \<Rightarrow> Staging \<Rightarrow> nat \<Rightarrow> RpcAcceptedTransactionIds \<Rightarrow> AcceptedGroup" where
  "group_of node staging n a =
     \<lparr> ag_chain_block_hash = ac_accepting_block_hash a,
       ag_daa_score = (case staged_block_daa staging (ac_accepting_block_hash a) of
                         Some daa \<Rightarrow> daa
                       | None \<Rightarrow> resolve_daa (nd_get_block node n (ac_accepting_block_hash a))),
       ag_txs = List.map_filter (staged_tx staging) (ac_accepted_transaction_ids a) \<rparr>"

definition missed :: "Staging \<Rightarrow> RpcAcceptedTransactionIds \<Rightarrow> nat" where
  "missed staging a = length (filter (\<lambda>i. staged_tx staging i = None) (ac_accepted_transaction_ids a))"

lemma build_group_eq:
  "build_group node staging (n, a) (groups, misses) =
     (groups @ [group_of node staging n a], misses + word_of_nat (missed staging a))"
  by (simp add: build_group_def group_of_def missed_def pull_txs_eq)

lemma build_groups_fold:
  "fold (build_group node staging) (enumerate n accepted) (groups, misses) =
     (groups @ map (\<lambda>(n, a). group_of node staging n a) (enumerate n accepted),
      misses + word_of_nat (sum_list (map (missed staging) accepted)))"
  by (induction accepted arbitrary: n groups misses) (simp_all add: build_group_eq)

lemma build_groups_eq:
  "build_groups node staging accepted =
     (map (\<lambda>(n, a). group_of node staging n a) (enumerate 0 accepted),
      word_of_nat (sum_list (map (missed staging) accepted)))"
  by (simp add: build_groups_def build_groups_fold)

lemma map_filter_length:
  "length (List.map_filter f xs) + length (filter (\<lambda>x. f x = None) xs) = length xs"
  by (induction xs) (auto simp: List.map_filter_simps split: option.splits)

lemma group_of_sel [simp]:
  "ag_chain_block_hash (group_of node staging n a) = ac_accepting_block_hash a"
  "ag_txs (group_of node staging n a) = List.map_filter (staged_tx staging) (ac_accepted_transaction_ids a)"
  by (simp_all add: group_of_def)

lemma group_txs_simps [simp]: "group_txs [] = 0" "group_txs (g # gs) = length (ag_txs g) + group_txs gs"
  by (simp_all add: group_txs_def)

lemma group_txs_enumerate:
  "group_txs (map (\<lambda>(n, a). group_of node staging n a) (enumerate n accepted))
     + sum_list (map (missed staging) accepted)
   = sum_list (map (length \<circ> ac_accepted_transaction_ids) accepted)"
proof (induction accepted arbitrary: n)
  case (Cons a accepted)
  have "length (List.map_filter (staged_tx staging) (ac_accepted_transaction_ids a)) + missed staging a
      = length (ac_accepted_transaction_ids a)"
    unfolding missed_def by (rule map_filter_length)
  then show ?case using Cons.IH [of "Suc n"] by simp
qed simp

lemma staged_ids:
  assumes "staging_inv staging"
  shows "map rt_tx_id (List.map_filter (staged_tx staging) ids) = filter (\<lambda>i. staged_tx staging i \<noteq> None) ids"
  using assms by (induction ids) (auto simp: List.map_filter_simps staging_inv_def split: option.splits)

lemma staging_inv_fold: "staging_inv s \<Longrightarrow> staging_inv (fold stage_block blocks s)"
  by (induction blocks arbitrary: s) (auto simp: stage_block_inv)

text \<open>
  What a sequence of blocks leaves staged, as the two bounded queues: the bodies of the
  transactions that carry an id, and the scores of the blocks that carry a hash and a header.
\<close>

definition staged_raws :: "RpcBlock list \<Rightarrow> RawTx list" where
  "staged_raws blocks = concat (map (\<lambda>b. List.map_filter raw_from_proto (bl_transactions b)) blocks)"

definition block_score :: "RpcBlock \<Rightarrow> (string \<times> u64) option" where
  "block_score b =
     (case (bl_verbose_hash b, bl_header_daa b) of
        (Some hash, Some daa) \<Rightarrow> if hash \<noteq> [] then Some (hash, daa) else None
      | _ \<Rightarrow> None)"

definition body_queue :: "RpcBlock list \<Rightarrow> (string \<times> RawTx) list" where
  "body_queue blocks =
     fold (\<lambda>(k, v). queue_insert 50000 k v) (map (\<lambda>raw. (rt_tx_id raw, raw)) (staged_raws blocks)) []"

definition score_queue :: "RpcBlock list \<Rightarrow> (string \<times> u64) list" where
  "score_queue blocks = fold (\<lambda>(k, v). queue_insert 20000 k v) (List.map_filter block_score blocks) []"

lemma stage_blocks_maps:
  "sg_tx_bodies (fold stage_block blocks s)
     = fold (\<lambda>(k, v). bounded_insert k v) (map (\<lambda>raw. (rt_tx_id raw, raw)) (staged_raws blocks)) (sg_tx_bodies s)
   \<and> sg_block_daa (fold stage_block blocks s)
     = fold (\<lambda>(k, v). bounded_insert k v) (List.map_filter block_score blocks) (sg_block_daa s)"
proof (induction blocks arbitrary: s)
  case (Cons b blocks)
  have "sg_tx_bodies (stage_block b s)
      = fold (\<lambda>(k, v). bounded_insert k v) (map (\<lambda>raw. (rt_tx_id raw, raw)) (List.map_filter raw_from_proto (bl_transactions b)))
          (sg_tx_bodies s)"
    by (simp add: stage_block_def fold_stage_tx fold_map comp_def Let_def split: option.split)
  moreover have "sg_block_daa (stage_block b s)
      = (case block_score b of None \<Rightarrow> sg_block_daa s | Some (h, daa) \<Rightarrow> bounded_insert h daa (sg_block_daa s))"
    by (simp add: stage_block_def block_score_def Let_def split: option.split)
  ultimately show ?case
    using Cons.IH [of "stage_block b s"]
    by (simp add: staged_raws_def List.map_filter_simps split: option.split)
qed (simp_all add: staged_raws_def List.map_filter_simps)

lemma bounded_fold_get:
  "bounded_get (fold (\<lambda>(k, v). bounded_insert k v) kvs (bounded_new cap)) key
     = map_of (fold (\<lambda>(k, v). queue_insert cap k v) kvs []) key"
  using queue.run_refines [of "bounded_new cap" cap kvs]
  by (simp add: entries_new bounded_new_inv bounded_get_entries)

lemma staged_queues:
  "staged_tx (fold stage_block blocks staging_new) = map_of (body_queue blocks)"
  "staged_block_daa (fold stage_block blocks staging_new) = map_of (score_queue blocks)"
  by (simp_all add: fun_eq_iff staged_tx_def staged_block_daa_def stage_blocks_maps body_queue_def score_queue_def
      staging_new_def STAGE_TX_CAP_def STAGE_BLOCK_CAP_def bounded_fold_get)

lemma queue_inserted: "set (fold (\<lambda>(k, v). queue_insert cap k v) kvs q) \<subseteq> set kvs \<union> set q"
proof (induction kvs arbitrary: q)
  case (Cons kv kvs)
  obtain k v where kv: "kv = (k, v)" by (cases kv)
  have "set (queue_insert cap k v q) \<subseteq> insert (k, v) (set q)"
    by (auto simp: queue_insert_def dest: in_set_dropD split: if_splits)
  then show ?case using Cons.IH [of "queue_insert cap k v q"] by (auto simp: kv)
qed simp

lemma staged_body_from_block:
  assumes "map_of (body_queue blocks) i = Some raw"
  shows "rt_tx_id raw = i \<and> (\<exists>block \<in> set blocks. \<exists>tx \<in> set (bl_transactions block). raw_from_proto tx = Some raw)"
proof -
  have "(i, raw) \<in> (\<lambda>raw. (rt_tx_id raw, raw)) ` set (staged_raws blocks)"
    using map_of_SomeD [OF assms] queue_inserted [of 50000 "map (\<lambda>raw. (rt_tx_id raw, raw)) (staged_raws blocks)" "[]"]
    by (auto simp: body_queue_def)
  then show ?thesis by (auto simp: staged_raws_def List.map_filter_def) blast
qed

text \<open>
  Property C24. Whatever blocks were staged before, there is one group per acceptance list of the
  node, in order. A group names the accepting block; its score is the one staged for that
  block, else the header score of the node's answer to the lookup, else 0; its transactions
  are the staged bodies of the accepted ids, in the order of the list, where the staged
  bodies are the latest 50000 distinct ids of the blocks' transactions; so every body is the
  conversion of a transaction of one of the blocks and stands under its own id. Every id
  without a body is counted as a miss, and bodies and misses add up to the ids.
\<close>

theorem build_groups_exact:
  "(let (groups, misses) = build_groups node (fold stage_block blocks staging_new) accepted
    in groups = map (\<lambda>(n, a).
           \<lparr> ag_chain_block_hash = ac_accepting_block_hash a,
             ag_daa_score =
               (case map_of (score_queue blocks) (ac_accepting_block_hash a) of
                  Some daa \<Rightarrow> daa
                | None \<Rightarrow> (case nd_get_block node n (ac_accepting_block_hash a) of
                             Inr (Some block) \<Rightarrow> (case bl_header_daa block of Some daa \<Rightarrow> daa | None \<Rightarrow> 0)
                           | _ \<Rightarrow> 0)),
             ag_txs = List.map_filter (map_of (body_queue blocks)) (ac_accepted_transaction_ids a) \<rparr>)
         (enumerate 0 accepted)
     \<and> list_all2 (\<lambda>a g. map rt_tx_id (ag_txs g)
           = filter (\<lambda>i. map_of (body_queue blocks) i \<noteq> None) (ac_accepted_transaction_ids a)) accepted groups
     \<and> (\<forall>g \<in> set groups. \<forall>raw \<in> set (ag_txs g).
          \<exists>block \<in> set blocks. \<exists>tx \<in> set (bl_transactions block). raw_from_proto tx = Some raw)
     \<and> misses + word_of_nat (group_txs groups)
         = word_of_nat (sum_list (map (length \<circ> ac_accepted_transaction_ids) accepted)))"
proof -
  let ?s = "fold stage_block blocks staging_new" and ?bodies = "map_of (body_queue blocks)"
  have ids: "map rt_tx_id (List.map_filter ?bodies xs) = filter (\<lambda>i. ?bodies i \<noteq> None) xs" for xs
    using staged_ids [OF staging_inv_fold [OF staging_new_inv, of blocks]] by (simp only: staged_queues)
  have "group_of node ?s n a = \<lparr> ag_chain_block_hash = ac_accepting_block_hash a,
      ag_daa_score =
        (case map_of (score_queue blocks) (ac_accepting_block_hash a) of
           Some daa \<Rightarrow> daa
         | None \<Rightarrow> (case nd_get_block node n (ac_accepting_block_hash a) of
                      Inr (Some block) \<Rightarrow> (case bl_header_daa block of Some daa \<Rightarrow> daa | None \<Rightarrow> 0)
                    | _ \<Rightarrow> 0)),
      ag_txs = List.map_filter ?bodies (ac_accepted_transaction_ids a) \<rparr>" for n a
    by (auto simp: group_of_def staged_queues resolve_daa_def unwrap_or_def split: option.split sum.split)
  moreover have "list_all2 (\<lambda>a g. map rt_tx_id (ag_txs g)
           = filter (\<lambda>i. ?bodies i \<noteq> None) (ac_accepted_transaction_ids a))
      accepted (map (\<lambda>(n, a). group_of node ?s n a) (enumerate n accepted))" for n
    by (induction accepted arbitrary: n) (simp_all add: ids staged_queues del: not_None_eq)
  moreover have "\<exists>block \<in> set blocks. \<exists>tx \<in> set (bl_transactions block). raw_from_proto tx = Some raw"
    if "raw \<in> set (ag_txs (group_of node ?s n a))" for raw n a
    using that staged_body_from_block [of blocks _ raw] by (auto simp: staged_queues List.map_filter_def)
  moreover have "(word_of_nat (sum_list (map (missed ?s) accepted)) :: u64)
      + word_of_nat (group_txs (map (\<lambda>(n, a). group_of node ?s n a) (enumerate 0 accepted)))
    = word_of_nat (sum_list (map (length \<circ> ac_accepted_transaction_ids) accepted))"
    unfolding of_nat_add [symmetric] using group_txs_enumerate [of node ?s 0 accepted]
    by (simp add: add.commute)
  ultimately show ?thesis by (auto simp: build_groups_eq Let_def)
qed

section \<open>Steps of the task\<close>

definition vc_ids :: "VirtualChain \<Rightarrow> nat" where
  "vc_ids vc = sum_list (map (length \<circ> ac_accepted_transaction_ids) (vc_accepted_transaction_ids vc))"

text \<open>The transaction numbers have room for an acceptance list.\<close>

definition room :: "db \<Rightarrow> VirtualChain \<Rightarrow> bool" where
  "room d vc = (unat (meta_u64 d ''next_tx_num'') + vc_ids vc < 2 ^ 64)"

text \<open>The prefix a connection would open the store with.\<close>

definition open_prefix :: "node_env \<Rightarrow> string" where
  "open_prefix node =
     prefix_for_network (case nd_open_info node of Inl _ \<Rightarrow> [] | Inr info \<Rightarrow> di_network_name info)"

text \<open>
  A step is one notification, with any answers of the node and any storage errors, as long
  as the node stays on one network and the transaction numbers do not exceed 64 bits.
\<close>

inductive engine_step :: "ext \<Rightarrow> string \<Rightarrow> engine \<Rightarrow> engine \<Rightarrow> bool" for e prefix where
  connected: "en_alive s \<Longrightarrow> open_prefix node = prefix \<Longrightarrow>
    (\<And>start vc. nd_virtual_chain node start = Inr vc \<Longrightarrow> room (en_db s) vc) \<Longrightarrow>
    engine_step e prefix s (on_notification node io e (Connected generation) s)"
| block_added: "en_alive s \<Longrightarrow> engine_step e prefix s (on_notification node io e (BlockAdded block) s)"
| chain_changed: "en_alive s \<Longrightarrow> room (en_db s) vc \<Longrightarrow>
    engine_step e prefix s (on_notification node io e (VirtualChainChanged vc) s)"

inductive_cases engine_stepE: "engine_step e prefix s s'"

definition engine_inv :: "ext \<Rightarrow> string \<Rightarrow> engine \<Rightarrow> bool" where
  "engine_inv e prefix s =
     (store_reachable e prefix (en_db s) \<and> staging_inv (en_staging s)
      \<and> (en_store s = None \<and> en_pollers s = [] \<and> st_state (en_status s) = Connecting
         \<or> en_store s = Some prefix \<and> en_pollers s = (if en_poll_ms s = 0 then [] else [prefix]))
      \<and> cx_window_daa (en_ctx s) = saturating_mul (st_window_days (en_status s)) DAA_PER_DAY
      \<and> st_resolve_misses (en_status s) = cx_total_misses (en_ctx s))"

lemma reachable_step: "store_reachable e prefix d \<Longrightarrow> store_step e prefix d d' \<Longrightarrow> store_reachable e prefix d'"
  by (auto simp: store_reachable_def)

lemma engine_inv_edit:
  assumes "engine_inv e prefix s" "en_store s \<noteq> None \<or> st_state (f (en_status s)) = Connecting"
    "st_window_days (f (en_status s)) = st_window_days (en_status s)"
    "st_resolve_misses (f (en_status s)) = st_resolve_misses (en_status s)"
  shows "engine_inv e prefix (edit f s)"
  using assms by (auto simp: engine_inv_def edit_def)

lemma engine_inv_db:
  assumes "engine_inv e prefix s" "store_step e prefix (en_db s) d"
  shows "engine_inv e prefix (s\<lparr> en_db := d \<rparr>)"
  using assms reachable_step by (auto simp: engine_inv_def)

lemma sweep_inv:
  assumes "engine_inv e prefix s"
  shows "engine_inv e prefix (sweep io cp s)"
  using assms reachable_step [OF _ step_expire] by (auto simp: engine_inv_def sweep_def)

lemma apply_groups_engine:
  assumes inv: "engine_inv e prefix s" and st: "en_store s = Some prefix"
    and room: "unat (meta_u64 (en_db s) ''next_tx_num'') + group_txs groups < 2 ^ 64"
  shows "engine_inv e prefix (apply_groups io e prefix groups misses s)
    \<and> en_store (apply_groups io e prefix groups misses s) = Some prefix"
proof -
  obtain r d where a: "store_apply (io_apply io) e prefix groups (en_db s) = (r, d)" by fastforce
  have d: "store_step e prefix (en_db s) d"
    using step_apply [OF room, of e prefix "io_apply io"] a by simp
  show ?thesis
  proof (cases r)
    case (Inl f)
    have "engine_inv e prefix (s\<lparr> en_db := d, en_alive := b \<rparr>)" for b
      using engine_inv_db [OF inv d] by (simp add: engine_inv_def)
    then show ?thesis
      using Inl a st engine_inv_db [OF inv d] inv by (cases f) (simp_all add: apply_groups_def)
  next
    case (Inr stats)
    let ?s = "sweep (io_expire io) (as_checkpoint_daa stats)
      (s\<lparr> en_db := d, en_ctx := (en_ctx s)\<lparr> cx_total_misses := cx_total_misses (en_ctx s) + misses \<rparr> \<rparr>)"
    have "store_reachable e prefix (en_db ?s)" "en_store ?s = Some prefix" "en_staging ?s = en_staging s"
      "en_poll_ms ?s = en_poll_ms s" "en_pollers ?s = en_pollers s" "en_status ?s = en_status s" "cx_window_daa (en_ctx ?s) = cx_window_daa (en_ctx s)"
      using inv st reachable_step [OF _ d] reachable_step [OF _ step_expire] by (auto simp: engine_inv_def sweep_def)
    then show ?thesis using Inr a st inv by (auto simp: apply_groups_def Let_def edit_def engine_inv_def)
  qed
qed

lemma unwind_meta:
  assumes "store_inv d"
  shows "meta_u64 (snd (unwind_chain_block io hash d)) ''next_tx_num'' = meta_u64 d ''next_tx_num''"
proof (cases "io = None \<and> tab_get (ACCEPTED_BY d) hash \<noteq> None")
  case True
  then obtain ns where ns: "tab_get (ACCEPTED_BY d) hash = Some ns" by auto
  obtain d1 tot1 r1 where f: "fold unwind_tx (rev ns) (d, meta_u64 d ''total_txs'', 0) = (d1, tot1, r1)"
    by (metis prod_cases3)
  have "META d1 = META d" using unwind_txs_inv [OF _ f] assms by (simp add: store_inv_def)
  then show ?thesis using True ns f by (simp add: unwind_chain_block_def meta_u64_def)
qed (auto simp: unwind_chain_block_def split: option.splits)

lemma unwind_removed_reachable:
  assumes "store_reachable e prefix d"
  shows "store_reachable e prefix (unwind_removed io n hashes d)
    \<and> meta_u64 (unwind_removed io n hashes d) ''next_tx_num'' = meta_u64 d ''next_tx_num''"
  using assms
proof (induction hashes arbitrary: n d)
  case (Cons hash hashes)
  let ?d = "snd (unwind_chain_block (io n) hash d)"
  have "store_reachable e prefix ?d" using reachable_step [OF Cons.prems step_unwind] .
  then show ?case
    using Cons.IH [of ?d "Suc n"] unwind_meta [OF reachable_inv [OF Cons.prems], of "io n" hash] by simp
qed simp

lemma build_groups_room:
  "room d vc \<Longrightarrow> build_groups node staging (vc_accepted_transaction_ids vc) = (groups, misses) \<Longrightarrow>
     unat (meta_u64 d ''next_tx_num'') + group_txs groups < 2 ^ 64"
  using group_txs_enumerate [of node staging 0 "vc_accepted_transaction_ids vc"]
  by (auto simp: room_def vc_ids_def build_groups_eq)

lemma stage_from_inv: "staging_inv st \<Longrightarrow> staging_inv (stage_from node vc st)"
  by (auto simp: stage_from_def staging_inv_fold split: list.split sum.split)

lemma backfill_inv:
  assumes inv: "engine_inv e prefix s" and st: "en_store s = Some prefix"
    and room: "\<And>start vc. nd_virtual_chain node start = Inr vc \<Longrightarrow> room (en_db s) vc"
    and b: "backfill node io e prefix s = (r, s')"
  shows "engine_inv e prefix s' \<and> en_store s' = Some prefix"
proof -
  have "engine_inv e prefix (apply_groups io e prefix groups misses (s\<lparr> en_staging := stage_from node vc (en_staging s) \<rparr>))
    \<and> en_store (apply_groups io e prefix groups misses (s\<lparr> en_staging := stage_from node vc (en_staging s) \<rparr>)) = Some prefix"
    if vc: "nd_virtual_chain node start = Inr vc"
      "build_groups node (stage_from node vc (en_staging s)) (vc_accepted_transaction_ids vc) = (groups, misses)"
    for start vc groups misses
    using inv st build_groups_room [OF room [OF vc(1)] vc(2)]
    by (intro apply_groups_engine) (simp_all add: engine_inv_def stage_from_inv)
  then show ?thesis
    using b inv st by (auto simp: backfill_def Let_def split: sum.splits if_splits prod.splits)
qed

lemma on_connected_inv:
  assumes inv: "engine_inv e prefix s" and st: "en_store s = Some prefix"
    and room: "\<And>start vc. nd_virtual_chain node start = Inr vc \<Longrightarrow> room (en_db s) vc"
  shows "engine_inv e prefix (on_connected node io e prefix s)"
proof -
  let ?s = "edit (\<lambda>st. st\<lparr> st_state := Backfilling \<rparr>) s"
  obtain r s' where b: "backfill node io e prefix ?s = (r, s')" by fastforce
  have "engine_inv e prefix ?s" using inv st by (intro engine_inv_edit) simp_all
  then have "engine_inv e prefix s'" "en_store s' = Some prefix"
    using backfill_inv [OF _ _ _ b] st room by (simp_all add: edit_def)
  moreover from this have "engine_inv e prefix (edit (\<lambda>st. st\<lparr> st_state := Live \<rparr>) s')"
    by (intro engine_inv_edit) simp_all
  ultimately show ?thesis using inv b by (auto simp: on_connected_def split: sum.split)
qed

lemma connected_inv:
  assumes inv: "engine_inv e prefix s" and p: "open_prefix node = prefix"
    and room: "\<And>start vc. nd_virtual_chain node start = Inr vc \<Longrightarrow> room (en_db s) vc"
  shows "engine_inv e prefix (on_notification node io e (Connected generation) s)"
proof -
  let ?s = "edit (\<lambda>st. st\<lparr> st_state := Connecting, st_generation := generation \<rparr>) s"
  have i: "engine_inv e prefix ?s" using inv by (intro engine_inv_edit) simp_all
  have same: "en_store ?s = en_store s" "en_db ?s = en_db s" "en_pollers ?s = en_pollers s"
    "en_poll_ms ?s = en_poll_ms s" by (simp_all add: edit_def)
  let ?pollers = "spawn_poller prefix (en_poll_ms s) (en_pollers s)"
  show ?thesis
  proof (cases "en_store s")
    case None
    obtain r d where o: "store_open (io_open io) (en_db s) = (r, d)" by fastforce
    then have d: "store_step e prefix (en_db s) d" using step_open [of e prefix "en_db s" "io_open io"] by simp
    have meta: "meta_u64 d ''next_tx_num'' = meta_u64 (en_db s) ''next_tx_num''"
      using o by (auto simp: store_open_def meta_u64_def split: option.splits if_splits)
    have "engine_inv e prefix (?s\<lparr> en_db := d \<rparr>)" using engine_inv_db [OF i] d same by simp
    moreover from this have "engine_inv e prefix (?s\<lparr> en_db := d, en_store := Some prefix, en_pollers := ?pollers \<rparr>)"
      using None same inv by (auto simp: engine_inv_def spawn_poller_def)
    then have "engine_inv e prefix (on_connected node io e prefix
        (?s\<lparr> en_db := d, en_store := Some prefix, en_pollers := ?pollers \<rparr>))"
      by (rule on_connected_inv) (use room meta in \<open>simp_all add: room_def\<close>)
    ultimately show ?thesis
      using None o p same
      by (cases r) (simp_all add: on_notification_def open_store_def open_prefix_def Let_def)
  next
    case (Some q)
    then have "q = prefix" using inv by (simp add: engine_inv_def)
    then show ?thesis
      using Some on_connected_inv [OF i, of node io] room same by (simp add: on_notification_def Let_def)
  qed
qed

lemma chain_changed_inv:
  assumes inv: "engine_inv e prefix s" and room: "room (en_db s) vc"
  shows "engine_inv e prefix (on_notification node io e (VirtualChainChanged vc) s)"
proof (cases "en_store s")
  case None
  then show ?thesis using inv by (simp add: on_notification_def)
next
  case (Some q)
  then have q: "q = prefix" using inv by (simp add: engine_inv_def)
  let ?d = "unwind_removed (io_unwind io) 0 (vc_removed_chain_block_hashes vc) (en_db s)"
  obtain groups misses where g: "build_groups node (en_staging s) (vc_accepted_transaction_ids vc) = (groups, misses)"
    by fastforce
  have u: "store_reachable e prefix ?d" "meta_u64 ?d ''next_tx_num'' = meta_u64 (en_db s) ''next_tx_num''"
    using unwind_removed_reachable [of e prefix "en_db s"] inv by (simp_all add: engine_inv_def)
  then have "engine_inv e prefix (s\<lparr> en_db := ?d \<rparr>)" using inv by (simp add: engine_inv_def)
  then have "engine_inv e prefix (apply_groups io e prefix groups misses (s\<lparr> en_db := ?d \<rparr>))"
    using apply_groups_engine [of e prefix "s\<lparr> en_db := ?d \<rparr>"] Some q u(2) build_groups_room [OF room g] by simp
  then show ?thesis using Some q g by (simp add: on_notification_def)
qed

lemma engine_step_inv:
  assumes inv: "engine_inv e prefix s" and step: "engine_step e prefix s s'"
  shows "engine_inv e prefix s'"
  using step
proof (cases rule: engine_step.cases)
  case (block_added node io block)
  then show ?thesis
    using inv by (auto simp: on_notification_def engine_inv_def edit_def Let_def stage_block_inv)
qed (use inv connected_inv chain_changed_inv in auto)

definition engine_init :: "ext \<Rightarrow> string \<Rightarrow> engine \<Rightarrow> bool" where
  "engine_init e prefix s = (\<exists>days disk poll_ms. s = indexer_spawn days disk poll_ms \<and> store_reachable e prefix disk)"

lemma engine_init_inv: "engine_init e prefix s \<Longrightarrow> engine_inv e prefix s"
  by (auto simp: engine_init_def engine_inv_def indexer_spawn_def staging_new_inv)

interpretation task: invariant_system "engine_init e prefix" "engine_step e prefix" "engine_inv e prefix"
  by unfold_locales (auto intro: engine_init_inv engine_step_inv)

lemma saturating_mul_nat: "unat (saturating_mul a b) = min (unat a * unat b) (2 ^ 64 - 1)"
proof (cases "unat a * unat b < 2 ^ 64")
  case True
  then show ?thesis by (simp add: saturating_mul_def unat_mult_lem [THEN iffD1])
next
  case False
  then show ?thesis by (simp add: saturating_mul_def unsigned_minus_1_eq_mask mask_eq_exp_minus_1)
qed

text \<open>The settings the task was started with never change.\<close>

definition settings :: "engine \<Rightarrow> u64 \<times> u64" where
  "settings s = (en_poll_ms s, st_window_days (en_status s))"

lemma settings_sweep: "settings (sweep io cp s) = settings s"
  by (simp add: settings_def sweep_def)

lemma settings_apply_groups: "settings (apply_groups io e prefix groups misses s) = settings s"
  using settings_sweep
  by (auto simp: apply_groups_def settings_def edit_def Let_def split: prod.split sum.split fault.split)

lemma settings_on_connected: "settings (on_connected node io e prefix s) = settings s"
proof -
  have "settings (snd (backfill node io e prefix s')) = settings s'" for s'
    using settings_apply_groups [of io e prefix _ _ "s'\<lparr> en_staging := _ \<rparr>"]
    by (auto simp: backfill_def settings_def Let_def split: prod.split sum.split)
  from this [of "edit (\<lambda>st. st\<lparr> st_state := Backfilling \<rparr>) s"] show ?thesis
    by (auto simp: on_connected_def settings_def edit_def Let_def split: prod.splits sum.split)
qed

lemma settings_on_notification: "settings (on_notification node io e n s) = settings s"
proof (cases n)
  case (Connected generation)
  then show ?thesis
    using settings_on_connected
    by (auto simp: on_notification_def settings_def edit_def Let_def split: prod.split sum.split option.split)
next
  case (BlockAdded block)
  then show ?thesis by (simp add: on_notification_def settings_def edit_def Let_def)
next
  case (VirtualChainChanged vc)
  then show ?thesis
    using settings_apply_groups
    by (auto simp: on_notification_def settings_def Let_def split: prod.split option.split)
qed

lemma settings_kept: "(engine_step e prefix)\<^sup>*\<^sup>* s s' \<Longrightarrow> settings s' = settings s"
  by (induction rule: rtranclp_induct) (auto simp: settings_on_notification elim: engine_stepE)

text \<open>
  Property C20. Over every sequence of notifications (connections, blocks, chain changes and
  reorganisations), with any answers of the node and any storage errors, the indexer's
  database stays one that the store's own operations reach from the empty one, so every
  guarantee about reachable databases holds for what the endpoints read; the store is opened
  at most once, and from then on exactly one mempool poller runs with its prefix, or none
  when the polling interval is zero; before that no poller runs and the state is
  \<open>Connecting\<close>; the miss counter of the status is the task's; the retention window is the
  number of days the task was started with, in scores, capped at 64 bits.
\<close>

theorem indexer_keeps_store:
  assumes "store_reachable e prefix disk"
    and "(engine_step e prefix)\<^sup>*\<^sup>* (indexer_spawn days disk poll_ms) s"
  shows "store_reachable e prefix (en_db s)
    \<and> (en_store s = None \<and> en_pollers s = [] \<and> st_state (en_status s) = Connecting
       \<or> en_store s = Some prefix \<and> en_pollers s = (if poll_ms = 0 then [] else [prefix]))
    \<and> st_resolve_misses (en_status s) = cx_total_misses (en_ctx s)
    \<and> unat (cx_window_daa (en_ctx s)) = min (unat days * 864000) (2 ^ 64 - 1)"
proof -
  have "engine_inv e prefix s" using task.reach_inv [OF assms(2)] assms(1) by (auto simp: engine_init_def)
  moreover have "en_poll_ms s = poll_ms" "st_window_days (en_status s) = days"
    using settings_kept [OF assms(2)] by (simp_all add: settings_def indexer_spawn_def)
  ultimately show ?thesis by (auto simp: engine_inv_def saturating_mul_nat DAA_PER_DAY_def)
qed

section \<open>Samples\<close>

definition sample_node :: node_env where
  "sample_node =
     \<lparr> nd_open_info = Inr \<lparr> di_network_name = ''keryx-simnet'', di_sink = [] \<rparr>,
       nd_start_info = Inl Timeout, nd_notify_block_added = Inr (), nd_notify_virtual_chain = Inr (),
       nd_virtual_chain = (\<lambda>_. Inl Timeout), nd_get_blocks = (\<lambda>_. Inl Timeout),
       nd_get_block = (\<lambda>_ _. Inr (Some \<lparr> bl_header_daa = Some 12, bl_transactions = [], bl_verbose_hash = None \<rparr>)) \<rparr>"

definition no_io :: store_io where
  "no_io = \<lparr> io_open = None, io_start = None, io_unwind = (\<lambda>_. None), io_apply = None, io_expire = None,
     io_checkpoint = None, io_window_low = None, io_chain_blocks = None \<rparr>"

definition sample_live :: engine where
  "sample_live = on_notification sample_node no_io ext_sample (Connected 1) (indexer_spawn 0 sample_db2 2000)"

lemma sample_prefix: "prefix_for_network ''keryx-simnet'' = ''keryxsim''"
  by code_simp

lemma sample_live_eq:
  "en_store sample_live = Some ''keryxsim''" "st_state (en_status sample_live) = Live"
  "en_db sample_live = sample_db2\<lparr> META := tab_insert ''schema'' SCHEMA_VERSION (META sample_db2) \<rparr>"
  "en_alive sample_live" "en_staging sample_live = staging_new" "cx_window_daa (en_ctx sample_live) = 0"
proof -
  have "checkpoint None d = Inr (Some \<lparr> ck_chain_block_hash = h, ck_daa_score = n \<rparr>)"
    if "tab_get (META_STR d) ''checkpoint_hash'' = Some h" "tab_get (META d) ''checkpoint_daa'' = Some n" for d h n
    using that by (simp add: checkpoint_def reading_def)
  then have cp: "checkpoint None (sample_db2\<lparr> META := tab_insert ''schema'' SCHEMA_VERSION (META sample_db2) \<rparr>)
      = Inr (Some \<lparr> ck_chain_block_hash = ''b2'', ck_daa_score = 11 \<rparr>)"
    by (simp add: sample_db2_simps tab_get_def)
  have meta: "tab_get (META sample_db2) ''schema'' = None"
    by (simp add: sample_db2_simps tab_get_def)
  show "en_store sample_live = Some ''keryxsim''" "st_state (en_status sample_live) = Live"
    "en_db sample_live = sample_db2\<lparr> META := tab_insert ''schema'' SCHEMA_VERSION (META sample_db2) \<rparr>"
    "en_alive sample_live" "en_staging sample_live = staging_new" "cx_window_daa (en_ctx sample_live) = 0"
    by (simp_all add: sample_live_def on_notification_def edit_def indexer_spawn_def open_store_def
        sample_node_def no_io_def store_open_def meta sample_prefix on_connected_def subscribe_def backfill_def
        cp ok_flatten_def saturating_mul_def Let_def)
qed

text \<open>A block with one transaction, and two acceptance lists of which only one id is staged.\<close>

definition staged_proto :: RpcTransaction where
  "staged_proto = \<lparr> tx_version = 0, tx_inputs = [],
     tx_outputs = [\<lparr> to_amount = 5, to_script_public_key = None \<rparr>], tx_lock_time = 0,
     tx_subnetwork_id = [], tx_gas = 0, tx_payload = ''beef'', tx_verbose_id = Some ''aa'' \<rparr>"

definition staged_block :: RpcBlock where
  "staged_block = \<lparr> bl_header_daa = Some 7, bl_transactions = [staged_proto], bl_verbose_hash = Some ''b7'' \<rparr>"

theorem build_groups_exact_witness:
  "\<exists>g h. build_groups sample_node (fold stage_block [staged_block] staging_new)
       [\<lparr> ac_accepting_block_hash = ''b7'', ac_accepted_transaction_ids = [''zz'', ''aa''] \<rparr>,
        \<lparr> ac_accepting_block_hash = ''b8'', ac_accepted_transaction_ids = [] \<rparr>] = ([g, h], 1)
     \<and> ag_daa_score g = 7 \<and> map rt_payload (ag_txs g) = [''beef'']
     \<and> map (map ro_amount \<circ> rt_outputs) (ag_txs g) = [[5]] \<and> ag_daa_score h = 12 \<and> ag_txs h = []"
proof -
  have raw: "raw_from_proto staged_proto = Some \<lparr> rt_tx_id = ''aa'', rt_is_coinbase = False, rt_version = 0,
      rt_lock_time = 0, rt_subnetwork_id = [], rt_gas = 0, rt_payload = ''beef'', rt_inputs = [],
      rt_outputs = [\<lparr> ro_amount = 5, ro_script_version = 0, ro_script_public_key = [] \<rparr>] \<rparr>"
    by (simp add: raw_from_proto_def staged_proto_def COINBASE_SUBNETWORK_def raw_out_def unwrap_or_def spk_default_def
        eq_ignore_ascii_case_def to_ascii_lowercase_def)
  have q: "score_queue [staged_block] = [(''b7'', 7)]"
    "body_queue [staged_block] = [(''aa'', the (raw_from_proto staged_proto))]"
    by (simp_all add: score_queue_def body_queue_def staged_raws_def block_score_def staged_block_def queue_insert_def
        List.map_filter_simps raw)
  have node: "nd_get_block sample_node n h = Inr (Some \<lparr> bl_header_daa = Some 12, bl_transactions = [], bl_verbose_hash = None \<rparr>)"
    for n h by (simp add: sample_node_def)
  let ?accepted = "[\<lparr> ac_accepting_block_hash = ''b7'', ac_accepted_transaction_ids = [''zz'', ''aa''] \<rparr>,
    \<lparr> ac_accepting_block_hash = ''b8'', ac_accepted_transaction_ids = [] \<rparr>]"
  obtain groups misses where b: "build_groups sample_node (fold stage_block [staged_block] staging_new) ?accepted = (groups, misses)"
    by fastforce
  note exact = build_groups_exact [of sample_node "[staged_block]" ?accepted, unfolded b]
  have g: "\<exists>g h. groups = [g, h] \<and> ag_daa_score g = 7 \<and> map rt_payload (ag_txs g) = [''beef'']
      \<and> map (map ro_amount \<circ> rt_outputs) (ag_txs g) = [[5]] \<and> ag_daa_score h = 12 \<and> ag_txs h = []"
    "length (ag_txs (hd groups)) = 1"
    using exact by (simp_all add: q raw node List.map_filter_simps)
  have "misses + word_of_nat (group_txs groups) = word_of_nat (sum_list (map (length \<circ> ac_accepted_transaction_ids) ?accepted))"
    using exact unfolding Let_def prod.case by (elim conjE)
  then have "misses + word_of_nat (group_txs groups) = 2" by simp
  moreover have "group_txs groups = 1" using g by auto
  ultimately have "misses = 2 - 1" by (simp only: eq_diff_eq) simp
  then show ?thesis using g(1) b by auto
qed

theorem indexer_keeps_store_witness:
  "store_reachable ext_sample ''keryxsim'' (en_db sample_live) \<and> en_pollers sample_live = [''keryxsim'']
     \<and> en_pollers (on_notification sample_node no_io ext_sample (Connected 1) (indexer_spawn 0 sample_db2 0)) = []"
proof -
  have step: "engine_step ext_sample ''keryxsim'' (indexer_spawn 0 sample_db2 n)
      (on_notification sample_node no_io ext_sample (Connected 1) (indexer_spawn 0 sample_db2 n))" for n
    by (rule connected) (simp_all add: indexer_spawn_def open_prefix_def sample_node_def sample_prefix)
  from indexer_keeps_store [OF sample_reachable2 r_into_rtranclp, OF step [of 2000]]
    indexer_keeps_store [OF sample_reachable2 r_into_rtranclp, OF step [of 0]]
  show ?thesis using sample_live_eq(1) by (auto simp: sample_live_def)
qed

end
