(* ===== verification/StoreExpiry.thy ===== *)
theory StoreExpiry
  imports StoreReorg
begin

text \<open>
  What unwinding and the retention sweep remove, and what they leave: the scans that stop at
  the first row at the cutoff visit exactly the rows below it.
\<close>

section \<open>Removing the rows of a block\<close>

lemma unwind_txs_rows:
  "fold unwind_tx ns (d, tot, r) = (d', tot', r') \<Longrightarrow>
     tab_get (TX d') k = (if k \<in> set ns then None else tab_get (TX d) k)"
proof (induction ns arbitrary: d tot r)
  case (Cons n ns)
  obtain d1 tot1 r1 where s: "unwind_tx n (d, tot, r) = (d1, tot1, r1)" by (metis prod_cases3)
  then have "tab_get (TX d1) k = (if k = n then None else tab_get (TX d) k)"
    by (auto simp: unwind_tx_def unwind_row_tables split: option.splits)
  then show ?case using Cons.IH [of d1 tot1 r1] Cons.prems s by auto
qed simp

text \<open>Unwinding removes one block and nothing else: afterwards the block is not
  applied, every transaction it accepted is gone, all other transactions and applied
  blocks are as they were, and every removed transaction was one the block had accepted.
  Unwinding a block that is not applied changes nothing.\<close>

theorem unwind_removes_block:
  assumes "store_reachable e prefix d"
  shows "is_applied None hash (snd (unwind_chain_block None hash d)) = Inr False
    \<and> (\<forall>n t. tab_get (TX d) n = Some t \<longrightarrow> tab_get (TX (snd (unwind_chain_block None hash d))) n = None \<longrightarrow>
          it_accepting_block_hash t = hash)
    \<and> (\<forall>h. h \<noteq> hash \<longrightarrow>
          tab_get (APPLIED (snd (unwind_chain_block None hash d))) h = tab_get (APPLIED d) h)
    \<and> (case tab_get (ACCEPTED_BY d) hash of
         None \<Rightarrow> snd (unwind_chain_block None hash d) = d
       | Some ns \<Rightarrow> \<forall>n. tab_get (TX (snd (unwind_chain_block None hash d))) n
                        = (if n \<in> set ns then None else tab_get (TX d) n))"
proof (cases "tab_get (ACCEPTED_BY d) hash")
  case None
  then have "tab_get (APPLIED d) hash = None"
    using reachable_inv [OF assms] by (auto simp: store_inv_def ledger_inv_def chain_inv_def)
  then show ?thesis using None by (simp add: unwind_chain_block_def is_applied_def)
next
  case (Some ns)
  obtain d1 tot1 r1 where f: "fold unwind_tx (rev ns) (d, meta_u64 d ''total_txs'', 0) = (d1, tot1, r1)"
    by (metis prod_cases3)
  let ?d = "snd (unwind_chain_block None hash d)"
  have d: "TX ?d = TX d1" "APPLIED ?d = tab_remove hash (APPLIED d)"
    using Some f unwind_txs_frame [OF f] by (simp_all add: unwind_chain_block_def)
  have tx: "tab_get (TX ?d) n = (if n \<in> set ns then None else tab_get (TX d) n)" for n
    using unwind_txs_rows [OF f] d by simp
  have "it_accepting_block_hash t = hash" if "tab_get (TX d) n = Some t" "n \<in> set ns" for n t
    using reachable_inv [OF assms] that Some by (auto simp: store_inv_def ledger_inv_def chain_inv_def)
  then show ?thesis using Some tx d by (auto simp: is_applied_def split: if_splits)
qed

theorem unwind_removes_block_witness:
  "is_applied None ''b2'' (snd (unwind_chain_block None ''b2'' sample_db2)) = Inr False
     \<and> tab_get (TX (snd (unwind_chain_block None ''b2'' sample_db2))) 1 = None
     \<and> tab_get (TX (snd (unwind_chain_block None ''b2'' sample_db2))) 0 = Some sample_row"
proof -
  have "tab_get (ACCEPTED_BY sample_db2) ''b2'' = Some [1]"
    "tab_get (TX sample_db2) 0 = Some sample_row"
    by (simp_all add: sample_db2_simps tab_get_def)
  then show ?thesis using unwind_removes_block [OF sample_reachable2, of "''b2''"] by simp
qed

section \<open>Scans that stop early\<close>

lemma takeWhile_eq_filter:
  "sorted_wrt (\<lambda>x y. P y \<longrightarrow> P x) xs \<Longrightarrow> takeWhile P xs = filter P xs"
  by (induction xs) (auto simp: filter_empty_conv)

lemma expire_rows_tx:
  "TX (fst (fold expire_row rows (d, r))) = tab_remove_all (map fst rows) (TX d)
   \<and> snd (fold expire_row rows (d, r)) = r + word_of_nat (length rows)
   \<and> ADDR_TOTALS (fst (fold expire_row rows (d, r))) = ADDR_TOTALS d
   \<and> META (fst (fold expire_row rows (d, r))) = META d
   \<and> APPLIED (fst (fold expire_row rows (d, r))) = APPLIED d
   \<and> CHAIN_BY_DAA (fst (fold expire_row rows (d, r))) = CHAIN_BY_DAA d"
proof (induction rows arbitrary: d r)
  case (Cons row rows)
  obtain n t where "row = (n, t)" by fastforce
  then show ?case using Cons by (simp add: expire_row_tables ac_simps)
qed simp

lemma tab_remove_filtered:
  assumes "tab_ok t"
  shows "tab_remove_all (map fst (filter P t)) t = filter (\<lambda>row. \<not> P row) t"
proof -
  have "fst row \<notin> set (map fst (filter P t)) \<longleftrightarrow> \<not> P row" if "row \<in> set t" for row
    using that tab_ok_distinct [OF assms] by (auto simp: distinct_map inj_on_def)
  then show ?thesis unfolding tab_remove_all_filter by (intro filter_cong) simp_all
qed

text \<open>Rows are numbered in the order of their accepting scores.\<close>

definition daa_ordered :: "db \<Rightarrow> bool" where
  "daa_ordered d = sorted_wrt (\<lambda>row row'. it_accepting_daa (snd row) \<le> it_accepting_daa (snd row')) (TX d)"

lemma expire_txs_exact:
  assumes "tab_ok (TX d)" "daa_ordered d"
  shows "TX (fst (expire_txs cutoff d)) = filter (\<lambda>(n, t). cutoff \<le> it_accepting_daa t) (TX d)
    \<and> snd (expire_txs cutoff d)
        = word_of_nat (length (filter (\<lambda>(n, t). it_accepting_daa t < cutoff) (TX d)))"
proof -
  let ?P = "\<lambda>(n, t). it_accepting_daa t < cutoff"
  have "sorted_wrt (\<lambda>x y. ?P y \<longrightarrow> ?P x) (TX d)"
    using assms(2) unfolding daa_ordered_def
    by (rule sorted_wrt_mono_rel [rotated]) (auto simp: case_prod_beta)
  then have "takeWhile ?P (TX d) = filter ?P (TX d)" by (rule takeWhile_eq_filter)
  then show ?thesis
    using expire_rows_tx [of "filter ?P (TX d)" d 0] tab_remove_filtered [OF assms(1), of ?P]
    by (simp add: expire_txs_def case_prod_beta' not_less)
qed

lemma old_blocks_exact:
  assumes inv: "chain_inv m d" and ok: "tab_ok (CHAIN_BY_DAA d)"
  shows "(k, h) \<in> set (old_blocks cutoff d) \<longleftrightarrow>
    (\<exists>daa. tab_get (APPLIED d) h = Some daa \<and> k = chain_key daa h \<and> daa < cutoff)"
proof -
  have row: "(k, h) \<in> set (CHAIN_BY_DAA d) \<longleftrightarrow> (\<exists>daa. tab_get (APPLIED d) h = Some daa \<and> k = chain_key daa h)" for k h
    using inv ok by (simp add: chain_inv_def tab_get_set)
  let ?P = "\<lambda>(key, hash). u64_of_be (take 8 key) < cutoff"
  have "sorted_wrt (\<lambda>x y. ?P y \<longrightarrow> ?P x) (CHAIN_BY_DAA d)"
  proof (rule sorted_wrt_mono_rel [of _ "\<lambda>x y. fst x < fst y"])
    show "sorted_wrt (\<lambda>x y. fst x < fst y) (CHAIN_BY_DAA d)"
      using ok by (simp add: tab_ok_def sorted_wrt_map)
    fix x y assume xy: "x \<in> set (CHAIN_BY_DAA d)" "y \<in> set (CHAIN_BY_DAA d)" "fst x < fst y"
    obtain dx dy where "fst x = chain_key dx (snd x)" "fst y = chain_key dy (snd y)"
      using xy(1,2) row [of "fst x" "snd x"] row [of "fst y" "snd y"] by auto
    moreover from this have "dx \<le> dy" using xy(3) chain_key_le_daa by (metis less_imp_le)
    ultimately show "?P y \<longrightarrow> ?P x" by (auto simp: case_prod_beta)
  qed
  then have "old_blocks cutoff d = filter ?P (CHAIN_BY_DAA d)"
    unfolding old_blocks_def by (rule takeWhile_eq_filter)
  then have "(k, h) \<in> set (old_blocks cutoff d) \<longleftrightarrow>
      (k, h) \<in> set (CHAIN_BY_DAA d) \<and> u64_of_be (take 8 k) < cutoff" by simp
  then show ?thesis unfolding row by (metis chain_key_daa)
qed

lemma expire_chain_applied:
  assumes inv: "chain_inv m d" and ok: "tab_ok (CHAIN_BY_DAA d)"
  shows "tab_get (APPLIED (expire_chain cutoff d)) h =
    (case tab_get (APPLIED d) h of None \<Rightarrow> None | Some daa \<Rightarrow> if daa < cutoff then None else Some daa)"
proof -
  have "tab_get (APPLIED (expire_chain cutoff d)) h =
      (if h \<in> snd ` set (old_blocks cutoff d) then None else tab_get (APPLIED d) h)"
    by (simp add: expire_chain_def expire_chain_tables old_blocks_def)
  moreover have "h \<in> snd ` set (old_blocks cutoff d) \<longleftrightarrow> (\<exists>daa. tab_get (APPLIED d) h = Some daa \<and> daa < cutoff)"
  proof
    assume "h \<in> snd ` set (old_blocks cutoff d)"
    then obtain k where "(k, h) \<in> set (old_blocks cutoff d)" by auto
    then show "\<exists>daa. tab_get (APPLIED d) h = Some daa \<and> daa < cutoff"
      using old_blocks_exact [OF assms] by blast
  next
    assume "\<exists>daa. tab_get (APPLIED d) h = Some daa \<and> daa < cutoff"
    then obtain k where "(k, h) \<in> set (old_blocks cutoff d)"
      using old_blocks_exact [OF assms] by blast
    then show "h \<in> snd ` set (old_blocks cutoff d)" by (auto intro: rev_image_eqI)
  qed
  ultimately show ?thesis by (auto split: option.splits)
qed

text \<open>The retention sweep is exact on the ledger: when the transactions are numbered
  in the order of their scores, the transactions left are those at or above the cutoff, in
  their order, and the count reported is the number of the others; the applied blocks
  left are those at or above the cutoff; the total and address counters do not change.\<close>

theorem expire_below_exact:
  assumes reach: "store_reachable e prefix d" and ord: "daa_ordered d"
  shows "\<exists>d'. expire_below None cutoff d
      = (Inr (word_of_nat (length (filter (\<lambda>(n, t). it_accepting_daa t < cutoff) (TX d)))), d')
    \<and> TX d' = filter (\<lambda>(n, t). cutoff \<le> it_accepting_daa t) (TX d)
    \<and> (\<forall>h. tab_get (APPLIED d') h =
         (case tab_get (APPLIED d) h of None \<Rightarrow> None | Some daa \<Rightarrow> if daa < cutoff then None else Some daa))
    \<and> total_txs None d' = total_txs None d
    \<and> (\<forall>a. address_totals None a d' = address_totals None a d)"
proof -
  have inv: "ledger_inv (meta_u64 d ''next_tx_num'') (meta_u64 d ''total_txs'') d"
    using reachable_inv [OF reach] by (simp add: store_inv_def)
  obtain d1 r1 where e: "expire_txs cutoff d = (d1, r1)" by fastforce
  define d2 where "d2 = expire_chain cutoff d1"
  define d3 where "d3 = expire_marks cutoff (expire_responses cutoff (expire_requests cutoff d2))"
  have d1: "TX d1 = filter (\<lambda>(n, t). cutoff \<le> it_accepting_daa t) (TX d)"
    "r1 = word_of_nat (length (filter (\<lambda>(n, t). it_accepting_daa t < cutoff) (TX d)))"
    using expire_txs_exact [OF _ ord, of cutoff] inv e by (simp_all add: ledger_inv_def ledger_tabs_ok_def)
  have same: "ADDR_TOTALS d1 = ADDR_TOTALS d" "META d1 = META d" "APPLIED d1 = APPLIED d"
    using expire_rows_tx [of "takeWhile (\<lambda>(k, itx). it_accepting_daa itx < cutoff) (TX d)" d 0] e
    by (simp_all add: expire_txs_def)
  have i1: "chain_inv (meta_u64 d ''next_tx_num'') d1" "tab_ok (CHAIN_BY_DAA d1)"
    using expire_txs_inv [OF inv e] by (simp_all add: ledger_inv_def ledger_tabs_ok_def)
  have d2: "TX d2 = TX d1" "ADDR_TOTALS d2 = ADDR_TOTALS d1" "META d2 = META d1"
    by (simp_all add: d2_def expire_chain_def expire_chain_tables)
  have "ledger_of d3 = ledger_of d2"
    by (simp add: d3_def ledger_of_expire_rest ledger_of_expire_requests)
  then have d3: "TX d3 = TX d2" "ADDR_TOTALS d3 = ADDR_TOTALS d2" "META d3 = META d2" "APPLIED d3 = APPLIED d2"
    by (simp_all add: ledger_of_eq)
  have "expire_below None cutoff d = (Inr r1, d3)"
    by (simp add: expire_below_def e d3_def d2_def)
  then show ?thesis
    using d1 d2 d3 same expire_chain_applied [OF i1, of cutoff]
    by (simp add: total_txs_def meta_u64_def address_totals_def d2_def)
qed

theorem expire_below_exact_witness:
  "\<exists>d'. expire_below None 11 sample_db2 = (Inr 1, d') \<and> TX d' = [(1, sample_row2)]
     \<and> total_txs None d' = Inr 2"
proof -
  have daa: "it_accepting_daa sample_row = 10" "it_accepting_daa sample_row2 = 11"
    by (simp_all add: sample_row_def sample_row2_def build_indexed_def sample_group_def sample_group2_def)
  then have ord: "daa_ordered sample_db2" by (simp add: daa_ordered_def sample_db2_simps)
  have "TX sample_db2 = [(0, sample_row), (1, sample_row2)]" "total_txs None sample_db2 = Inr 2"
    by (simp_all add: sample_db2_simps total_txs_def meta_u64_def tab_get_def)
  with expire_below_exact [OF sample_reachable2 ord, of 11] show ?thesis by (auto simp: daa)
qed

end
