(* ===== verification/StoreTotal.thy ===== *)
theory StoreTotal
  imports StoreChange
begin

text \<open>
  Applying never panics on what a node sends: the hex decoder slices its input by bytes
  and panics inside a multi-byte character, and on ASCII input there is none.
\<close>

section \<open>ASCII input\<close>

definition ascii_tx :: "RawTx \<Rightarrow> bool" where
  "ascii_tx raw = (is_ascii_str (rt_payload raw)
     \<and> list_all (\<lambda>out. is_ascii_str (ro_script_public_key out)) (rt_outputs raw))"

definition ascii_group :: "AcceptedGroup \<Rightarrow> bool" where
  "ascii_group grp = list_all ascii_tx (ag_txs grp)"

definition ascii_db :: "db \<Rightarrow> bool" where
  "ascii_db d = (\<forall>n t. tab_get (TX d) n = Some t \<longrightarrow>
     list_all (\<lambda>out. is_ascii_str (so_script_public_key out)) (it_outputs t))"

lemma script_total:
  assumes "is_ascii_str s"
  shows "\<exists>r. script_to_address s prefix = Inr r" "\<exists>r. csv_escrow_pubkey s = Inr r" "\<exists>r. p2pk_pubkey s = Inr r"
  using from_hex_no_panic [OF assms] hex_to_bytes_no_panic [OF assms]
  by (auto simp: script_to_address_def csv_escrow_pubkey_def p2pk_pubkey_def split: option.split)

section \<open>No step panics\<close>

lemma compute_ledger_total:
  assumes "ascii_tx raw" "ascii_db d"
  shows "\<exists>l. compute_ledger e raw prefix (TX_BY_ID d) (TX d) = Inr l"
proof -
  have "\<exists>acc'. credit_output prefix out acc = Inr acc'" if "out \<in> set (rt_outputs raw)" for out acc
    using script_total(1) [of "ro_script_public_key out" prefix] that assms(1)
    by (auto simp: credit_output_def ascii_tx_def list_all_iff)
  then obtain acc where acc: "fold_res (credit_output prefix) (rt_outputs raw) [] = Inr acc"
    using fold_res_no_fault [of "\<lambda>_. True" "[]" "rt_outputs raw" "credit_output prefix"] by auto
  have "\<exists>acc'. debit_input prefix (TX_BY_ID d) (TX d) inp acc = Inr acc'" for inp acc
  proof -
    have "\<exists>acc'. debit_output prefix out acc = Inr acc'"
      if "tab_get (TX d) n = Some t" "nth_opt (it_outputs t) i = Some out" for n t i out
      using script_total(1) [of "so_script_public_key out" prefix] that assms(2)
      by (auto simp: debit_output_def ascii_db_def list_all_iff nth_opt_def split: if_splits)
    then show ?thesis by (auto simp: debit_input_def split: option.split)
  qed
  then obtain acc' where "fold_res (debit_input prefix (TX_BY_ID d) (TX d)) (rt_inputs raw) acc = Inr acc'"
    using fold_res_no_fault [of "\<lambda>_. True" acc "rt_inputs raw" "debit_input prefix (TX_BY_ID d) (TX d)"] by auto
  with acc show ?thesis by (simp add: compute_ledger_def)
qed

lemma request_miner_total: "ascii_tx raw \<Longrightarrow> \<exists>m. request_miner raw = Inr m"
  using script_total(2)
  by (auto simp: request_miner_def ascii_tx_def list_all_iff nth_opt_def split: option.split)

lemma caps_pubkey_total: "ascii_tx raw \<Longrightarrow> \<exists>m. caps_pubkey raw bytes = Inr m"
  using script_total(3)
  by (auto simp: caps_pubkey_def ascii_tx_def split: option.split list.split)

lemma index_subnetwork_total:
  assumes "ascii_tx raw"
  shows "\<exists>st'. index_subnetwork e grp raw n st = Inr st'"
proof -
  obtain bs where bs: "from_hex (rt_payload raw) = Inr bs"
    using from_hex_no_panic assms by (auto simp: ascii_tx_def)
  obtain m where m: "request_miner raw = Inr m" using request_miner_total [OF assms] ..
  show ?thesis
    by (auto simp: index_subnetwork_def index_request_def index_response_def index_challenge_def bs m Let_def
        split: option.split)
qed

lemma index_caps_total:
  assumes "ascii_tx raw"
  shows "\<exists>st'. index_caps grp raw st = Inr st'"
proof -
  obtain bs where bs: "from_hex (rt_payload raw) = Inr bs"
    using from_hex_no_panic assms by (auto simp: ascii_tx_def)
  have "\<exists>m. caps_pubkey raw b = Inr m" for b using caps_pubkey_total [OF assms] .
  then obtain m where "\<And>b. caps_pubkey raw b = Inr (m b)" by metis
  then show ?thesis by (auto simp: index_caps_def bs Let_def split: option.split)
qed

lemma apply_tx_total:
  assumes "ascii_tx raw" "ascii_db (ap_db st)"
  shows "\<exists>r. apply_tx e prefix grp raw (ns, st) = Inr r \<and> ascii_db (ap_db (snd r))"
proof -
  obtain l where l: "compute_ledger e raw prefix (TX_BY_ID (ap_db st)) (TX (ap_db st)) = Inr l"
    using compute_ledger_total [OF assms] by auto
  obtain st1 where s1: "index_subnetwork e grp raw (ap_next_tx_num st) (st\<lparr> ap_next_tx_num := ap_next_tx_num st + 1,
      ap_db := index_ledger raw grp (ap_next_tx_num st) l (ap_db st) \<rparr>) = Inr st1"
    using index_subnetwork_total [OF assms(1)] by blast
  obtain st2 where "index_caps grp raw st1 = Inr st2" using index_caps_total [OF assms(1)] by blast
  with l s1 obtain r where r: "apply_tx e prefix grp raw (ns, st) = Inr r" by (simp add: apply_tx_def Let_def)
  obtain ns' st' where "r = (ns', st')" by fastforce
  from r [unfolded this] have "TX (ap_db st') = tab_insert (ap_next_tx_num st)
      (build_indexed raw (ap_next_tx_num st) grp l) (TX (ap_db st))"
    by (elim apply_tx_cases) (simp add: ledger_of_eq index_ledger_tables l)
  then have "ascii_db (ap_db st')"
    using assms by (auto simp: ascii_db_def ascii_tx_def build_indexed_def list_all_iff)
  then show ?thesis using r \<open>r = (ns', st')\<close> by simp
qed

lemma apply_group_total:
  assumes "ascii_group grp" "ascii_db (ap_db st)"
  shows "\<exists>st'. apply_group e prefix grp st = Inr st' \<and> ascii_db (ap_db st')"
proof -
  have "\<exists>r. fold_res (apply_tx e prefix grp) (ag_txs grp) ([], st) = Inr r \<and> ascii_db (ap_db (snd r))"
    using assms apply_tx_total [of _ _ e prefix grp]
    by (intro fold_res_no_fault) (auto simp: ascii_group_def list_all_iff)
  then obtain ns st1 where "fold_res (apply_tx e prefix grp) (ag_txs grp) ([], st) = Inr (ns, st1)" "ascii_db (ap_db st1)"
    by auto
  then show ?thesis using assms(2) by (auto simp: apply_group_def ascii_db_def close_group_def Let_def)
qed

lemma store_apply_total:
  assumes "list_all ascii_group groups" "ascii_db d"
  shows "\<exists>st. fold_res (apply_group e prefix) groups (begin_apply d) = Inr st
    \<and> store_apply None e prefix groups d = (Inr (fst (finish_apply st)), snd (finish_apply st))
    \<and> ascii_db (snd (finish_apply st))"
proof -
  have "\<exists>st. fold_res (apply_group e prefix) groups (begin_apply d) = Inr st \<and> ascii_db (ap_db st)"
    using assms apply_group_total [of _ _ e prefix]
    by (intro fold_res_no_fault) (auto simp: list_all_iff begin_apply_def)
  then obtain st where "fold_res (apply_group e prefix) groups (begin_apply d) = Inr st" "ascii_db (ap_db st)" by auto
  then show ?thesis by (auto simp: store_apply_def case_prod_beta finish_apply_db ascii_db_def)
qed

lemma finish_apply_total: "as_total_txs (fst (finish_apply st)) = ap_total_txs st"
  by (simp add: finish_apply_def Let_def split: option.split)

text \<open>
  Property C25. Applying is total on the node's hex: when the payloads and output scripts of
  the groups and the scripts already stored are ASCII, an apply that meets no storage error
  commits, reports the total of transactions it stored, and leaves every block of the batch
  applied.
\<close>

theorem apply_commits:
  assumes "list_all ascii_group groups" "ascii_db d"
  shows "\<exists>stats d'. store_apply None e prefix groups d = (Inr stats, d') \<and> ascii_db d'
    \<and> total_txs None d' = Inr (as_total_txs stats)
    \<and> (\<forall>g\<in>set groups. is_applied None (ag_chain_block_hash g) d' = Inr True)"
proof -
  obtain st where st: "fold_res (apply_group e prefix) groups (begin_apply d) = Inr st"
    "store_apply None e prefix groups d = (Inr (fst (finish_apply st)), snd (finish_apply st))"
    "ascii_db (snd (finish_apply st))"
    using store_apply_total [OF assms, of e prefix] by auto
  have "tab_get (APPLIED (snd (finish_apply st))) (ag_chain_block_hash g) \<noteq> None" if "g \<in> set groups" for g
    using apply_groups_applied [OF st(1), of "ag_chain_block_hash g"] that by (simp add: finish_apply_db)
  moreover have "total_txs None (snd (finish_apply st)) = Inr (as_total_txs (fst (finish_apply st)))"
    by (simp add: total_txs_def reading_def meta_after_apply finish_apply_total)
  ultimately show ?thesis using st(2,3) by (auto simp: is_applied_def)
qed

lemma sample_spk_ascii: "is_ascii_str sample_spk"
  by code_simp

theorem apply_commits_witness:
  "\<exists>stats d'. store_apply None ext_sample ''keryxsim'' [sample_group] empty_db = (Inr stats, d')
     \<and> is_applied None ''b1'' d' = Inr True"
proof -
  have "list_all ascii_group [sample_group]" "ascii_db empty_db"
    by (simp_all add: ascii_group_def ascii_tx_def sample_group_def sample_tx_def sample_out_def
        ascii_db_def empty_db_def sample_spk_ascii) (simp add: is_ascii_str_def)
  from apply_commits [OF this, of ext_sample "''keryxsim''"] show ?thesis by (auto simp: sample_group_def)
qed

end
