(* ===== verification/StoreView.thy ===== *)
theory StoreView
  imports StoreExpiry StoreTotal StoreSide
begin

text \<open>
  The contract of the index: a map from the applied chain blocks to their scores and the
  transactions they accepted. The store's tables implement it: applying adds the blocks
  that are new, unwinding drops one block, the sweep drops the blocks below the cutoff, and
  nothing else changes the map.
\<close>

section \<open>The abstract index\<close>

text \<open>A stored transaction without its number and its ledger, which belong to the tables.\<close>

definition body_of :: "IndexedTx \<Rightarrow> IndexedTx" where
  "body_of t = t\<lparr> it_tx_num := 0, it_ledger := [] \<rparr>"

type_synonym index_view = "string \<Rightarrow> (u64 \<times> IndexedTx list) option"

definition view_of :: "db \<Rightarrow> index_view" where
  "view_of d h =
     (case (tab_get (APPLIED d) h, tab_get (ACCEPTED_BY d) h) of
        (Some daa, Some ns) \<Rightarrow> Some (daa, map body_of (List.map_filter (tab_get (TX d)) ns))
      | _ \<Rightarrow> None)"

definition add_block :: "AcceptedGroup \<Rightarrow> index_view \<Rightarrow> index_view" where
  "add_block grp v =
     (if v (ag_chain_block_hash grp) = None
      then v(ag_chain_block_hash grp \<mapsto>
               (ag_daa_score grp, map (\<lambda>raw. build_indexed raw 0 grp []) (ag_txs grp)))
      else v)"

definition drop_block :: "string \<Rightarrow> index_view \<Rightarrow> index_view" where
  "drop_block h v = v(h := None)"

definition drop_below :: "u64 \<Rightarrow> index_view \<Rightarrow> index_view" where
  "drop_below cutoff v h =
     (case v h of
        None \<Rightarrow> None
      | Some (daa, txs) \<Rightarrow> if daa < cutoff then None else Some (daa, txs))"

section \<open>What the store operations leave\<close>

lemma expire_rest:
  "TX (snd (expire_below None cutoff d)) = tab_remove_all
     (map fst (takeWhile (\<lambda>(k, itx). it_accepting_daa itx < cutoff) (TX d))) (TX d)
   \<and> (tab_get (APPLIED (snd (expire_below None cutoff d))) h \<noteq> None \<longrightarrow> tab_get (APPLIED d) h \<noteq> None)"
proof -
  obtain d1 r1 where e: "expire_txs cutoff d = (d1, r1)" by fastforce
  let ?d3 = "snd (expire_below None cutoff d)"
  have d1: "TX d1 = tab_remove_all (map fst (takeWhile (\<lambda>(k, itx). it_accepting_daa itx < cutoff) (TX d))) (TX d)"
    "APPLIED d1 = APPLIED d"
    using e expire_rows_tx [of "takeWhile (\<lambda>(k, itx). it_accepting_daa itx < cutoff) (TX d)" d 0]
    by (simp_all add: expire_txs_def)
  have "ledger_of ?d3 = ledger_of (expire_chain cutoff d1)"
    by (simp add: expire_below_def e ledger_of_expire_rest ledger_of_expire_requests)
  then have "TX ?d3 = TX d1" "APPLIED ?d3 = APPLIED (expire_chain cutoff d1)"
    by (simp_all add: ledger_of_eq expire_chain_def expire_chain_tables)
  then show ?thesis using d1 by (auto simp: expire_chain_def expire_chain_tables split: if_splits)
qed

lemma expire_ascii: "ascii_db d \<Longrightarrow> ascii_db (snd (expire_below io cutoff d))"
  using expire_rest [of cutoff d]
  by (cases io) (auto simp: ascii_db_def expire_below_def [of "Some _"] split: if_splits)

lemma unwind_rest:
  assumes "store_inv d"
  shows "tab_get (APPLIED (snd (unwind_chain_block None hash d))) h = (if h = hash then None else tab_get (APPLIED d) h)"
    and "tab_get (TX (snd (unwind_chain_block None hash d))) n = Some t \<Longrightarrow> tab_get (TX d) n = Some t"
proof -
  let ?d = "snd (unwind_chain_block None hash d)"
  have "tab_get (APPLIED ?d) h = (if h = hash then None else tab_get (APPLIED d) h)
    \<and> (tab_get (TX ?d) n = Some t \<longrightarrow> tab_get (TX d) n = Some t)"
  proof (cases "tab_get (ACCEPTED_BY d) hash")
    case None
    then have "tab_get (APPLIED d) hash = None"
      using assms by (auto simp: store_inv_def ledger_inv_def chain_inv_def)
    then show ?thesis using None by (auto simp: unwind_chain_block_def)
  next
    case (Some ns)
    obtain d1 tot1 r1 where f: "fold unwind_tx (rev ns) (d, meta_u64 d ''total_txs'', 0) = (d1, tot1, r1)"
      by (metis prod_cases3)
    show ?thesis
      using Some f unwind_txs_frame [OF f] unwind_txs_rows [OF f, of n] by (auto simp: unwind_chain_block_def)
  qed
  then show "tab_get (APPLIED ?d) h = (if h = hash then None else tab_get (APPLIED d) h)"
    "tab_get (TX ?d) n = Some t \<Longrightarrow> tab_get (TX d) n = Some t" by simp_all
qed

lemma unwind_ascii: "store_inv d \<Longrightarrow> ascii_db d \<Longrightarrow> ascii_db (snd (unwind_chain_block io hash d))"
  by (cases io) (simp add: ascii_db_def, metis unwind_rest(2), simp add: unwind_chain_block_def)

section \<open>Applied blocks hold their transactions\<close>

definition held :: "db \<Rightarrow> bool" where
  "held d = (\<forall>h ns n. tab_get (ACCEPTED_BY d) h = Some ns \<longrightarrow> n \<in> set ns \<longrightarrow>
     (\<exists>t. tab_get (TX d) n = Some t \<and> tab_get (APPLIED d) h = Some (it_accepting_daa t)))"

lemma heldD:
  "held d \<Longrightarrow> tab_get (ACCEPTED_BY d) h = Some ns \<Longrightarrow> n \<in> set ns \<Longrightarrow>
     \<exists>t. tab_get (TX d) n = Some t \<and> tab_get (APPLIED d) h = Some (it_accepting_daa t)"
  by (simp add: held_def)

lemma held_cong:
  "TX d' = TX d \<Longrightarrow> ACCEPTED_BY d' = ACCEPTED_BY d \<Longrightarrow> APPLIED d' = APPLIED d \<Longrightarrow> held d' = held d"
  by (simp add: held_def)

lemma view_of_cong:
  "TX d' = TX d \<Longrightarrow> ACCEPTED_BY d' = ACCEPTED_BY d \<Longrightarrow> APPLIED d' = APPLIED d \<Longrightarrow> view_of d' = view_of d"
  by (rule ext) (simp add: view_of_def split: option.split)

lemma map_filter_cong: "(\<And>x. x \<in> set xs \<Longrightarrow> f x = g x) \<Longrightarrow> List.map_filter f xs = List.map_filter g xs"
  by (induction xs) (simp_all add: map_filter_simps split: option.splits)

lemma map_filter_all: "(\<And>x. x \<in> set xs \<Longrightarrow> f x = Some (g x)) \<Longrightarrow> List.map_filter f xs = map g xs"
  by (induction xs) (simp_all add: map_filter_simps)

lemma chain_inv_both:
  "chain_inv m d \<Longrightarrow> tab_get (ACCEPTED_BY d) h = None \<longleftrightarrow> tab_get (APPLIED d) h = None"
  by (simp add: chain_inv_def)

lemma view_None:
  "chain_inv m d \<Longrightarrow> view_of d h = None \<longleftrightarrow> tab_get (APPLIED d) h = None"
  using chain_inv_both [of m d h] by (auto simp: view_of_def split: option.splits)

section \<open>Applying\<close>

text \<open>The rows of the transactions of one group, and that the other rows stay.\<close>

lemma apply_txs_rows:
  assumes "fold_res (apply_tx e prefix grp) xs (ns, st) = Inr (ns', st')"
    and "unat (ap_next_tx_num st) + length xs < 2 ^ 64"
  shows "\<exists>new. ns' = ns @ new \<and> (\<forall>n \<in> set new. ap_next_tx_num st \<le> n)
    \<and> (\<forall>n. n < ap_next_tx_num st \<longrightarrow> tab_get (TX (ap_db st')) n = tab_get (TX (ap_db st)) n)
    \<and> map (\<lambda>n. map_option body_of (tab_get (TX (ap_db st')) n)) new
        = map (\<lambda>raw. Some (build_indexed raw 0 grp [])) xs"
  using assms
proof (induction xs arbitrary: ns st)
  case (Cons raw xs)
  then obtain ns1 st1 where s: "apply_tx e prefix grp raw (ns, st) = Inr (ns1, st1)"
    "fold_res (apply_tx e prefix grp) xs (ns1, st1) = Inr (ns', st')"
    by (auto split: sum.splits)
  let ?n = "ap_next_tx_num st"
  from s(1) obtain l where l: "ns1 = ns @ [?n]" "ap_next_tx_num st1 = ?n + 1"
    "ledger_of (ap_db st1) = ledger_of (index_ledger raw grp ?n l (ap_db st))"
    by (rule apply_tx_cases)
  have tx: "TX (ap_db st1) = tab_insert ?n (build_indexed raw ?n grp l) (TX (ap_db st))"
    using l(3) by (simp add: ledger_of_eq index_ledger_tables)
  have "?n \<noteq> - 1" using Cons.prems(2) by (auto simp: unsigned_minus_1_eq_mask mask_eq_exp_minus_1)
  then have wrap: "?n < ?n + 1" by (simp add: less_succ_iff)
  have "unat (ap_next_tx_num st1) + length xs < 2 ^ 64"
    using Cons.prems(2) unat_Suc [OF wrap] by (simp add: l(2))
  from Cons.IH [OF s(2) this] obtain new where new: "ns' = ns1 @ new" "\<forall>n \<in> set new. ?n + 1 \<le> n"
    "\<And>n. n < ?n + 1 \<Longrightarrow> tab_get (TX (ap_db st')) n = tab_get (TX (ap_db st1)) n"
    "map (\<lambda>n. map_option body_of (tab_get (TX (ap_db st')) n)) new
        = map (\<lambda>raw. Some (build_indexed raw 0 grp [])) xs"
    unfolding l(2) by blast
  have "tab_get (TX (ap_db st')) ?n = Some (build_indexed raw ?n grp l)"
    using new(3) [OF wrap] by (simp add: tx)
  moreover have "tab_get (TX (ap_db st')) n = tab_get (TX (ap_db st)) n" if "n < ?n" for n
    using new(3) [of n] that wrap by (auto simp: tx dest: less_trans)
  moreover have "\<forall>n \<in> set (?n # new). ?n \<le> n" using new(2) wrap by (auto dest: less_le_trans)
  moreover have "body_of (build_indexed raw ?n grp l) = build_indexed raw 0 grp []"
    by (simp add: body_of_def build_indexed_def)
  ultimately show ?case using new(1,4) l(1) by (intro exI [of _ "?n # new"]) simp
qed simp

lemma apply_group_view:
  assumes env: "ext_ok e" "ascii_text prefix"
    and app: "apply_group e prefix grp st = Inr st'"
    and inv: "ledger_inv (ap_next_tx_num st) (ap_total_txs st) (ap_db st)" "held (ap_db st)"
    and wrap: "unat (ap_next_tx_num st) + length (ag_txs grp) < 2 ^ 64"
  shows "view_of (ap_db st') = add_block grp (view_of (ap_db st)) \<and> held (ap_db st')"
proof (cases "tab_get (APPLIED (ap_db st)) (ag_chain_block_hash grp)")
  case None
  let ?h = "ag_chain_block_hash grp" and ?d = "ap_db st"
  have chain: "chain_inv (ap_next_tx_num st) ?d" using inv(1) by (simp add: ledger_inv_def)
  from None app obtain ns st1 where s: "fold_res (apply_tx e prefix grp) (ag_txs grp) ([], st) = Inr (ns, st1)"
    "st' = close_group grp ns st1"
    by (auto simp: apply_group_def)
  from apply_txs_rows [OF s(1) wrap] have old: "\<And>n. n < ap_next_tx_num st \<Longrightarrow> tab_get (TX (ap_db st1)) n = tab_get (TX ?d) n"
    and new: "map (\<lambda>n. map_option body_of (tab_get (TX (ap_db st1)) n)) ns
        = map (\<lambda>raw. Some (build_indexed raw 0 grp [])) (ag_txs grp)" by auto
  have tabs: "TX (ap_db st') = TX (ap_db st1)" "APPLIED (ap_db st') = tab_insert ?h (ag_daa_score grp) (APPLIED ?d)"
    "ACCEPTED_BY (ap_db st') = tab_insert ?h ns (ACCEPTED_BY ?d)"
    using apply_txs_applied [OF s(1)] apply_txs_chain [OF s(1)] by (simp_all add: s(2) close_group_def Let_def)
  have below: "n < ap_next_tx_num st" if "tab_get (ACCEPTED_BY ?d) h = Some ns'" "n \<in> set ns'" for h ns' n
    using chain that unfolding chain_inv_def by blast
  have row: "\<exists>t. tab_get (TX (ap_db st1)) n = Some t \<and> it_accepting_daa t = ag_daa_score grp" if "n \<in> set ns" for n
  proof -
    have "map_option body_of (tab_get (TX (ap_db st1)) n) \<in> set (map (\<lambda>raw. Some (build_indexed raw 0 grp [])) (ag_txs grp))"
      unfolding new [symmetric] using that by simp
    then obtain raw t where t: "tab_get (TX (ap_db st1)) n = Some t" "body_of t = build_indexed raw 0 grp []" by auto
    from t(2) have "it_accepting_daa (body_of t) = it_accepting_daa (build_indexed raw 0 grp [])" by simp
    then show ?thesis using t(1) by (simp add: body_of_def build_indexed_def)
  qed
  have bodies: "map body_of (List.map_filter (tab_get (TX (ap_db st1))) ns)
      = map (\<lambda>raw. build_indexed raw 0 grp []) (ag_txs grp)"
  proof -
    have "List.map_filter (tab_get (TX (ap_db st1))) ns = map (\<lambda>n. the (tab_get (TX (ap_db st1)) n)) ns"
      by (rule map_filter_all) (use row in fastforce)
    moreover have "map (\<lambda>n. body_of (the (tab_get (TX (ap_db st1)) n))) ns
        = map the (map (\<lambda>n. map_option body_of (tab_get (TX (ap_db st1)) n)) ns)"
      using row by (fastforce simp: comp_def)
    ultimately show ?thesis unfolding new by (simp add: comp_def)
  qed
  have same: "List.map_filter (tab_get (TX (ap_db st1))) ns' = List.map_filter (tab_get (TX ?d)) ns'"
    if "tab_get (ACCEPTED_BY ?d) h = Some ns'" for h ns'
    by (rule map_filter_cong) (use old below that in blast)
  have "view_of (ap_db st') h = add_block grp (view_of ?d) h" for h
    using None bodies same [of h] view_None [OF chain, of ?h]
    by (auto simp: add_block_def view_of_def tabs split: option.splits)
  moreover have "held (ap_db st')"
    unfolding held_def
  proof (intro allI impI)
    fix h ns' n assume a: "tab_get (ACCEPTED_BY (ap_db st')) h = Some ns'" "n \<in> set ns'"
    show "\<exists>t. tab_get (TX (ap_db st')) n = Some t \<and> tab_get (APPLIED (ap_db st')) h = Some (it_accepting_daa t)"
    proof (cases "h = ?h")
      case True
      then show ?thesis using a row [of n] by (auto simp: tabs)
    next
      case False
      then have "tab_get (ACCEPTED_BY ?d) h = Some ns'" using a(1) by (simp add: tabs)
      with heldD [OF inv(2) this a(2)] old [OF below [OF this a(2)]] False show ?thesis by (simp add: tabs)
    qed
  qed
  ultimately show ?thesis by blast
next
  case (Some daa)
  then have "st' = st" using app by (simp add: apply_group_def)
  then show ?thesis
    using inv Some view_None [of "ap_next_tx_num st" "ap_db st" "ag_chain_block_hash grp"]
    by (auto simp: add_block_def ledger_inv_def)
qed

lemma apply_groups_view:
  assumes env: "ext_ok e" "ascii_text prefix"
    and "fold_res (apply_group e prefix) groups st = Inr st'"
    and "ledger_inv (ap_next_tx_num st) (ap_total_txs st) (ap_db st)" "held (ap_db st)"
    and "unat (ap_next_tx_num st) + group_txs groups < 2 ^ 64"
  shows "view_of (ap_db st') = fold add_block groups (view_of (ap_db st)) \<and> held (ap_db st')"
  using assms(3-)
proof (induction groups arbitrary: st)
  case (Cons grp groups)
  then obtain st1 where s: "apply_group e prefix grp st = Inr st1"
    "fold_res (apply_group e prefix) groups st1 = Inr st'"
    by (auto split: sum.splits)
  have w: "unat (ap_next_tx_num st) + length (ag_txs grp) < 2 ^ 64"
    using Cons.prems(4) by (simp add: group_txs_def)
  from apply_group_view [OF env s(1) Cons.prems(2,3) w] apply_group_inv [OF env s(1) Cons.prems(2) w]
    Cons.IH [OF s(2)] Cons.prems(4)
  show ?case by (simp add: group_txs_def)
qed simp

lemma store_apply_view:
  assumes "ext_ok e" "ascii_text prefix" "store_inv d" "held d"
    and "unat (meta_u64 d ''next_tx_num'') + group_txs groups < 2 ^ 64"
  shows "held (snd (store_apply io e prefix groups d))
    \<and> view_of (snd (store_apply io e prefix groups d))
        = (case fst (store_apply io e prefix groups d) of
             Inl _ \<Rightarrow> view_of d | Inr _ \<Rightarrow> fold add_block groups (view_of d))"
proof (cases rule: store_apply_cases [of io e prefix groups d])
  case (fault f)
  then show ?thesis using assms(4) by simp
next
  case (committed st)
  have "view_of (ap_db st) = fold add_block groups (view_of d) \<and> held (ap_db st)"
    using apply_groups_view [OF assms(1,2) committed(2)] assms(3-5) by (simp add: store_inv_def)
  moreover have "view_of (snd (finish_apply st)) = view_of (ap_db st)"
    "held (snd (finish_apply st)) = held (ap_db st)"
    by (rule view_of_cong held_cong; simp add: finish_apply_db)+
  ultimately show ?thesis by (simp add: committed(3))
qed

section \<open>Unwinding\<close>

lemma unwind_view:
  assumes inv: "store_inv d" and held: "held d"
  shows "held (snd (unwind_chain_block None hash d))
    \<and> view_of (snd (unwind_chain_block None hash d)) = drop_block hash (view_of d)"
proof (cases "tab_get (ACCEPTED_BY d) hash")
  case None
  then have "view_of d hash = None" by (auto simp: view_of_def split: option.split)
  then show ?thesis using None held by (auto simp: unwind_chain_block_def drop_block_def)
next
  case (Some ns)
  let ?d = "snd (unwind_chain_block None hash d)"
  have chain: "chain_inv (meta_u64 d ''next_tx_num'') d" using inv by (simp add: store_inv_def ledger_inv_def)
  obtain d1 tot1 r1 where f: "fold unwind_tx (rev ns) (d, meta_u64 d ''total_txs'', 0) = (d1, tot1, r1)"
    by (metis prod_cases3)
  have tabs: "TX ?d = TX d1" "APPLIED ?d = tab_remove hash (APPLIED d)" "ACCEPTED_BY ?d = tab_remove hash (ACCEPTED_BY d)"
    using Some f unwind_txs_frame [OF f] by (simp_all add: unwind_chain_block_def)
  have keep: "tab_get (TX d1) n = tab_get (TX d) n" if "tab_get (ACCEPTED_BY d) h = Some ns'" "n \<in> set ns'" "h \<noteq> hash" for h ns' n
  proof -
    note row = heldD [OF held that(1,2)]
    then obtain t where "tab_get (TX d) n = Some t" by blast
    then have "n \<notin> set ns" using chain Some that unfolding chain_inv_def by metis
    then show ?thesis using unwind_txs_rows [OF f] by simp
  qed
  have "List.map_filter (tab_get (TX d1)) ns' = List.map_filter (tab_get (TX d)) ns'"
    if "tab_get (ACCEPTED_BY d) h = Some ns'" "h \<noteq> hash" for h ns'
    by (rule map_filter_cong) (use keep that in blast)
  then have "view_of ?d h = drop_block hash (view_of d) h" for h
    by (auto simp: drop_block_def view_of_def tabs split: option.splits)
  moreover have "held ?d"
    using held keep unfolding held_def tabs by (auto split: if_splits)
  ultimately show ?thesis by blast
qed

section \<open>Expiring\<close>

lemma expire_tables:
  assumes "store_inv d"
  shows "TX (snd (expire_below None cutoff d)) = tab_remove_all
      (map fst (takeWhile (\<lambda>(k, itx). it_accepting_daa itx < cutoff) (TX d))) (TX d)
    \<and> tab_get (APPLIED (snd (expire_below None cutoff d))) h =
        (case tab_get (APPLIED d) h of None \<Rightarrow> None | Some daa \<Rightarrow> if daa < cutoff then None else Some daa)
    \<and> tab_get (ACCEPTED_BY (snd (expire_below None cutoff d))) h =
        (if tab_get (APPLIED (snd (expire_below None cutoff d))) h = None then None else tab_get (ACCEPTED_BY d) h)"
proof -
  let ?m = "meta_u64 d ''next_tx_num''"
  have inv: "ledger_inv ?m (meta_u64 d ''total_txs'') d" using assms by (simp add: store_inv_def)
  obtain d1 r1 where e: "expire_txs cutoff d = (d1, r1)" by fastforce
  let ?d3 = "snd (expire_below None cutoff d)"
  have d1: "TX d1 = tab_remove_all (map fst (takeWhile (\<lambda>(k, itx). it_accepting_daa itx < cutoff) (TX d))) (TX d)"
    "APPLIED d1 = APPLIED d"
    using e expire_rows_tx [of "takeWhile (\<lambda>(k, itx). it_accepting_daa itx < cutoff) (TX d)" d 0]
    by (simp_all add: expire_txs_def)
  have "ACCEPTED_BY (fst (fold expire_row rows (d, r))) = ACCEPTED_BY d" for rows d r
  proof (induction rows arbitrary: d r)
    case (Cons p rows)
    then show ?case by (cases p) (simp add: expire_row_tables)
  qed simp
  then have acc: "ACCEPTED_BY d1 = ACCEPTED_BY d" using e by (metis expire_txs_def fst_conv)
  have i1: "chain_inv ?m d1" "tab_ok (CHAIN_BY_DAA d1)"
    using expire_txs_inv [OF inv e] by (simp_all add: ledger_inv_def ledger_tabs_ok_def)
  have "chain_inv ?m (expire_chain cutoff d1)"
    using expire_chain_inv [of ?m "meta_u64 d ''total_txs''" d1 cutoff] expire_txs_inv [OF inv e]
    by (simp add: ledger_inv_def)
  note both = chain_inv_both [OF this]
  have "ledger_of ?d3 = ledger_of (expire_chain cutoff d1)"
    by (simp add: expire_below_def e ledger_of_expire_rest ledger_of_expire_requests)
  then have d3: "TX ?d3 = TX d1" "APPLIED ?d3 = APPLIED (expire_chain cutoff d1)"
    "ACCEPTED_BY ?d3 = ACCEPTED_BY (expire_chain cutoff d1)"
    by (simp_all add: ledger_of_eq expire_chain_def expire_chain_tables)
  have "tab_get (ACCEPTED_BY (expire_chain cutoff d1)) h =
      (if tab_get (ACCEPTED_BY (expire_chain cutoff d1)) h = None then None else tab_get (ACCEPTED_BY d) h)"
    by (simp add: expire_chain_def expire_chain_tables acc)
  then show ?thesis using d1 d3 expire_chain_applied [OF i1, of cutoff h] both by simp
qed

lemma expire_view:
  assumes inv: "store_inv d" and held: "held d"
  shows "held (snd (expire_below None cutoff d))
    \<and> view_of (snd (expire_below None cutoff d)) = drop_below cutoff (view_of d)"
proof -
  let ?d = "snd (expire_below None cutoff d)"
  have ok: "tab_ok (TX d)" using store_inv_tabs [OF inv] by (simp add: ledger_tabs_ok_def)
  note tabs = expire_tables [OF inv, of cutoff]
  have keep: "tab_get (TX ?d) n = tab_get (TX d) n" if "tab_get (TX d) n = Some t" "\<not> it_accepting_daa t < cutoff" for n t
  proof -
    have "n \<notin> set (map fst (takeWhile (\<lambda>(k, itx). it_accepting_daa itx < cutoff) (TX d)))"
      using that ok by (auto dest!: set_takeWhileD simp: tab_get_set)
    then show ?thesis using tabs by simp
  qed
  have stay: "tab_get (TX ?d) n = tab_get (TX d) n"
    if "tab_get (ACCEPTED_BY d) h = Some ns" "n \<in> set ns" "tab_get (APPLIED ?d) h \<noteq> None" for h ns n
    using heldD [OF held that(1,2)] that(3) tabs [of h] keep [of n] by (auto split: if_splits)
  have "List.map_filter (tab_get (TX ?d)) ns = List.map_filter (tab_get (TX d)) ns"
    if "tab_get (ACCEPTED_BY d) h = Some ns" "tab_get (APPLIED ?d) h \<noteq> None" for h ns
    by (rule map_filter_cong) (use stay that in blast)
  then have "view_of ?d h = drop_below cutoff (view_of d) h" for h
    using tabs [of h] by (auto simp: drop_below_def view_of_def split: option.splits if_splits)
  moreover have "held ?d"
    unfolding held_def
  proof (intro allI impI)
    fix h ns n assume a: "tab_get (ACCEPTED_BY ?d) h = Some ns" "n \<in> set ns"
    then have b: "tab_get (ACCEPTED_BY d) h = Some ns" "tab_get (APPLIED ?d) h \<noteq> None"
      using tabs [of h] by (auto split: if_splits)
    with heldD [OF held b(1) a(2)] stay [OF b(1) a(2) b(2)] tabs [of h]
    show "\<exists>t. tab_get (TX ?d) n = Some t \<and> tab_get (APPLIED ?d) h = Some (it_accepting_daa t)"
      by (auto split: option.splits if_splits)
  qed
  ultimately show ?thesis by blast
qed

section \<open>The store refines the abstract index\<close>

text \<open>The write operations of the store, each with the error its transaction reports, if any.\<close>

datatype store_op =
  Open "StoreError option"
| Apply "StoreError option" "AcceptedGroup list"
| Unwind "StoreError option" string
| Expire "StoreError option" u64
| SetCheckpoint "StoreError option" string u64

fun exec :: "ext \<Rightarrow> string \<Rightarrow> store_op \<Rightarrow> db \<Rightarrow> db" where
  "exec e prefix (Open io) d = snd (store_open io d)"
| "exec e prefix (Apply io groups) d = snd (store_apply io e prefix groups d)"
| "exec e prefix (Unwind io hash) d = snd (unwind_chain_block io hash d)"
| "exec e prefix (Expire io cutoff) d = snd (expire_below io cutoff d)"
| "exec e prefix (SetCheckpoint io hash daa) d = snd (set_checkpoint io hash daa d)"

fun index_spec :: "store_op \<Rightarrow> index_view \<Rightarrow> index_view" where
  "index_spec (Apply None groups) v = fold add_block groups v"
| "index_spec (Unwind None hash) v = drop_block hash v"
| "index_spec (Expire None cutoff) v = drop_below cutoff v"
| "index_spec _ v = v"

text \<open>An apply runs on ASCII payloads and scripts and has numbers left for its transactions.\<close>

fun fits :: "store_op \<Rightarrow> db \<Rightarrow> bool" where
  "fits (Apply io groups) d =
     (list_all ascii_group groups \<and> unat (meta_u64 d ''next_tx_num'') + group_txs groups < 2 ^ 64)"
| "fits _ d = True"

definition view_ok :: "ext \<Rightarrow> string \<Rightarrow> db \<Rightarrow> bool" where
  "view_ok e prefix d = (store_env e prefix \<and> store_inv d \<and> held d \<and> ascii_db d)"

lemma failed_writes [simp]:
  "store_apply (Some err) e prefix groups d = (Inl (Err err), d)"
  "unwind_chain_block (Some err) hash d = (Inl (Err err), d)"
  "expire_below (Some err) cutoff d = (Inl (Err err), d)"
  by (simp_all add: store_apply_def unwind_chain_block_def expire_below_def)

lemma meta_writes:
  "TX (snd (store_open io d)) = TX d" "ACCEPTED_BY (snd (store_open io d)) = ACCEPTED_BY d"
  "APPLIED (snd (store_open io d)) = APPLIED d"
  "TX (snd (set_checkpoint io hash daa d)) = TX d"
  "ACCEPTED_BY (snd (set_checkpoint io hash daa d)) = ACCEPTED_BY d"
  "APPLIED (snd (set_checkpoint io hash daa d)) = APPLIED d"
  by (simp_all add: store_open_def set_checkpoint_def split: option.split)

lemma exec_apply:
  assumes ok: "view_ok e prefix d" and fit: "fits (Apply io groups) d"
  shows "view_ok e prefix (exec e prefix (Apply io groups) d)
    \<and> view_of (exec e prefix (Apply io groups) d) = index_spec (Apply io groups) (view_of d)"
proof (cases io)
  case None
  have env: "ext_ok e" "ascii_text prefix" using ok by (simp_all add: view_ok_def store_env_def)
  obtain st where st: "store_apply None e prefix groups d = (Inr (fst (finish_apply st)), snd (finish_apply st))"
    "ascii_db (snd (finish_apply st))"
    using store_apply_total [of groups d e prefix] ok fit by (auto simp: view_ok_def)
  show ?thesis
    using store_apply_view [OF env, of d groups None] store_apply_inv [OF env, of d groups None] ok fit st None
    by (simp add: view_ok_def)
next
  case (Some err)
  then show ?thesis using ok by simp
qed

lemma exec_refines:
  assumes ok: "view_ok e prefix d" and fit: "fits a d"
  shows "view_ok e prefix (exec e prefix a d) \<and> view_of (exec e prefix a d) = index_spec a (view_of d)"
proof (cases a)
  case (Apply io groups)
  then show ?thesis using exec_apply [OF ok] fit by simp
next
  case (Unwind io hash)
  have inv: "store_inv d" "held d" "ascii_db d" using ok by (simp_all add: view_ok_def)
  show ?thesis
    using ok Unwind unwind_view [OF inv(1,2), of hash] unwind_inv [OF inv(1), of None hash]
      unwind_ascii [OF inv(1,3), of None hash]
    by (cases io) (simp_all add: view_ok_def)
next
  case (Expire io cutoff)
  have inv: "store_inv d" "held d" "ascii_db d" using ok by (simp_all add: view_ok_def)
  show ?thesis
    using ok Expire expire_view [OF inv(1,2), of cutoff] expire_inv [OF inv(1), of None cutoff]
      expire_ascii [OF inv(3), of None cutoff]
    by (cases io) (simp_all add: view_ok_def)
next
  case (Open io)
  then show ?thesis
    using ok open_inv [of d io] held_cong [of "snd (store_open io d)" d] view_of_cong [of "snd (store_open io d)" d]
    by (cases io) (simp_all add: view_ok_def ascii_db_def meta_writes)
next
  case (SetCheckpoint io hash daa)
  then show ?thesis
    using ok set_checkpoint_inv [of d io hash daa] held_cong [of "snd (set_checkpoint io hash daa d)" d]
      view_of_cong [of "snd (set_checkpoint io hash daa d)" d]
    by (cases io) (simp_all add: view_ok_def ascii_db_def meta_writes)
qed

interpretation index: functional_refinement "exec e prefix" index_spec view_of "view_ok e prefix" fits
  by unfold_locales (simp_all add: exec_refines)

lemma held_empty: "held empty_db"
  by (simp add: held_def empty_db_def)

lemma store_step_held:
  assumes inv: "store_env e prefix" "store_inv d" "held d" and step: "store_step e prefix d d'"
  shows "held d'"
  using step
proof (cases rule: store_step.cases)
  case (step_open io)
  then show ?thesis using inv(3) held_cong [of d' d] by (simp add: meta_writes)
next
  case (step_apply groups io)
  then show ?thesis
    using inv store_apply_view [of e prefix d groups io] by (simp add: store_env_def)
next
  case (step_unwind io hash)
  then show ?thesis using inv unwind_view [of d hash] by (cases io) simp_all
next
  case (step_expire io cutoff)
  then show ?thesis using inv expire_view [of d cutoff] by (cases io) simp_all
next
  case (step_checkpoint io hash daa)
  then show ?thesis using inv(3) held_cong [of d' d] by (simp add: meta_writes)
qed

interpretation holding: invariant_system "\<lambda>d. d = empty_db \<and> store_env e prefix" "store_step e prefix"
    "\<lambda>d. store_env e prefix \<and> store_inv d \<and> held d"
  by unfold_locales
    (auto simp: store_inv_empty held_empty store_env_def intro: store_step_inv, metis store_env_def store_step_held)

lemma reachable_view_ok: "store_reachable e prefix d \<Longrightarrow> ascii_db d \<Longrightarrow> view_ok e prefix d"
  using holding.reach_inv [of e prefix empty_db d] by (simp add: store_reachable_def view_ok_def)

text \<open>Property C1. The store refines its abstract specification: over every sequence of opening,
  applying, unwinding, sweeping and moving the checkpoint, with or without storage errors,
  the map from applied blocks to their scores and accepted transactions develops exactly as
  specified: an apply adds the blocks that are new with all their transactions in order, an
  unwind drops its block, a sweep drops the blocks below the cutoff, a failed operation and
  the others change nothing; and a block is reported as applied exactly when it is in the
  map.\<close>

theorem store_refines_view:
  assumes "store_reachable e prefix d" "ascii_db d" "admissible fits (exec e prefix) ops d"
  shows "view_of (fold (exec e prefix) ops d) = fold index_spec ops (view_of d)
    \<and> (\<forall>h. is_applied None h (fold (exec e prefix) ops d) = Inr (fold index_spec ops (view_of d) h \<noteq> None))"
proof -
  have r: "view_ok e prefix (fold (exec e prefix) ops d)"
    "view_of (fold (exec e prefix) ops d) = fold index_spec ops (view_of d)"
    using index.run_refines [OF reachable_view_ok [OF assms(1,2)] assms(3)] by simp_all
  then have "chain_inv (meta_u64 (fold (exec e prefix) ops d) ''next_tx_num'') (fold (exec e prefix) ops d)"
    by (simp add: view_ok_def store_inv_def ledger_inv_def)
  from view_None [OF this] r(2) show ?thesis by (simp add: is_applied_def del: not_None_eq)
qed

lemma sample_group2_ascii: "list_all ascii_group [sample_group2]"
  by (simp add: ascii_group_def sample_group2_def ascii_tx_def sample_tx_def is_ascii_str_def)

lemma sample_db_ascii: "ascii_db sample_db"
  by (simp add: ascii_db_def sample_db_eq tab_get_def sample_row_def build_indexed_def
      sample_tx_def sample_out_def sample_spk_ascii)

lemma sample_view: "view_of sample_db ''b2'' = None" "view_of sample_db ''b1'' = Some (10, [body_of sample_row])"
  by (simp_all add: view_of_def sample_db_eq tab_get_def map_filter_simps)

lemma sample_fits2: "fits (Apply None [sample_group2]) sample_db"
  using sample_group2_ascii
  by (simp add: group_txs_def sample_group2_def [THEN arg_cong, of ag_txs] meta_u64_def sample_db_eq tab_get_def)

theorem store_refines_view_witness:
  "view_of (fold (exec ext_sample ''keryxsim'') [Apply None [sample_group2], Expire None 11] sample_db) ''b2''
     = Some (11, [build_indexed (sample_tx ''bb'' False [sample_in] []) 0 sample_group2 []])
   \<and> view_of (fold (exec ext_sample ''keryxsim'') [Apply None [sample_group2], Expire None 11] sample_db) ''b1'' = None"
proof -
  have "admissible fits (exec ext_sample ''keryxsim'') [Apply None [sample_group2], Expire None 11] sample_db"
    using sample_fits2 by simp
  from store_refines_view [OF sample_reachable sample_db_ascii this] show ?thesis
    by (simp add: add_block_def drop_below_def sample_view) (simp add: sample_view sample_group2_def)
qed

section \<open>Abandoned branches\<close>

lemma drop_blocks: "fold drop_block hs v h = (if h \<in> set hs then None else v h)"
  by (induction hs arbitrary: v) (auto simp: drop_block_def)

lemma add_blocks_other: "h \<notin> ag_chain_block_hash ` set groups \<Longrightarrow> fold add_block groups v h = v h"
  by (induction groups arbitrary: v) (auto simp: add_block_def)

lemma drop_added:
  assumes "\<And>g. g \<in> set groups \<Longrightarrow> v (ag_chain_block_hash g) = None"
    and "set hs = ag_chain_block_hash ` set groups"
  shows "fold drop_block hs (fold add_block groups v) = v"
proof
  fix h
  show "fold drop_block hs (fold add_block groups v) h = v h"
    using assms add_blocks_other [of h groups v] by (cases "h \<in> set hs") (auto simp: drop_blocks)
qed

lemma spec_unwinds: "fold index_spec (map (Unwind None) hs) v = fold drop_block hs v"
  by (induction hs arbitrary: v) simp_all

lemma side_unwinds: "side_of (fold (exec e prefix) (map (Unwind None) hs) d) = side_of d"
  by (induction hs arbitrary: d) (simp_all add: side_unwind)

text \<open>Property C4. The ledger of the index depends on the chain and not on its history: after
  following a branch that the node then abandons, with its blocks unwound, applying the new
  branch gives the same blocks, scores and transactions as applying the new branch alone.
  The request, challenge and capability tables are not unwound: they stay as the abandoned
  branch left them.\<close>

theorem abandoned_branch_unwound:
  assumes "store_reachable e prefix d" "ascii_db d"
    and "list_all (\<lambda>g. view_of d (ag_chain_block_hash g) = None) branch"
    and "admissible fits (exec e prefix)
      (Apply None branch # map (Unwind None) (rev (map ag_chain_block_hash branch)) @ [Apply None groups]) d"
    and "fits (Apply None groups) d"
  shows "view_of (fold (exec e prefix)
      (Apply None branch # map (Unwind None) (rev (map ag_chain_block_hash branch)) @ [Apply None groups]) d)
    = view_of (exec e prefix (Apply None groups) d)
    \<and> side_of (fold (exec e prefix)
      (Apply None branch # map (Unwind None) (rev (map ag_chain_block_hash branch))) d)
    = side_of (exec e prefix (Apply None branch) d)"
proof -
  note ok = reachable_view_ok [OF assms(1,2)]
  have "fold drop_block (rev (map ag_chain_block_hash branch)) (fold add_block branch (view_of d)) = view_of d"
    using assms(3) by (intro drop_added) (auto simp: list_all_iff)
  then show ?thesis
    using index.run_refines [OF ok assms(4)] exec_refines [OF ok assms(5)] by (simp add: spec_unwinds side_unwinds)
qed

theorem abandoned_branch_unwound_witness:
  "view_of (fold (exec ext_sample ''keryxsim'')
      [Apply None [sample_group2], Unwind None ''b2'', Apply None [sample_group2]] sample_db)
    = view_of (exec ext_sample ''keryxsim'' (Apply None [sample_group2]) sample_db)"
proof -
  have "meta_u64 (snd (unwind_chain_block None ''b2'' sample_db2)) ''next_tx_num'' = 2"
    by (simp add: unwind_chain_block_def meta_u64_def sample_db2_simps tab_get_def unwind_tx_def unwind_row_tables)
  then have "fits (Apply None [sample_group2]) (snd (unwind_chain_block None ''b2'' sample_db2))"
    using sample_group2_ascii by (simp add: group_txs_def sample_group2_def [THEN arg_cong, of ag_txs])
  then have "admissible fits (exec ext_sample ''keryxsim'')
      (Apply None [sample_group2] # map (Unwind None) (rev (map ag_chain_block_hash [sample_group2]))
         @ [Apply None [sample_group2]]) sample_db"
    using sample_fits2 by (simp add: sample_group2_def [THEN arg_cong, of ag_chain_block_hash] flip: sample_db2_def del: fits.simps)
      (simp flip: sample_db2_def)
  from abandoned_branch_unwound [OF sample_reachable sample_db_ascii _ this sample_fits2] show ?thesis
    by (simp add: sample_view sample_group2_def [THEN arg_cong, of ag_chain_block_hash])
qed

end
