(* ===== verification/IndexerChain.thy ===== *)
theory IndexerChain
  imports IndexerProps StoreView
begin

text \<open>
  The effect of the indexer on the chain it indexes: on a node that sends ASCII hex the
  task never dies, a chain notification changes the abstract index exactly as announced, the
  retention sweep never cuts into the window, and the mempool overlay shows the rows that
  confirmation adds.
\<close>

section \<open>Unwinding several blocks\<close>

lemma unwind_removed_ascii:
  assumes "store_reachable e prefix d" "ascii_db d"
  shows "ascii_db (unwind_removed io n hashes d)"
  using assms
proof (induction hashes arbitrary: n d)
  case (Cons hash hashes)
  then show ?case
    using Cons.IH [OF reachable_step [OF Cons.prems(1) step_unwind]]
      unwind_ascii [OF reachable_inv [OF Cons.prems(1)] Cons.prems(2)] by simp
qed simp

section \<open>The task survives\<close>

definition ascii_rpc_tx :: "RpcTransaction \<Rightarrow> bool" where
  "ascii_rpc_tx tx = (is_ascii_str (tx_payload tx)
     \<and> list_all (\<lambda>out. is_ascii_str (sp_script_public_key (unwrap_or spk_default (to_script_public_key out)))) (tx_outputs tx))"

definition ascii_block :: "RpcBlock \<Rightarrow> bool" where
  "ascii_block block = list_all ascii_rpc_tx (bl_transactions block)"

definition ascii_staging :: "Staging \<Rightarrow> bool" where
  "ascii_staging s = (\<forall>txid raw. staged_tx s txid = Some raw \<longrightarrow> ascii_tx raw)"

lemma raw_from_proto_ascii: "ascii_rpc_tx tx \<Longrightarrow> raw_from_proto tx = Some raw \<Longrightarrow> ascii_tx raw"
  by (auto simp: raw_from_proto_def ascii_rpc_tx_def ascii_tx_def list_all_iff raw_out_def Let_def
      split: option.splits if_splits)

lemma stage_block_ascii:
  assumes "staging_inv s" "ascii_staging s" "ascii_block block"
  shows "ascii_staging (stage_block block s)"
proof -
  let ?raws = "List.map_filter raw_from_proto (bl_transactions block)"
  have "ascii_tx raw" if "raw \<in> set ?raws" for raw
    using that assms(3) raw_from_proto_ascii by (auto simp: List.map_filter_def ascii_block_def list_all_iff)
  then have "bounded_inv (fold (\<lambda>raw. bounded_insert (rt_tx_id raw) raw) ?raws (sg_tx_bodies s))
    \<and> (\<forall>k v. bounded_get (fold (\<lambda>raw. bounded_insert (rt_tx_id raw) raw) ?raws (sg_tx_bodies s)) k = Some v
         \<longrightarrow> ascii_tx v)"
    using assms(1,2) by (intro bounded.fold_all) (auto simp: staging_inv_def ascii_staging_def staged_tx_def)
  then show ?thesis
    by (auto simp: ascii_staging_def stage_block_def staged_tx_def fold_stage_tx Let_def split: option.splits)
qed

lemma stage_blocks_ascii:
  "staging_inv s \<Longrightarrow> ascii_staging s \<Longrightarrow> list_all ascii_block blocks \<Longrightarrow> ascii_staging (fold stage_block blocks s)"
  by (induction blocks arbitrary: s) (auto simp: stage_block_ascii stage_block_inv)

lemma build_groups_ascii:
  assumes "ascii_staging staging" "build_groups node staging accepted = (groups, misses)"
  shows "list_all ascii_group groups"
  using assms
  by (auto simp: build_groups_eq list_all_iff ascii_group_def ascii_staging_def List.map_filter_def)

definition sound :: "engine \<Rightarrow> bool" where
  "sound s = (en_alive s \<and> ascii_db (en_db s) \<and> staging_inv (en_staging s) \<and> ascii_staging (en_staging s))"

lemma apply_groups_sound:
  assumes "sound s" "list_all ascii_group groups"
  shows "sound (apply_groups io e prefix groups misses s)"
proof (cases "io_apply io")
  case None
  obtain st where st: "store_apply None e prefix groups (en_db s) = (Inr (fst (finish_apply st)), snd (finish_apply st))"
    "ascii_db (snd (finish_apply st))"
    using store_apply_total [OF assms(2), of "en_db s" e prefix] assms(1) by (auto simp: sound_def)
  then show ?thesis
    using None assms(1) expire_ascii [OF st(2)]
    by (auto simp: apply_groups_def Let_def edit_def sweep_def sound_def)
next
  case (Some err)
  then show ?thesis using assms(1) by (simp add: apply_groups_def store_apply_def sound_def)
qed

text \<open>Every transaction a notification brings is ASCII hex.\<close>

definition ascii_event :: "Notification \<times> node_env \<times> store_io \<Rightarrow> bool" where
  "ascii_event ev = (case ev of (n, node, io) \<Rightarrow>
     (case n of BlockAdded block \<Rightarrow> ascii_block block | _ \<Rightarrow> True)
     \<and> (\<forall>low blocks. nd_get_blocks node low = Inr blocks \<longrightarrow> list_all ascii_block blocks))"

lemma backfill_sound:
  assumes "sound s" "ascii_event (n, node, io)" "backfill node io e prefix s = (r, s')"
  shows "sound s'"
proof -
  have stage: "sound (s\<lparr> en_staging := stage_from node vc (en_staging s) \<rparr>)" for vc
    using assms(1,2)
    by (auto simp: sound_def stage_from_def ascii_event_def stage_blocks_ascii staging_inv_fold
        split: list.split sum.split)
  then have "sound (apply_groups io e prefix groups misses (s\<lparr> en_staging := stage_from node vc (en_staging s) \<rparr>))"
    if "build_groups node (stage_from node vc (en_staging s)) accepted = (groups, misses)" for vc accepted groups misses
    using that build_groups_ascii [OF _ that] stage [of vc] by (intro apply_groups_sound) (simp_all add: sound_def)
  then show ?thesis
    using assms(1,3) by (auto simp: backfill_def Let_def split: sum.splits if_splits prod.splits)
qed

lemma edit_sel [simp]:
  "en_store (edit f s) = en_store s" "en_db (edit f s) = en_db s" "en_pollers (edit f s) = en_pollers s"
  "en_alive (edit f s) = en_alive s" "en_staging (edit f s) = en_staging s" "en_ctx (edit f s) = en_ctx s"
  by (simp_all add: edit_def)

lemma sound_edit [simp]: "sound (edit f s) = sound s"
  by (simp add: sound_def)

lemma on_connected_sound:
  assumes "sound s" "ascii_event (n, node, io)"
  shows "sound (on_connected node io e prefix s)"
proof -
  obtain r s' where b: "backfill node io e prefix (edit (\<lambda>st. st\<lparr> st_state := Backfilling \<rparr>) s) = (r, s')" by fastforce
  have "sound s'" by (rule backfill_sound [OF _ assms(2) b]) (simp add: assms(1))
  then show ?thesis using assms(1) b by (auto simp: on_connected_def split: sum.split)
qed

lemma store_open_ascii: "ascii_db d \<Longrightarrow> ascii_db (snd (store_open io d))"
  by (auto simp: ascii_db_def store_open_def split: option.split)

lemma on_notification_sound:
  assumes s: "sound s" and inv: "store_reachable e prefix (en_db s)" and a: "ascii_event (n, node, io)"
  shows "sound (on_notification node io e n s)"
proof (cases n)
  case (Connected generation)
  let ?s = "edit (\<lambda>st. st\<lparr> st_state := Connecting, st_generation := generation \<rparr>) s"
  obtain r d where o: "store_open (io_open io) (en_db s) = (r, d)" by fastforce
  have "sound (?s\<lparr> en_db := d, en_store := p, en_pollers := q \<rparr>)" for p q
    using s store_open_ascii [of "en_db s" "io_open io"] o by (simp add: sound_def edit_def)
  moreover have "sound (?s\<lparr> en_db := d \<rparr>)"
    using s store_open_ascii [of "en_db s" "io_open io"] o by (simp add: sound_def edit_def)
  moreover have "sound (on_connected node io e p ?s)" for p using s a by (intro on_connected_sound) simp_all
  ultimately show ?thesis
    using Connected o on_connected_sound [OF _ a]
    by (cases r) (auto simp: on_notification_def open_store_def Let_def split: option.split)
next
  case (BlockAdded block)
  then show ?thesis
    using s a by (auto simp: on_notification_def Let_def) (auto simp: sound_def stage_block_ascii stage_block_inv ascii_event_def)
next
  case (VirtualChainChanged vc)
  let ?s = "s\<lparr> en_db := unwind_removed (io_unwind io) 0 (vc_removed_chain_block_hashes vc) (en_db s) \<rparr>"
  have "sound ?s" using s unwind_removed_ascii [OF inv] by (simp add: sound_def)
  then have "sound (apply_groups io e p groups misses ?s)"
    if "build_groups node (en_staging s) accepted = (groups, misses)" for p accepted groups misses
    using build_groups_ascii [OF _ that] s by (intro apply_groups_sound) (simp_all add: sound_def)
  then show ?thesis
    using VirtualChainChanged s by (auto simp: on_notification_def split: option.split prod.split)
qed

text \<open>The room a run needs for its transaction numbers, and the network it stays on.\<close>

fun run_fits :: "ext \<Rightarrow> string \<Rightarrow> (Notification \<times> node_env \<times> store_io) list \<Rightarrow> engine \<Rightarrow> bool" where
  "run_fits e prefix [] s = True"
| "run_fits e prefix ((n, node, io) # rest) s =
     ((case n of
         Connected _ \<Rightarrow> open_prefix node = prefix
           \<and> (\<forall>start vc. nd_virtual_chain node start = Inr vc \<longrightarrow> room (en_db s) vc)
       | BlockAdded _ \<Rightarrow> True
       | VirtualChainChanged vc \<Rightarrow> room (en_db s) vc)
      \<and> run_fits e prefix rest (on_notification node io e n s))"

lemma run_fits_step:
  assumes "run_fits e prefix ((n, node, io) # rest) s" "en_alive s"
  shows "engine_step e prefix s (on_notification node io e n s)"
  using assms by (cases n) (auto intro: connected block_added chain_changed)

lemma run_sound:
  assumes "list_all ascii_event evs" "run_fits e prefix evs s" "engine_inv e prefix s" "sound s"
  shows "sound (run e evs s) \<and> engine_inv e prefix (run e evs s)"
  using assms
proof (induction evs arbitrary: s)
  case (Cons ev evs)
  obtain n node io where ev: "ev = (n, node, io)" by (metis prod_cases3)
  let ?s = "on_notification node io e n s"
  have "sound ?s"
    using on_notification_sound [of s e prefix n node io] Cons.prems ev by (simp add: engine_inv_def)
  moreover have "engine_inv e prefix ?s"
    using engine_step_inv [OF Cons.prems(3) run_fits_step] Cons.prems(2,4) ev by (simp add: sound_def)
  ultimately show ?case using Cons.IH [of ?s] Cons.prems(1,2) ev by (simp add: Let_def sound_def)
qed simp

text \<open>
  Property C22. The indexer never dies on a node that sends ASCII hex: over every sequence of
  notifications, whatever the node answers to the calls they cause and whatever errors the
  storage reports, the task neither panics nor stops, as long as the transactions in the
  blocks it receives (pushed or fetched) carry ASCII payloads and scripts.
\<close>

theorem indexer_survives:
  assumes "store_reachable e prefix disk" "ascii_db disk" "list_all ascii_event evs"
    and "run_fits e prefix evs (indexer_spawn days disk poll_ms)"
  shows "en_alive (run e evs (indexer_spawn days disk poll_ms))"
proof -
  have "engine_inv e prefix (indexer_spawn days disk poll_ms)"
    using assms(1) by (intro engine_init_inv) (auto simp: engine_init_def)
  moreover have "sound (indexer_spawn days disk poll_ms)"
    using assms(2) staging_new_inv
    by (simp add: sound_def indexer_spawn_def ascii_staging_def staged_tx_def staging_new_def bounded_get_def
        bounded_new_def)
  ultimately show ?thesis using run_sound [OF assms(3,4)] by (simp add: sound_def)
qed

definition sample_chain :: VirtualChain where
  "sample_chain = \<lparr> vc_removed_chain_block_hashes = [''b2''], vc_added_chain_block_hashes = [''b3''],
     vc_accepted_transaction_ids = [\<lparr> ac_accepting_block_hash = ''b3'', ac_accepted_transaction_ids = [''zz''] \<rparr>] \<rparr>"

lemma sample_ascii: "ascii_event (Connected 1, sample_node, no_io)" "ascii_event (VirtualChainChanged sample_chain, sample_node, no_io)"
  by (simp_all add: ascii_event_def sample_node_def)

lemma sample_db2_ascii: "ascii_db sample_db2"
  by (simp add: ascii_db_def sample_db2_simps tab_get_def sample_row_def sample_row2_def build_indexed_def
      sample_tx_def sample_out_def sample_spk_ascii)

lemma sample_fits:
  "run_fits ext_sample ''keryxsim'' [(Connected 1, sample_node, no_io), (VirtualChainChanged sample_chain, sample_node, no_io)]
     (indexer_spawn 0 sample_db2 2000)"
proof -
  have "room (en_db sample_live) sample_chain"
    by (simp add: sample_live_eq room_def vc_ids_def sample_chain_def meta_u64_def sample_db2_simps tab_get_def)
  then show ?thesis
    by (simp add: sample_live_def [symmetric]) (simp add: sample_node_def open_prefix_def sample_prefix)
qed

theorem indexer_survives_witness:
  "en_alive (run ext_sample
     [(Connected 1, sample_node, no_io), (VirtualChainChanged sample_chain, sample_node, no_io)]
     (indexer_spawn 0 sample_db2 2000))"
  by (rule indexer_survives [OF sample_reachable2 sample_db2_ascii _ sample_fits]) (simp add: sample_ascii)

section \<open>The index follows the notifications\<close>

lemma unwind_removed_exec:
  "unwind_removed (\<lambda>_. None) n hashes d = fold (exec e prefix) (map (Unwind None) hashes) d"
  by (induction hashes arbitrary: n d) simp_all

lemma unwinds_admissible: "admissible fits (exec e prefix) (map (Unwind None) hashes) d"
  by (induction hashes arbitrary: d) simp_all

text \<open>What an apply reports as its checkpoint: the last block it applied, if any.\<close>

definition reported :: "applying \<Rightarrow> (string \<times> u64) option \<times> u64" where
  "reported st = (ap_checkpoint st, as_checkpoint_daa (ap_stats st))"

lemma apply_tx_reported:
  assumes "apply_tx e prefix grp raw (ns, st) = Inr (ns', st')"
  shows "reported st' = reported st"
proof -
  from assms obtain l st1 st2 where
    s1: "index_subnetwork e grp raw (ap_next_tx_num st)
         (st\<lparr> ap_next_tx_num := ap_next_tx_num st + 1,
              ap_db := index_ledger raw grp (ap_next_tx_num st) l (ap_db st) \<rparr>) = Inr st1"
    and s2: "index_caps grp raw st1 = Inr st2"
    and out: "st' = st2\<lparr> ap_total_txs := ap_total_txs st2 + 1,
                  ap_stats := (ap_stats st2)\<lparr> as_applied_txs := as_applied_txs (ap_stats st2) + 1 \<rparr> \<rparr>"
    by (auto simp: apply_tx_def Let_def)
  from index_caps_frame [OF s2] index_subnetwork_frame [OF s1]
  show ?thesis by (simp add: reported_def out ledger_side_def)
qed

lemma apply_txs_reported:
  "fold_res (apply_tx e prefix grp) xs (ns, st) = Inr (ns', st') \<Longrightarrow> reported st' = reported st"
proof (induction xs arbitrary: ns st)
  case (Cons raw xs)
  then obtain ns1 st1 where s: "apply_tx e prefix grp raw (ns, st) = Inr (ns1, st1)"
    "fold_res (apply_tx e prefix grp) xs (ns1, st1) = Inr (ns', st')"
    by (auto split: sum.splits)
  then show ?case using Cons.IH [OF s(2)] apply_tx_reported [OF s(1)] by simp
qed simp

lemma apply_groups_reported:
  assumes "fold_res (apply_group e prefix) groups st = Inr st'"
  shows "snd (reported st') = snd (reported st) \<and> (fst (reported st') = fst (reported st)
    \<or> (\<exists>g \<in> set groups. fst (reported st') = Some (ag_chain_block_hash g, ag_daa_score g)))"
  using assms
proof (induction groups arbitrary: st)
  case (Cons grp groups)
  then obtain st1 where s: "apply_group e prefix grp st = Inr st1"
    "fold_res (apply_group e prefix) groups st1 = Inr st'"
    by (auto split: sum.splits)
  have "snd (reported st1) = snd (reported st) \<and> (fst (reported st1) = fst (reported st)
      \<or> fst (reported st1) = Some (ag_chain_block_hash grp, ag_daa_score grp))"
    using s(1) by (auto simp: apply_group_def close_group_def Let_def reported_def dest!: apply_txs_reported split: if_splits)
  then show ?case using Cons.IH [OF s(2)] by auto
qed simp

lemma finish_apply_reported:
  assumes "fold_res (apply_group e prefix) groups (begin_apply d) = Inr st"
  shows "as_checkpoint_daa (fst (finish_apply st)) \<in> insert 0 (ag_daa_score ` set groups)"
  using apply_groups_reported [OF assms]
  by (auto simp: finish_apply_def begin_apply_def reported_def Let_def split: option.splits)

lemma sweep_view:
  assumes ok: "view_ok e prefix (en_db s)"
  shows "\<exists>cutoff. view_of (en_db (sweep io cp s)) = drop_below cutoff (view_of (en_db s))
    \<and> (cutoff \<noteq> 0 \<longrightarrow> 0 < cx_window_daa (en_ctx s) \<and> unat cutoff + unat (cx_window_daa (en_ctx s)) = unat cp)"
proof -
  have none: "drop_below 0 v = v" for v by (auto simp: drop_below_def split: option.split)
  show ?thesis
  proof (cases "sweep_due (en_ctx s) cp \<and> io = None")
    case True
    let ?c = "cp - cx_window_daa (en_ctx s)"
    have w: "0 < cx_window_daa (en_ctx s)" "cx_window_daa (en_ctx s) \<le> cp"
      using True by (auto simp: sweep_due_def)
    have "unat ?c + unat (cx_window_daa (en_ctx s)) = unat cp"
      using w(2) by (simp add: unat_sub word_le_nat_alt)
    moreover have "view_of (en_db (sweep io cp s)) = drop_below ?c (view_of (en_db s))"
      using True ok expire_view [of "en_db s" ?c] by (simp add: sweep_def view_ok_def)
    ultimately show ?thesis using w(1) by blast
  next
    case False
    then have "view_of (en_db (sweep io cp s)) = view_of (en_db s)"
      by (cases io) (auto simp: sweep_def)
    then show ?thesis using none by (intro exI [of _ 0]) simp
  qed
qed

lemma apply_groups_refines:
  assumes ok: "view_ok e prefix (en_db s)" and fit: "fits (Apply None groups) (en_db s)" and io: "io_apply io = None"
  shows "\<exists>cutoff. view_of (en_db (apply_groups io e prefix groups misses s))
      = drop_below cutoff (fold add_block groups (view_of (en_db s)))
    \<and> (cutoff \<noteq> 0 \<longrightarrow> 0 < cx_window_daa (en_ctx s)
        \<and> (\<exists>g \<in> set groups. unat cutoff + unat (cx_window_daa (en_ctx s)) = unat (ag_daa_score g)))"
proof (cases "groups = []")
  case True
  have "drop_below 0 v = v" for v by (auto simp: drop_below_def split: option.split)
  then show ?thesis using True by (intro exI [of _ 0]) (simp add: apply_groups_def)
next
  case False
  obtain st where st: "fold_res (apply_group e prefix) groups (begin_apply (en_db s)) = Inr st"
    "store_apply None e prefix groups (en_db s) = (Inr (fst (finish_apply st)), snd (finish_apply st))"
    using store_apply_total [of groups "en_db s" e prefix] ok fit by (auto simp: view_ok_def)
  let ?s = "s\<lparr> en_db := snd (finish_apply st),
    en_ctx := (en_ctx s)\<lparr> cx_total_misses := cx_total_misses (en_ctx s) + misses \<rparr> \<rparr>"
  let ?cp = "as_checkpoint_daa (fst (finish_apply st))"
  have "en_db (apply_groups io e prefix groups misses s) = en_db (sweep (io_expire io) ?cp ?s)"
    using False st(2) io by (simp add: apply_groups_def Let_def)
  moreover have "view_ok e prefix (en_db ?s)" "view_of (en_db ?s) = fold add_block groups (view_of (en_db s))"
    using exec_refines [OF ok fit] by (simp_all add: st(2))
  moreover have "unat ?cp = unat (0 :: u64) \<or> (\<exists>g \<in> set groups. ?cp = ag_daa_score g)"
    using finish_apply_reported [OF st(1)] by auto
  ultimately show ?thesis using sweep_view [of e prefix ?s "io_expire io" ?cp] by (fastforce simp: word_less_nat_alt)
qed

text \<open>
  Property C21. A chain notification does what it says: on an index whose contents are ASCII, the
  blocks it removes are dropped and the blocks it announces are added, unless already
  present, with their scores and with the bodies staged for the transactions they accept;
  every other block keeps its score and transactions, except that blocks below a cutoff may
  expire, which lies the retention window below the score of an announced block and is
  only there when a window is set.
\<close>

theorem chain_change_refines:
  assumes "store_reachable e prefix (en_db s)" "en_store s = Some prefix"
    and "ascii_db (en_db s)" "ascii_staging (en_staging s)" "room (en_db s) vc"
    and "io_apply io = None" "io_unwind io = (\<lambda>_. None)"
    and "build_groups node (en_staging s) (vc_accepted_transaction_ids vc) = (groups, misses)"
  shows "\<exists>cutoff. view_of (en_db (on_notification node io e (VirtualChainChanged vc) s))
      = drop_below cutoff (fold add_block groups
          (fold drop_block (vc_removed_chain_block_hashes vc) (view_of (en_db s))))
    \<and> (cutoff \<noteq> 0 \<longrightarrow> 0 < cx_window_daa (en_ctx s)
        \<and> (\<exists>g \<in> set groups. unat cutoff + unat (cx_window_daa (en_ctx s)) = unat (ag_daa_score g)))"
proof -
  let ?hs = "vc_removed_chain_block_hashes vc"
  let ?d = "unwind_removed (\<lambda>_. None) 0 ?hs (en_db s)"
  have d: "view_ok e prefix ?d" "view_of ?d = fold drop_block ?hs (view_of (en_db s))"
    using index.run_refines [OF reachable_view_ok [OF assms(1,3)] unwinds_admissible [of e prefix ?hs]]
    by (simp_all add: unwind_removed_exec [of _ _ _ e prefix] spec_unwinds)
  have "meta_u64 ?d ''next_tx_num'' = meta_u64 (en_db s) ''next_tx_num''"
    using unwind_removed_reachable [OF assms(1)] by simp
  then have "fits (Apply None groups) ?d"
    using build_groups_ascii [OF assms(4,8)] build_groups_room [OF assms(5,8)] by simp
  from apply_groups_refines [of e prefix "s\<lparr> en_db := ?d \<rparr>" groups io misses] d this assms
  show ?thesis by (simp add: on_notification_def)
qed


lemma no_io_sel: "io_apply no_io = None" "io_unwind no_io = (\<lambda>_. None)"
  by (simp_all add: no_io_def)

definition sample_b3 :: AcceptedGroup where
  "sample_b3 = \<lparr> ag_chain_block_hash = ''b3'', ag_daa_score = 12, ag_txs = [] \<rparr>"

lemma sample_live_reachable: "store_reachable ext_sample ''keryxsim'' (en_db sample_live)"
  unfolding sample_live_eq using reachable_step [OF sample_reachable2 step_open, of None]
  by (simp add: store_open_def sample_db2_simps tab_get_def)

lemma sample_live_view:
  "view_of (en_db sample_live) ''b1'' = Some (10, [body_of sample_row])" "view_of (en_db sample_live) ''b3'' = None"
proof -
  have "view_of (en_db sample_live) = view_of sample_db2"
    by (rule view_of_cong) (simp_all add: sample_live_eq)
  then show "view_of (en_db sample_live) ''b1'' = Some (10, [body_of sample_row])"
    "view_of (en_db sample_live) ''b3'' = None"
    by (simp_all add: view_of_def sample_db2_simps tab_get_def map_filter_simps)
qed

lemma sample_groups:
  "build_groups sample_node (en_staging sample_live) (vc_accepted_transaction_ids sample_chain) = ([sample_b3], 1)"
  by (simp add: build_groups_def build_group_def sample_chain_def sample_live_eq staging_new_def
      staged_tx_def staged_block_daa_def bounded_get_def bounded_new_def resolve_daa_def sample_node_def
      sample_b3_def unwrap_or_def Let_def)

theorem chain_change_refines_witness:
  "view_of (en_db (on_notification sample_node no_io ext_sample (VirtualChainChanged sample_chain) sample_live)) ''b3''
     = Some (12, [])
   \<and> view_of (en_db (on_notification sample_node no_io ext_sample (VirtualChainChanged sample_chain) sample_live)) ''b2'' = None
   \<and> view_of (en_db (on_notification sample_node no_io ext_sample (VirtualChainChanged sample_chain) sample_live)) ''b1''
     = Some (10, [body_of sample_row])"
proof -
  let ?s = "on_notification sample_node no_io ext_sample (VirtualChainChanged sample_chain) sample_live"
  have "ascii_db (en_db sample_live)" using sample_db2_ascii by (simp add: sample_live_eq ascii_db_def)
  moreover have "ascii_staging (en_staging sample_live)"
    by (simp add: sample_live_eq ascii_staging_def staged_tx_def staging_new_def bounded_get_def bounded_new_def)
  moreover have "room (en_db sample_live) sample_chain"
    by (simp add: sample_live_eq room_def vc_ids_def sample_chain_def meta_u64_def sample_db2_simps tab_get_def)
  ultimately obtain cutoff where v: "view_of (en_db ?s) = drop_below cutoff (fold add_block [sample_b3]
      (fold drop_block (vc_removed_chain_block_hashes sample_chain) (view_of (en_db sample_live))))" "cutoff = 0"
    using chain_change_refines [OF sample_live_reachable sample_live_eq(1) _ _ _ no_io_sel sample_groups] sample_live_eq(6)
    by auto
  then show ?thesis
    by (simp add: drop_below_def add_block_def drop_block_def sample_b3_def sample_chain_def sample_live_view)
qed

section \<open>Retention\<close>

lemma remove_taken:
  assumes "distinct (map fst t)"
  shows "tab_remove_all (map fst (takeWhile P t)) t = dropWhile P t"
proof -
  have "distinct (map fst (takeWhile P t @ dropWhile P t))" using assms by simp
  then have "fst row \<notin> fst ` set (takeWhile P t)" if "row \<in> set (dropWhile P t)" for row
    unfolding map_append distinct_append using that by force
  then have "filter (\<lambda>p. fst p \<notin> fst ` set (takeWhile P t)) (takeWhile P t @ dropWhile P t) = dropWhile P t"
    unfolding filter_append by (auto simp: filter_id_conv filter_empty_conv)
  then show ?thesis by (simp add: tab_remove_all_filter)
qed

lemma filter_dropWhile: "filter P (dropWhile (\<lambda>x. \<not> P x) xs) = filter P xs"
  by (induction xs) auto

lemma dropWhile_ordered: "sorted_wrt (\<lambda>x y. P x \<longrightarrow> P y) xs \<Longrightarrow> dropWhile (\<lambda>x. \<not> P x) xs = filter P xs"
  by (induction xs) (auto simp: filter_id_conv)

text \<open>A score is inside a window that ends at \<open>cp\<close>.\<close>

definition in_window :: "u64 \<Rightarrow> u64 \<Rightarrow> u64 \<Rightarrow> bool" where
  "in_window window cp daa = (unat cp \<le> unat daa + unat window)"

lemma in_window_iff: "window < cp \<Longrightarrow> in_window window cp daa \<longleftrightarrow> cp - window \<le> daa"
  using unat_sub [of window cp] by (auto simp: in_window_def word_le_nat_alt word_less_nat_alt)

lemma sweep_rows:
  assumes "store_reachable e prefix (en_db s)" "sweep_due (en_ctx s) cp"
  shows "TX (en_db (sweep None cp s))
      = dropWhile (\<lambda>row. \<not> in_window (cx_window_daa (en_ctx s)) cp (it_accepting_daa (snd row))) (TX (en_db s))"
    and "tab_get (APPLIED (en_db (sweep None cp s))) h
      = (case tab_get (APPLIED (en_db s)) h of
           Some daa \<Rightarrow> if in_window (cx_window_daa (en_ctx s)) cp daa then Some daa else None
         | None \<Rightarrow> None)"
proof -
  let ?c = "cp - cx_window_daa (en_ctx s)"
  have w: "cx_window_daa (en_ctx s) < cp" using assms(2) by (simp add: sweep_due_def)
  have "distinct (map fst (TX (en_db s)))"
    using reachable_tabs [OF assms(1)] tab_ok_distinct by (auto simp: ledger_tabs_ok_def)
  from remove_taken [OF this, of "\<lambda>(k, itx). it_accepting_daa itx < ?c"]
  show "TX (en_db (sweep None cp s))
      = dropWhile (\<lambda>row. \<not> in_window (cx_window_daa (en_ctx s)) cp (it_accepting_daa (snd row))) (TX (en_db s))"
    using expire_rest [of ?c "en_db s"] assms(2) by (simp add: sweep_def in_window_iff [OF w] case_prod_beta' not_le)
  show "tab_get (APPLIED (en_db (sweep None cp s))) h
      = (case tab_get (APPLIED (en_db s)) h of
           Some daa \<Rightarrow> if in_window (cx_window_daa (en_ctx s)) cp daa then Some daa else None
         | None \<Rightarrow> None)"
    using expire_tables [OF reachable_inv [OF assms(1)], of ?c h] assms(2)
    by (auto simp: sweep_def in_window_iff [OF w] not_le split: option.split)
qed

lemma sweep_interval:
  assumes "sweep_due (en_ctx s) cp" "unat cp + 900 < 2 ^ 64" "unat cp' < unat cp + 900"
  shows "\<not> sweep_due (en_ctx (sweep io cp s)) cp'"
proof -
  have "unat (cp + 900) = unat cp + 900" using assms(2) by (subst unat_add_lem [THEN iffD1]) simp_all
  then have "cp' < cp + 900" using assms(3) by (simp add: word_less_nat_alt)
  then show ?thesis using assms(1) by (auto simp: sweep_def sweep_due_def EXPIRE_INTERVAL_DAA_def)
qed

text \<open>
  Property C23. The sweep never cuts into the retention window: when it is due after an apply
  that reached score \<open>cp\<close>, it drops the rows from the lowest number up to the first one
  whose score plus the window reaches \<open>cp\<close>, in natural numbers, so the cutoff never wraps
  around, and keeps that row and all after it. Hence every row inside the window is kept, in
  its order, and every row numbered before all of these is gone; a row outside the window
  that stands behind one inside it stays, because the scan stops at the first row it keeps.
  When the rows happen to be numbered in the order of their scores (\<open>daa_ordered\<close>), which the
  store relies on but does not enforce (a failed header lookup stores the score 0, a backfill
  keeps abandoned blocks), exactly the rows inside the window are left. The applied blocks left are exactly those inside the window, whatever
  the order. When it is not due nothing is touched. It is never due without a window or
  before the chain is longer than the window, and after a sweep at \<open>cp\<close> it is not due again
  until \<open>EXPIRE_INTERVAL_DAA\<close> later (while scores stay below \<open>2 ^ 64 - EXPIRE_INTERVAL_DAA\<close>).
\<close>

theorem sweep_keeps_window:
  assumes "store_reachable e prefix (en_db s)"
  shows "(let inside = in_window (cx_window_daa (en_ctx s)) cp in
    (\<not> sweep_due (en_ctx s) cp \<longrightarrow> sweep None cp s = s)
    \<and> (sweep_due (en_ctx s) cp \<longrightarrow>
         TX (en_db (sweep None cp s)) = dropWhile (\<lambda>(n, t). \<not> inside (it_accepting_daa t)) (TX (en_db s))
       \<and> filter (\<lambda>(n, t). inside (it_accepting_daa t)) (TX (en_db (sweep None cp s)))
           = filter (\<lambda>(n, t). inside (it_accepting_daa t)) (TX (en_db s))
       \<and> (daa_ordered (en_db s) \<longrightarrow>
            TX (en_db (sweep None cp s)) = filter (\<lambda>(n, t). inside (it_accepting_daa t)) (TX (en_db s)))
       \<and> (\<forall>h. tab_get (APPLIED (en_db (sweep None cp s))) h
            = (case tab_get (APPLIED (en_db s)) h of
                 Some daa \<Rightarrow> if inside daa then Some daa else None
               | None \<Rightarrow> None))
       \<and> 0 < unat (cx_window_daa (en_ctx s)) \<and> unat (cx_window_daa (en_ctx s)) < unat cp)
    \<and> (sweep_due (en_ctx s) cp \<and> unat cp + 900 < 2 ^ 64 \<longrightarrow>
        (\<forall>cp'. unat cp' < unat cp + 900 \<longrightarrow> \<not> sweep_due (en_ctx (sweep None cp s)) cp')))"
proof -
  let ?P = "\<lambda>row. in_window (cx_window_daa (en_ctx s)) cp (it_accepting_daa (snd row))"
  have "dropWhile (\<lambda>row. \<not> ?P row) (TX (en_db s)) = filter ?P (TX (en_db s))" if "daa_ordered (en_db s)"
    by (rule dropWhile_ordered, rule sorted_wrt_mono_rel [OF _ that [unfolded daa_ordered_def]])
      (auto simp: in_window_def word_le_nat_alt)
  moreover have "\<not> sweep_due (en_ctx s) cp \<Longrightarrow> sweep None cp s = s" by (simp add: sweep_def)
  moreover have "sweep_due (en_ctx s) cp \<Longrightarrow>
      0 < unat (cx_window_daa (en_ctx s)) \<and> unat (cx_window_daa (en_ctx s)) < unat cp"
    by (simp add: sweep_due_def word_less_nat_alt)
  ultimately show ?thesis
    using sweep_rows [OF assms(1), of cp] sweep_interval [of s cp] filter_dropWhile [of ?P "TX (en_db s)"]
    by (cases "sweep_due (en_ctx s) cp") (simp_all add: Let_def case_prod_beta' cong: option.case_cong)
qed

theorem sweep_keeps_window_witness:
  "TX (en_db (sweep None 1000 ((indexer_spawn 0 sample_db2 2000)
       \<lparr> en_ctx := \<lparr> cx_window_daa = 989, cx_last_expire_daa = 0, cx_total_misses = 0 \<rparr> \<rparr>))) = [(1, sample_row2)]"
proof -
  let ?s = "(indexer_spawn 0 sample_db2 2000)\<lparr> en_ctx := \<lparr> cx_window_daa = 989, cx_last_expire_daa = 0, cx_total_misses = 0 \<rparr> \<rparr>"
  have daa: "it_accepting_daa sample_row = 10" "it_accepting_daa sample_row2 = 11"
    by (simp_all add: sample_row_def sample_row2_def build_indexed_def sample_group_def sample_group2_def)
  have db: "en_db ?s = sample_db2" by (simp add: indexer_spawn_def)
  have tx: "TX sample_db2 = [(0, sample_row), (1, sample_row2)]" by (simp add: sample_db2_simps)
  have "store_reachable ext_sample ''keryxsim'' (en_db ?s)" using sample_reachable2 unfolding db .
  moreover have "sweep_due (en_ctx ?s) 1000" by (simp add: sweep_due_def EXPIRE_INTERVAL_DAA_def)
  ultimately show ?thesis
    using sweep_keeps_window [of ext_sample "''keryxsim''" ?s 1000] unfolding db by (simp add: tx daa in_window_def)
qed

section \<open>The overlay and confirmation\<close>

lemma tab_insert_last: "(\<And>k'. k' \<in> fst ` set t \<Longrightarrow> k' < k) \<Longrightarrow> tab_insert k v t = t @ [(k, v)]"
  by (induction k v t rule: tab_insert.induct) (auto dest: less_not_sym)

lemma apply_one_row:
  assumes reach: "store_reachable e prefix d" and app: "store_apply None e prefix [grp] d = (Inr stats, d')"
    and new: "tab_get (APPLIED d) (ag_chain_block_hash grp) = None" "ag_txs grp = [raw]"
    and l: "compute_ledger e raw prefix (TX_BY_ID d) (TX d) = Inr l"
  shows "\<exists>n. TX d' = TX d @ [(n, build_indexed raw n grp l)]"
proof -
  let ?n = "meta_u64 d ''next_tx_num''"
  obtain ns st where st: "fold_res (apply_tx e prefix grp) (ag_txs grp) ([], begin_apply d) = Inr (ns, st)"
    "txs_of d' = txs_of (ap_db st)"
    by (rule apply_one_group [OF app new(1)]) blast
  from st(1) new(2) have "apply_tx e prefix grp raw ([], begin_apply d) = Inr (ns, st)" by (simp split: sum.splits)
  then have "TX (ap_db st) = tab_insert ?n (build_indexed raw ?n grp l) (TX d)"
    using l by (elim apply_tx_cases) (simp add: ledger_of_eq index_ledger_tables)
  moreover have "TX d' = TX (ap_db st)" using arg_cong [OF st(2), of TX] by simp
  moreover have "k < ?n" if "k \<in> fst ` set (TX d)" for k
  proof -
    obtain t where "(k, t) \<in> set (TX d)" using \<open>k \<in> fst ` set (TX d)\<close> by auto
    then have "tab_get (TX d) k = Some t"
      using reachable_tabs [OF reach] by (simp add: ledger_tabs_ok_def tab_get_set)
    then show ?thesis
      using reachable_inv [OF reach] by (auto simp: store_inv_def ledger_inv_def rows_inv_def row_ok_def)
  qed
  ultimately show ?thesis using tab_insert_last [of "TX d" ?n] by auto
qed

lemma confirmed_adds_pending:
  assumes "store_reachable e prefix d" "store_apply None e prefix [grp] d = (Inr stats, d')"
    "tab_get (APPLIED d) (ag_chain_block_hash grp) = None" "ag_txs grp = [raw]"
    "compute_ledger e raw prefix (TX_BY_ID d) (TX d) = Inr l"
  shows "map as_pending (history_rows a d') = ledger_pending raw l a @ map as_pending (history_rows a d)"
proof -
  obtain n where "TX d' = TX d @ [(n, build_indexed raw n grp l)]" using apply_one_row [OF assms] by blast
  moreover have "it_ledger (build_indexed raw n grp l) = l" by (simp add: build_indexed_def)
  ultimately show ?thesis using as_pending_indexed [of raw n grp l a] by (simp add: history_rows_def)
qed

text \<open>
  Property C27. The overlay shows each pending transaction as confirmation on the present store
  would. Let the ledgers of the polled transactions against the confirmed store be computed
  without a panic. Then the snapshot is built, it counts every transaction, and the pending
  rows of an address are, transaction by transaction, the rows of these ledgers; and if one
  of the transactions is accepted next, alone in a new chain block, the history of every
  address grows at its top by exactly the pending rows of that transaction, with the same
  id, amount and direction. An input whose funding transaction the confirmed store does not
  have, one that is itself still pending for instance, is not attributed: the ledger is that
  of the transaction without such inputs, so the row of a transaction that spends another
  pending one may differ once both are confirmed.
\<close>

theorem pending_rows_match_confirmed:
  assumes "store_reachable e prefix d"
    and "\<And>raw. raw \<in> set txs \<Longrightarrow> compute_ledger e raw prefix (TX_BY_ID d) (TX d) = Inr (l raw)"
  shows "\<exists>sn. build_snapshot (\<lambda>_. None) e txs d prefix = Inr sn \<and> pending_count sn = length txs
    \<and> (\<forall>a. mempool_history sn a = concat (map (\<lambda>raw. ledger_pending raw (l raw) a) txs))
    \<and> (\<forall>raw \<in> set txs. \<forall>grp stats d' a.
         ag_txs grp = [raw] \<and> tab_get (APPLIED d) (ag_chain_block_hash grp) = None
         \<and> store_apply None e prefix [grp] d = (Inr stats, d') \<longrightarrow>
         map as_pending (history_rows a d') = ledger_pending raw (l raw) a @ map as_pending (history_rows a d))
    \<and> (\<forall>raw \<in> set txs. compute_ledger e (known_inputs d raw) prefix (TX_BY_ID d) (TX d) = Inr (l raw))"
proof -
  obtain sn where sn: "build_snapshot (\<lambda>_. None) e txs d prefix = Inr sn"
    "\<forall>a. mempool_history sn a = concat (map (\<lambda>raw. ledger_pending raw (l raw) a) txs)"
    using build_snapshot_history [OF assms(2)] by blast
  then show ?thesis
    using build_snapshot_spend [OF sn(1)] confirmed_adds_pending [OF assms(1)] assms(2)
    by (intro exI [of _ sn]) (auto simp: compute_ledger_known)
qed

text \<open>Two pending transactions: one spends an output of the stored coinbase, the other an
  output of the first.\<close>

definition chained_tx :: RawTx where
  "chained_tx = sample_tx ''cc'' False [sample_in\<lparr> ri_previous_tx_id := ''bb'' \<rparr>] [2]"

lemma chained_ledger:
  "compute_ledger ext_sample chained_tx ''keryxsim'' (TX_BY_ID sample_db) (TX sample_db)
     = Inr [\<lparr> le_address = sample_address, le_credit = 2, le_debit = 0 \<rparr>]"
  by (simp add: chained_tx_def compute_ledger_def sample_tx_def credit_output_def sample_out_def sample_script
      sample_in_def ext_sample_def debit_input_def tab_get_def sample_db_simps)

theorem pending_rows_match_confirmed_witness:
  "\<exists>sn. build_snapshot (\<lambda>_. None) ext_sample [sample_tx ''bb'' False [sample_in] [], chained_tx] sample_db ''keryxsim'' = Inr sn
     \<and> mempool_history sn sample_address
       = [\<lparr> pd_tx_id = ''bb'', pd_amount_sompi = 3, pd_is_spend = True \<rparr>,
          \<lparr> pd_tx_id = ''cc'', pd_amount_sompi = 2, pd_is_spend = False \<rparr>]
     \<and> map as_pending (history_rows sample_address sample_db2)
       = \<lparr> pd_tx_id = ''bb'', pd_amount_sompi = 3, pd_is_spend = True \<rparr>
         # map as_pending (history_rows sample_address sample_db)"
proof -
  let ?bb = "sample_tx ''bb'' False [sample_in] []"
  let ?l = "\<lambda>raw. if raw = ?bb then [sample_entry2] else [\<lparr> le_address = sample_address, le_credit = 2, le_debit = 0 \<rparr>]"
  have ne: "chained_tx \<noteq> ?bb" by (simp add: chained_tx_def sample_tx_def)
  have "compute_ledger ext_sample ?bb ''keryxsim'' (TX_BY_ID sample_db) (TX sample_db) = Inr [sample_entry2]"
    using sample_ledger2 by (simp add: sample_db_simps)
  then have led: "compute_ledger ext_sample raw ''keryxsim'' (TX_BY_ID sample_db) (TX sample_db) = Inr (?l raw)"
    if "raw \<in> set [?bb, chained_tx]" for raw
    using that chained_ledger ne by auto
  have rows: "ledger_pending ?bb [sample_entry2] sample_address = [\<lparr> pd_tx_id = ''bb'', pd_amount_sompi = 3, pd_is_spend = True \<rparr>]"
    "ledger_pending chained_tx [\<lparr> le_address = sample_address, le_credit = 2, le_debit = 0 \<rparr>] sample_address
       = [\<lparr> pd_tx_id = ''cc'', pd_amount_sompi = 2, pd_is_spend = False \<rparr>]"
    by (simp_all add: ledger_pending_def pending_row_def net_i64_def unsigned_abs_def sample_entry2_def chained_tx_def
        sample_tx_def)
  have grp: "ag_txs sample_group2 = [?bb]" "tab_get (APPLIED sample_db) (ag_chain_block_hash sample_group2) = None"
    "\<exists>stats. store_apply None ext_sample ''keryxsim'' [sample_group2] sample_db = (Inr stats, sample_db2)"
    by (simp_all add: sample_group2_def sample_db_simps tab_get_def sample_db2_def sample_apply2 [unfolded sample_group2_def sample_db_simps])
  obtain stats where app: "store_apply None ext_sample ''keryxsim'' [sample_group2] sample_db = (Inr stats, sample_db2)"
    using grp(3) by blast
  obtain sn where sn: "build_snapshot (\<lambda>_. None) ext_sample [?bb, chained_tx] sample_db ''keryxsim'' = Inr sn"
    "\<forall>a. mempool_history sn a = concat (map (\<lambda>raw. ledger_pending raw (?l raw) a) [?bb, chained_tx])"
    "\<forall>raw \<in> set [?bb, chained_tx]. \<forall>grp stats d' a.
         ag_txs grp = [raw] \<and> tab_get (APPLIED sample_db) (ag_chain_block_hash grp) = None
         \<and> store_apply None ext_sample ''keryxsim'' [grp] sample_db = (Inr stats, d') \<longrightarrow>
         map as_pending (history_rows a d') = ledger_pending raw (?l raw) a @ map as_pending (history_rows a sample_db)"
    using pending_rows_match_confirmed [OF sample_reachable led] by blast
  have "map as_pending (history_rows sample_address sample_db2)
       = ledger_pending ?bb (?l ?bb) sample_address @ map as_pending (history_rows sample_address sample_db)"
    using bspec [OF sn(3), of ?bb] grp(1,2) app by simp
  then show ?thesis using sn(1,2) rows ne by (intro exI [of _ sn]) simp
qed

section \<open>A failed query at the first connection\<close>

text \<open>
  When the node does not answer the network query, the store is opened all the same, with
  the prefix of the simulation network; later connections find it open and keep it.
\<close>

lemma open_store_without_info:
  "nd_open_info node = Inl err \<Longrightarrow> fst (open_store node None d) = Inr ''keryxsim''"
proof -
  have "prefix_for_network [] = ''keryxsim''" by code_simp
  then show "nd_open_info node = Inl err \<Longrightarrow> ?thesis" by (simp add: open_store_def store_open_def)
qed

end
