(* ===== verification/Process.thy ===== *)
theory Process
  imports HandlersAi NodeClient
begin

text \<open>
  \<open>src/main.rs\<close> and the start-up probe of \<open>src/api/mod.rs\<close>: how the process is put together
  from its settings, what stops it from starting, and the application the endpoints see
  while the indexer task runs. The outcomes of the URL parser, of building the HTTP client
  and of binding the socket are arguments.
\<close>

section \<open>Starting\<close>

record main_env =
  me_endpoint :: "string \<Rightarrow> string + unit"
  me_debug :: "string \<Rightarrow> string"
  me_http_client :: "string + unit"
  me_bind :: "string \<Rightarrow> string + unit"

record process =
  ps_cfg :: Config
  ps_node :: NodeHandle
  ps_engine :: "engine option"

text \<open>
  The steps of \<open>main\<close> up to serving: the URL check comes before anything is spawned; the
  client has a notification queue exactly when the indexer is on.
\<close>

definition main_start :: "main_env \<Rightarrow> Config \<Rightarrow> db \<Rightarrow> string + process" where
  "main_start env cfg disk =
     (case me_endpoint env (cf_node_grpc cfg) of
        Inl e \<Rightarrow> Inl (''invalid --node-grpc url '' @ me_debug env (cf_node_grpc cfg) @ '': '' @ e)
      | Inr _ \<Rightarrow>
          (let (node, indexer) =
             (if cf_indexer cfg
              then (spawn_indexed (cf_node_grpc cfg) (cf_node_timeout_secs cfg),
                    Some (indexer_spawn (cf_indexer_window_days cfg) disk (cf_mempool_poll_ms cfg)))
              else (node_spawn (cf_node_grpc cfg) (cf_node_timeout_secs cfg), None))
           in case me_http_client env of
                Inl e \<Rightarrow> Inl e
              | Inr _ \<Rightarrow>
                  (case me_bind env (cf_listen cfg) of
                     Inl e \<Rightarrow> Inl e
                   | Inr _ \<Rightarrow> Inr \<lparr> ps_cfg = cfg, ps_node = node, ps_engine = indexer \<rparr>)))"

text \<open>What a request sees: the handle of the task, whose store cell is filled once it is open.\<close>

definition handle_of :: "engine \<Rightarrow> Snapshot \<Rightarrow> IndexerHandle" where
  "handle_of s sn =
     \<lparr> ih_status = en_status s, ih_store = (if en_store s = None then None else Some (en_db s)),
       ih_mempool = sn \<rparr>"

definition app_of :: "process \<Rightarrow> engine option \<Rightarrow> Snapshot \<Rightarrow> AppInner" where
  "app_of p s sn = \<lparr> aa_cfg = ps_cfg p, aa_indexer = map_option (\<lambda>s. handle_of s sn) s \<rparr>"

section \<open>The start-up probe\<close>

datatype probe_log =
  WithoutUtxoIndex
| NotSynced
| NodeReachable string string bool bool
| NodeNotReached

text \<open>
  The calls left to make and the answers to come; the results are the log lines and the
  number of five-second pauses.
\<close>

fun probe_loop :: "nat \<Rightarrow> (nat \<Rightarrow> NodeError + ServerInfo) \<Rightarrow> nat \<Rightarrow> probe_log list \<times> nat" where
  "probe_loop 0 answer sleeps = ([NodeNotReached], sleeps)"
| "probe_loop (Suc k) answer sleeps =
     (case answer 0 of
        Inr si \<Rightarrow>
          ((if sf_has_utxo_index si then [] else [WithoutUtxoIndex])
           @ (if sf_is_synced si then [] else [NotSynced])
           @ [NodeReachable (sf_server_version si) (sf_network_id si) (sf_is_synced si) (sf_has_utxo_index si)],
           sleeps)
      | Inl _ \<Rightarrow> probe_loop k (\<lambda>i. answer (Suc i)) (Suc sleeps))"

definition startup_probe :: "(nat \<Rightarrow> NodeError + ServerInfo) \<Rightarrow> probe_log list \<times> nat" where
  "startup_probe answer = probe_loop 12 answer 0"

section \<open>What starting and probing do\<close>

lemma main_start_indexer:
  "main_start env cfg disk = Inr p \<Longrightarrow>
     ps_cfg p = cfg \<and> (nd_notifs (ps_node p) \<noteq> None \<longleftrightarrow> cf_indexer cfg)
     \<and> ps_engine p = (if cf_indexer cfg then Some (indexer_spawn (cf_indexer_window_days cfg) disk (cf_mempool_poll_ms cfg)) else None)"
  by (auto simp: main_start_def spawn_indexed_def node_spawn_def spawn_inner_def split: sum.splits if_splits)

lemma probe_loop_first:
  assumes "i < k" "answer i = Inr si" "\<And>j. j < i \<Longrightarrow> \<exists>e. answer j = Inl e"
  shows "snd (probe_loop k answer n) = n + i
    \<and> NodeReachable (sf_server_version si) (sf_network_id si) (sf_is_synced si) (sf_has_utxo_index si)
        \<in> set (fst (probe_loop k answer n))
    \<and> (WithoutUtxoIndex \<in> set (fst (probe_loop k answer n)) \<longleftrightarrow> \<not> sf_has_utxo_index si)
    \<and> (NotSynced \<in> set (fst (probe_loop k answer n)) \<longleftrightarrow> \<not> sf_is_synced si)"
  using assms
proof (induction k arbitrary: i answer n)
  case (Suc k)
  show ?case
  proof (cases i)
    case 0
    then show ?thesis using Suc.prems(2) by auto
  next
    case (Suc i')
    obtain err where err: "answer 0 = Inl err" using Suc.prems(3) [of 0] Suc by auto
    have "\<exists>err. answer (Suc j) = Inl err" if "j < i'" for j
      using Suc.prems(3) [of "Suc j"] Suc that by simp
    with Suc.IH [of i' "\<lambda>i. answer (Suc i)" "Suc n"] Suc.prems(1,2) Suc err show ?thesis by simp
  qed
qed simp

lemma probe_loop_none:
  "(\<And>j. j < k \<Longrightarrow> \<exists>e. answer j = Inl e) \<Longrightarrow> probe_loop k answer n = ([NodeNotReached], n + k)"
proof (induction k arbitrary: answer n)
  case (Suc k)
  obtain err where "answer 0 = Inl err" using Suc.prems [of 0] by auto
  moreover have "probe_loop k (\<lambda>i. answer (Suc i)) (Suc n) = ([NodeNotReached], Suc n + k)"
    using Suc.prems by (intro Suc.IH) auto
  ultimately show ?case by simp
qed simp

text \<open>
  The probe reports the first answer among its twelve calls, with a warning for each
  missing capability, after one pause per failed call; with no answer it gives up after one
  minute.
\<close>

theorem startup_probe_outcome:
  "(case find (\<lambda>i. \<not> isl (answer i)) [0..<12] of
      None \<Rightarrow> startup_probe answer = ([NodeNotReached], 12)
    | Some i \<Rightarrow>
        (let si = projr (answer i); (logs, sleeps) = startup_probe answer
         in sleeps = i
            \<and> NodeReachable (sf_server_version si) (sf_network_id si) (sf_is_synced si) (sf_has_utxo_index si) \<in> set logs
            \<and> (WithoutUtxoIndex \<in> set logs \<longleftrightarrow> \<not> sf_has_utxo_index si)
            \<and> (NotSynced \<in> set logs \<longleftrightarrow> \<not> sf_is_synced si)))"
proof (cases "find (\<lambda>i. \<not> isl (answer i)) [0..<12]")
  case None
  then have "\<exists>e. answer j = Inl e" if "j < 12" for j
    using that by (cases "answer j") (auto simp: find_None_iff)
  then show ?thesis using None probe_loop_none [of 12 answer 0] by (simp add: startup_probe_def)
next
  case (Some i)
  then have i: "i < 12" "\<not> isl (answer i)" "\<And>j. j < i \<Longrightarrow> isl (answer j)"
    by (auto simp: find_Some_iff)
  then obtain si where si: "answer i = Inr si" by (cases "answer i") auto
  have "\<exists>e. answer j = Inl e" if "j < i" for j
    using i(3) [OF that] by (cases "answer j") auto
  from probe_loop_first [of i 12 answer si 0, OF i(1) si this] show ?thesis
    by (simp add: Some si startup_probe_def case_prod_beta Let_def)
qed

end
