(* ===== verification/Spec2Isabelle.thy ===== *)
theory Spec2Isabelle
  imports SealedPrompts ServerProps IndexerChain Process
begin

text \<open>
  A verification library for keryx-api-shim: a REST shim between the Keryx wallet and a
  keryxd node. It answers the wallet's \<open>/api/v1\<close> calls from the node's gRPC stream, from a
  windowed index of the chain it keeps in a redb file, and from an overlay of the node's
  mempool. All paths below are under \<open>src/src/\<close>.

  \<^bold>\<open>The program and how its parts interact.\<close> \<open>node.rs\<close> holds one message stream to the
  node: callers send requests, answers come back by id, and push messages go to the
  indexer's bounded queue. \<open>indexer/mod.rs\<close> consumes that queue: it opens the store, stages
  blocks, unwinds removed chain blocks, applies accepted ones, sweeps old rows and reports a
  status. \<open>indexer/store.rs\<close> is the database; it uses \<open>indexer/address.rs\<close> to attribute
  outputs and \<open>indexer/inference.rs\<close> to decode inference payloads. \<open>indexer/mempool.rs\<close>
  rebuilds the overlay at every poll. \<open>api/handlers.rs\<close> answers requests from the node, the
  store and the overlay, with the shapes of \<open>api/dto.rs\<close>, the cells of \<open>cache.rs\<close> and the
  errors of \<open>error.rs\<close>.

  \<^bold>\<open>The theories.\<close>

  \<^item> \<open>Prelude\<close>: machine words, the result type with errors and panics, fallible folds, paging
    loops, byte encodings, the locale \<open>invariant_system\<close> of step systems with an invariant,
    which the store, the staging area, the client actor and the indexer task interpret, and
    the locale \<open>functional_refinement\<close> of operations that act on an abstract value, which the
    bounded maps and the store interpret.
  \<^item> \<open>Tables\<close>: an ordered table as redb provides it, the locale \<open>ordered_table\<close> and its
    interpretation on sorted association lists.
  \<^item> \<open>RustText\<close>: the standard library's strings: UTF-8, ASCII case, trimming, splitting, numbers
    and hex, including the panic of a slice inside a character. \<open>Json\<close>: JSON values and
    decimals. \<open>Externals\<close>: BLAKE2b, base58 and the iteration order of hash maps, fields of the
    parameter record \<open>ext\<close>; \<open>ext_ok\<close> states what is documented of them.
  \<^item> \<open>Address\<close> (\<open>indexer/address.rs\<close>): prefixes, base-32 regrouping, the checksum, the three
    script forms. Attribution is exact and one to one and every address verifies.
  \<^item> \<open>Inference\<close> (\<open>indexer/inference.rs\<close>): the decoders of the inference payloads, each with the
    exact layout it accepts.
  \<^item> \<open>StoreData\<close>, \<open>StoreWrite\<close>, \<open>StoreRead\<close> (\<open>indexer/store.rs\<close>): records, composite keys (locale
    \<open>range_key\<close>), the tables as the record \<open>db\<close>, every write and every read. \<open>StoreLedger\<close>
    proves the ledger sums (locale \<open>accounting\<close>); \<open>StoreRows\<close>, \<open>StoreInv\<close> and \<open>StoreSteps\<close> the
    invariant that every write keeps and the reachable databases; \<open>StoreProps\<close> what reads of
    a reachable database return; \<open>StoreChange\<close>, \<open>StoreReorg\<close>, \<open>StoreLookup\<close>, \<open>StoreExpiry\<close> how
    writes compose (replays, unwinding after applying, lookups after applying, the sweep);
    \<open>StoreTotal\<close> that applying commits; \<open>StoreView\<close> the contract of the index, a map from
    applied blocks to their scores and transactions, and that every sequence of writes
    refines it; \<open>StoreSide\<close> (locale \<open>side_table\<close>) that what the payload writes and the sweep
    keep of the request, challenge and capability tables holds in every reachable database;
    \<open>StoreInference\<close> the invariant of the request and response tables and what the detail of a
    request lists; \<open>StoreCaps\<close> the keys of the capability table and what the capability list
    shows; \<open>SealedPrompts\<close> what the request table keeps and the detail endpoint shows of a
    sealed request (the transaction itself stays stored and served with its payload).
  \<^item> \<open>Staging\<close>, \<open>Indexer\<close> (\<open>indexer/mod.rs\<close>): node messages, the bounded maps (refined to a
    queue; locale \<open>recent_map\<close>), the status, groups, sweep, backfill and the notification
    loop. \<open>IndexerProps\<close> and \<open>IndexerChain\<close>: the groups built from the staged blocks, the invariant
    of the task, that it survives, what a chain notification does to the abstract index of
    \<open>StoreView\<close>, the retention window, the overlay against the store.
  \<^item> \<open>Mempool\<close> (\<open>indexer/mempool.rs\<close>): the snapshot, its lookups and the poller, which is not started
    when its interval is 0; a pending row is the row the confirmed store would write, where
    inputs funded by transactions the store does not have are not attributed.
  \<^item> \<open>NodeClient\<close> (\<open>node.rs\<close>): the methods, the connection loop and the reconnecting actor; every
    caller is answered once and with the answer to its own request.
  \<^item> \<open>Cache\<close>, \<open>HttpError\<close>, \<open>Dto\<close>, \<open>Handlers\<close>, \<open>HandlersAi\<close> (\<open>cache.rs\<close>, \<open>error.rs\<close>, \<open>api/dto.rs\<close>,
    \<open>api/handlers.rs\<close>): the endpoints. \<open>HandlerProps\<close> and \<open>EndpointProps\<close> state what they promise
    over the index, the overlay and the node.
  \<^item> \<open>Server\<close> (\<open>router\<close> of \<open>api/mod.rs\<close>, the \<open>Serialize\<close> shapes of \<open>api/dto.rs\<close>): the route table and
    the way of a request from its path through the extractors and the handler to the
    response; path matching and extractors are the parameter record \<open>axum\<close>. \<open>ServerProps\<close>: every
    request is answered in one of the documented forms, the routes are unambiguous, paths
    reach their endpoints, and what a block accepted is served over HTTP.
  \<^item> \<open>Process\<close> (\<open>main.rs\<close>, \<open>config.rs\<close>, the probe of \<open>api/mod.rs\<close>): the settings with their defaults,
    how the process starts, what a request sees of the indexer task, and the start-up
    probe. The property of this theory composes the process, the task, the server and an
    endpoint.

  \<^bold>\<open>How state and operations correspond to the code.\<close> A struct is a record and an enum a
  datatype; a method that changes state takes the record and returns it updated. Integers
  keep their width (\<open>u64\<close>, \<open>u32\<close>, \<open>u8\<close> words) and wrap as a release build does; lengths and
  positions are natural numbers. \<open>?\<close> is \<open>bind_res\<close> in the store and \<open>on_store\<close>, \<open>on_node\<close>,
  \<open>on_check\<close> in the handlers. A table is a sorted association list with typed values, so
  bincode is kept decoded; a row of an older layout is a constructor of \<open>compat\<close>. A write
  transaction commits as a whole or leaves the database as it was; an argument \<open>io\<close> of each
  store operation is the error redb reports, if any. The node's answers, the storage errors
  and the clock are arguments of a step (\<open>node_env\<close>, \<open>store_io\<close>, \<open>info_env\<close>,
  \<open>providers_env\<close>); concurrent tasks meet only at the queue, the store and the snapshot,
  whose operations are atomic, so their interleavings are sequences of steps. There is no
  fuel: every loop is structural or has a termination proof; the connection loop and the
  task run over the list of the events they receive.

  \<^bold>\<open>Hypotheses.\<close> Most properties of the index speak of databases reachable from the empty one
  (\<open>store_reachable\<close>) while transaction numbers stay below \<open>2 ^ 64\<close>; \<open>indexer_keeps_store\<close>
  shows that the task produces only those. The sweep drops the rows before the first
  one inside the window, because it stops at the first row it keeps; only when rows are
  numbered in the order of their scores (\<open>daa_ordered\<close>, a premise inside the statement, which
  the code relies on but does not enforce) are these all rows outside the window. That
  nothing panics rests on ASCII payloads and scripts (\<open>ascii_db\<close>, \<open>ascii_event\<close>), and so does
  the refinement of the abstract index, because a panic while applying would lose the write
  (\<open>fits\<close>, over a run \<open>admissible\<close>). \<open>axum_ok\<close> states axum's documented routing on the route
  table: a path made of a pattern and plain values reaches that route with those values.

  \<^bold>\<open>What is not modelled.\<close> tonic, tokio, axum, redb, reqwest, serde's text parsing and clap are
  libraries; the CORS and tracing layers (\<open>router\<close> of \<open>api/mod.rs\<close>), the shutdown signal and the
  parsing of the command line are their configuration. Floating-point arithmetic of the
  information endpoint is a parameter. Logging is modelled only where it is what the code
  is for (the start-up probe). That two requests never share an identity rests on the
  digest and is not stated.
\<close>

section \<open>The running process\<close>

lemma history_after_start:
  assumes "main_start env cfg disk = Inr p" "store_reachable e prefix disk"
    and "rel_option (engine_step e prefix)\<^sup>*\<^sup>* (ps_engine p) task_state"
    and "validate_address debug address = Inr ()"
  shows "\<exists>r. get_address_history debug (\<lambda>_. None) (app_of p task_state sn) address limit offset = Done r
    \<and> ar_transactions r =
        (case Option.bind task_state en_store of
           None \<Rightarrow> []
         | Some _ \<Rightarrow>
             (if unwrap_or 0 offset = 0
              then map (pending_history_tx address) (mempool_history sn address) else [])
             @ map (confirmed_history_tx address)
                 (take (clamp (unwrap_or 10 limit) 1 1000) (drop (unwrap_or 0 offset)
                   (history_rows address (en_db (the task_state))))))"
proof (cases task_state)
  case None
  then show ?thesis
    using assms by (auto simp: get_address_history_def app_of_def)
next
  case (Some s)
  then have on: "cf_indexer cfg"
    and steps: "(engine_step e prefix)\<^sup>*\<^sup>* (indexer_spawn (cf_indexer_window_days cfg) disk (cf_mempool_poll_ms cfg)) s"
    using assms(3) main_start_indexer [OF assms(1)] by (auto split: if_splits)
  show ?thesis
  proof (cases "en_store s")
    case closed: None
    then show ?thesis
      using Some on assms(4) by (simp add: get_address_history_def app_of_def handle_of_def)
  next
    case opened: (Some q)
    have "engine_inv e prefix s"
      using task.reach_inv [OF steps] assms(2) by (auto simp: engine_init_def)
    then have "store_reachable e prefix (en_db s)" by (simp add: engine_inv_def)
    from history_endpoint_rows [OF _ _ this assms(4), of "app_of p task_state sn" "handle_of s sn" limit offset]
    show ?thesis using Some opened on by (auto simp: app_of_def handle_of_def)
  qed
qed

text \<open>Property C30. The whole path from the notifications of the node to the wallet: once the
  process has started on a database the store can reach, and after any notifications the
  indexer task has handled, a GET of the path of a valid address is answered with status 200
  and the history of the address: no rows as long as the indexer is off or its store is not
  open, and otherwise the pending rows of the overlay on the first page followed by the
  requested page of exactly the rows the transactions indexed so far call for.\<close>

theorem process_serves_history:
  assumes "main_start env cfg disk = Inr p" "store_reachable e prefix disk"
    and "rel_option (engine_step e prefix)\<^sup>*\<^sup>* (ps_engine p) task_state"
    and "validate_address (sv_debug senv) address = Inr ()" "sv_io senv = (\<lambda>_. None)"
    and "axum_ok ax" "ax_query ax HistoryQuery (rq_query rq) = Inr q"
    and "rq_method rq = ''GET''" "rq_path rq = ''/api/v1/addresses/'' @ address"
  shows "\<exists>r. router ax senv (app_of p task_state sn) rq caches = (Some (JsonBody 200 (history_json r)), caches)
    \<and> (task_state = None \<longleftrightarrow> \<not> cf_indexer cfg)
    \<and> ar_transactions r =
        (case Option.bind task_state en_store of
           None \<Rightarrow> []
         | Some _ \<Rightarrow>
             (if unwrap_or 0 (q ''offset'') = 0
              then map (pending_history_tx address) (mempool_history sn address) else [])
             @ map (confirmed_history_tx address)
                 (take (clamp (unwrap_or 10 (q ''limit'')) 1 1000) (drop (unwrap_or 0 (q ''offset''))
                   (history_rows address (en_db (the task_state))))))"
proof -
  have page: "\<exists>r. get_address_history (sv_debug senv) (\<lambda>_. None) (app_of p task_state sn) address (q ''limit'') (q ''offset'')
        = Done r
      \<and> ar_transactions r =
        (case Option.bind task_state en_store of
           None \<Rightarrow> []
         | Some _ \<Rightarrow>
             (if unwrap_or 0 (q ''offset'') = 0
              then map (pending_history_tx address) (mempool_history sn address) else [])
             @ map (confirmed_history_tx address)
                 (take (clamp (unwrap_or 10 (q ''limit'')) 1 1000) (drop (unwrap_or 0 (q ''offset''))
                   (history_rows address (en_db (the task_state))))))"
    using assms(1-4) by (rule history_after_start)
  have "router ax senv (app_of p task_state sn) rq caches = handle ax senv (app_of p task_state sn) rq AddressHistory [address] caches"
    using history_path [OF assms(6) validated_address_plain [OF assms(4)]] assms(8,9) by (simp add: router_def)
  moreover have "task_state = None \<longleftrightarrow> \<not> cf_indexer cfg"
    using assms(3) main_start_indexer [OF assms(1)] by (cases task_state) (auto split: if_splits)
  ultimately show ?thesis using page assms(5,7) by (auto simp: with_query_def respond_def ok_json_def)
qed

definition sample_env :: main_env where
  "sample_env = \<lparr> me_endpoint = (\<lambda>_. Inr ()), me_debug = (\<lambda>s. s), me_http_client = Inr (),
     me_bind = (\<lambda>_. Inr ()) \<rparr>"

definition sample_config :: Config where
  "sample_config = config_default\<lparr> cf_indexer := True, cf_indexer_window_days := 0 \<rparr>"

definition sample_process :: process where
  "sample_process = \<lparr> ps_cfg = sample_config, ps_node = spawn_indexed ''http://127.0.0.1:22110'' 10,
     ps_engine = Some (indexer_spawn 0 sample_db2 2000) \<rparr>"

theorem process_serves_history_witness:
  "\<exists>r. main_start sample_env sample_config sample_db2 = Inr sample_process
     \<and> router axum_sample sample_server_env (app_of sample_process (Some sample_live) snapshot_empty)
         (get_request (''/api/v1/addresses/'' @ sample_address)) caches_default
       = (Some (JsonBody 200 (history_json r)), caches_default)
     \<and> map ht_tx_id (ar_transactions r) = [''bb'', ''aa'']"
proof -
  have start: "main_start sample_env sample_config sample_db2 = Inr sample_process"
    by (simp add: main_start_def sample_env_def sample_config_def sample_process_def config_default_def)
  have "engine_step ext_sample ''keryxsim'' (indexer_spawn 0 sample_db2 2000) sample_live"
    unfolding sample_live_def
    by (rule connected) (simp_all add: indexer_spawn_def open_prefix_def sample_node_def sample_prefix)
  then have steps: "rel_option (engine_step ext_sample ''keryxsim'')\<^sup>*\<^sup>* (ps_engine sample_process) (Some sample_live)"
    by (simp add: sample_process_def)
  have env: "validate_address (sv_debug sample_server_env) sample_address = Inr ()"
    "sv_io sample_server_env = (\<lambda>_. None)"
    using sample_address_valid by (simp_all add: sample_server_env_def)
  let ?rq = "get_request (''/api/v1/addresses/'' @ sample_address)"
  have rq: "ax_query axum_sample HistoryQuery (rq_query ?rq) = Inr (\<lambda>_. None)"
    "rq_method ?rq = ''GET''" "rq_path ?rq = ''/api/v1/addresses/'' @ sample_address"
    by (simp_all add: axum_sample_def get_request_def)
  from process_serves_history [OF start sample_reachable2 steps env axum_ok_sample rq, of snapshot_empty caches_default]
  obtain r where r: "router axum_sample sample_server_env (app_of sample_process (Some sample_live) snapshot_empty) ?rq
         caches_default = (Some (JsonBody 200 (history_json r)), caches_default)"
    "ar_transactions r = map (confirmed_history_tx sample_address)
       (take 10 (history_rows sample_address (en_db sample_live)))"
    by (auto simp: sample_live_eq unwrap_or_def clamp_def mempool_history_def snapshot_empty_def)
  have "history_rows sample_address (en_db sample_live) = history_rows sample_address sample_db2"
    unfolding sample_live_eq(3) by (simp add: history_rows_def)
  also have "\<dots> = [hist_row_of sample_row2 sample_entry2, hist_row_of sample_row sample_entry]"
    by (simp add: history_rows_def sample_db2_simps sample_row_def sample_row2_def build_indexed_def
        sample_entry_def sample_entry2_def)
  finally have "map ht_tx_id (ar_transactions r) = [''bb'', ''aa'']"
    by (simp add: r(2) confirmed_history_tx_def hist_row_of_def sample_row_def sample_row2_def build_indexed_def
        sample_tx_def Let_def)
  with start r(1) show ?thesis by (intro exI [of _ r] conjI)
qed

end
